(* ===== verification/PncPrelude.thy ===== *)
theory PncPrelude
  imports Main "HOL-Library.Word" "HOL-Library.Monad_Syntax"
begin

text \<open>
  Shared vocabulary of the development: the C integer types of the driver, the Linux error numbers
  its functions return (negated), and the generic facts on words, lists and options that the
  component theories use. The collections declared here are the hints of the later proofs:
  \<open>errno\<close> unfolds the error numbers, \<open>ring_simps\<close> the arithmetic of ring indices.

  A C function that may not return normally (it sleeps for ever on a semaphore or a wait queue, or it
  dereferences a pointer that is not valid) is a function into \<open>option\<close>: \<open>None\<close> is "does not
  return normally". The do-notation of Monad_Syntax sequences such functions.
\<close>

unbundle bit_operations_syntax

subsection \<open>C integers\<close>

type_synonym u8 = "8 word"
type_synonym u16 = "16 word"
type_synonym u32 = "32 word"
type_synonym u64 = "64 word"

named_theorems errno \<open>the Linux error numbers\<close>
named_theorems ring_simps \<open>arithmetic of ring indices\<close>

subsection \<open>Error numbers of the Linux kernel\<close>

definition ENOENT :: int where [errno]: "ENOENT = 2"
definition EBADF :: int where [errno]: "EBADF = 9"
definition EAGAIN :: int where [errno]: "EAGAIN = 11"
definition ENOMEM :: int where [errno]: "ENOMEM = 12"
definition EACCES :: int where [errno]: "EACCES = 13"
definition EFAULT :: int where [errno]: "EFAULT = 14"
definition EEXIST :: int where [errno]: "EEXIST = 17"
definition ENODEV :: int where [errno]: "ENODEV = 19"
definition EINVAL :: int where [errno]: "EINVAL = 22"
definition ENOTTY :: int where [errno]: "ENOTTY = 25"
definition EPIPE :: int where [errno]: "EPIPE = 32"
definition ENOSYS :: int where [errno]: "ENOSYS = 38"
definition EPROTO :: int where [errno]: "EPROTO = 71"
definition EOVERFLOW :: int where [errno]: "EOVERFLOW = 75"
definition ETIMEDOUT :: int where [errno]: "ETIMEDOUT = 110"
definition ERESTARTSYS :: int where [errno]: "ERESTARTSYS = 512"
definition ENOTSUPP :: int where [errno]: "ENOTSUPP = 524"

subsection \<open>Words\<close>

lemma unat_power2_u32 [ring_simps]:
  assumes "k < 32"
  shows "unat ((2::u32) ^ k) = 2 ^ k"
proof -
  have "(2::nat) ^ k < 2 ^ LENGTH(32)"
    by (rule power_strict_increasing) (use assms in simp_all)
  moreover have "(2::u32) ^ k = of_nat (2 ^ k)" by simp
  ultimately show ?thesis by (simp only: unat_of_nat mod_less)
qed

lemma and_pow2_minus_1 [ring_simps]: "unat ((x::u32) AND (2 ^ k - 1)) = unat x mod 2 ^ k"
  by (metis mask_eq_exp_minus_1 take_bit_eq_mask take_bit_eq_mod unsigned_take_bit_eq)

lemma unat_add_of_nat_mod:
  assumes "k \<le> 32"
  shows "unat ((c::u32) + of_nat j) mod 2 ^ k = (unat c mod 2 ^ k + j) mod 2 ^ k"
proof -
  have "(2::nat) ^ k dvd 2 ^ 32"
    using assms by (rule le_imp_power_dvd)
  then have dvd: "(2::nat) ^ k dvd 4294967296" by simp
  have "unat (c + of_nat j) = (unat c + j) mod 4294967296"
    by (simp add: unat_word_ariths unsigned_of_nat take_bit_eq_mod mod_simps)
  then show ?thesis
    using mod_mod_cancel [OF dvd, of "unat c + j"] by (simp add: mod_simps)
qed

lemma unat_u32_less: "unat (x::u32) < 4294967296"
  using unsigned_less [of x, where ?'a = nat] by simp

text \<open>The distance from one ring index to a later one, modulo the width of an index.\<close>

lemma unat_diff_Suc:
  assumes "(a::u32) \<noteq> b"
  shows "unat (b - a) = Suc (unat (b - (a + 1)))"
proof -
  have "b - a \<noteq> 0" using assms by simp
  then have "unat (b - a) = Suc (unat (b - a - 1))"
    by (simp add: unat_minus_one unat_gt_0)
  then show ?thesis by (simp add: algebra_simps)
qed

lemma unat_diff_add:
  fixes a b c :: u32
  assumes "unat (b - a) + unat (c - b) < 4294967296"
  shows "unat (c - a) = unat (b - a) + unat (c - b)"
proof -
  have "unat ((b - a) + (c - b)) = unat (b - a) + unat (c - b)"
    using assms by (simp only: unat_word_ariths) simp
  then show ?thesis by simp
qed

lemma unat_diff_mod:
  assumes "k \<le> 32"
  shows "unat (b::u32) mod 2 ^ k = (unat (a::u32) mod 2 ^ k + unat (b - a)) mod 2 ^ k"
  using unat_add_of_nat_mod [OF assms, of a "unat (b - a)"] by simp

lemma unat_of_nat_small [simp]: "i < 256 \<Longrightarrow> unat (of_nat i :: u32) = i"
  by (simp add: unsigned_of_nat take_bit_nat_eq_self)

lemma and_single_bit: "(x::u32) AND push_bit n 1 = (if bit x n then push_bit n 1 else 0)"
  by (rule bit_eqI) (auto simp: bit_simps)

subsection \<open>Naturals and lists\<close>

lemma mod_add_inj:
  fixes s j k n :: nat
  assumes "(s + j) mod n = (s + k) mod n" and "j < n" and "k < n"
  shows "j = k"
proof -
  have "(int s + int j) mod int n = (int s + int k) mod int n"
    using assms(1) by (metis of_nat_add of_nat_mod)
  then have "int j mod int n = int k mod int n"
    by (metis add_diff_cancel_left' mod_diff_left_eq)
  then show ?thesis using assms(2,3) by simp
qed

subsection \<open>Histories\<close>

text \<open>A sequence of labelled steps of a relation.\<close>

inductive history :: "('s \<Rightarrow> 'o \<Rightarrow> 's \<Rightarrow> bool) \<Rightarrow> 's \<Rightarrow> 'o list \<Rightarrow> 's \<Rightarrow> bool" for step where
  history_nil: "history step s [] s"
| history_cons: "step s o1 s' \<Longrightarrow> history step s' os s'' \<Longrightarrow> history step s (o1 # os) s''"

inductive_cases history_ConsE: "history step s (o1 # os) s'"
inductive_simps history_Nil_iff [simp]: "history step s [] s'"

lemma history_invariant:
  assumes "history step s os s'" and "P s"
    and "\<And>s o1 s'. P s \<Longrightarrow> step s o1 s' \<Longrightarrow> P s'"
  shows "P s'"
  using assms(1,2) by (induction rule: history.induct) (blast intro: assms(3))+

end
