(* ===== verification/PncRing.thy ===== *)
theory PncRing
  imports PncPrelude
begin

text \<open>
  The unidirectional ring buffer of \<open>include/misc/provencore/pnr_ring.h\<close>: the code that
  \<open>PNR_RING_GENERATE_UNI(msg_t, prefix)\<close> generates, for any message type \<open>'m\<close>. The structure
  in shared memory is \<open>'m uni_shared\<close>, the private structures of the two actors are
  \<open>uni_producer\<close> and \<open>uni_consumer\<close>. Indices are 32-bit words that wrap around; a pointer to a
  slot is the slot's number in \<open>array\<close>. A private structure's pointer \<open>shared\<close> is the
  \<open>uni_shared\<close> argument of the operation.

  The peer is another actor: where an operation looks twice at the shared structure, the argument
  \<open>peer\<close> is what the other actor does to it between the two looks.
\<close>

subsection \<open>Rounding down to a power of two\<close>

definition round_down_power2_2 :: "u32 \<Rightarrow> u32" where
  "round_down_power2_2 x = (if x div 2 = 0 then x else 2)"

definition round_down_power2_4 :: "u32 \<Rightarrow> u32" where
  "round_down_power2_4 x =
     (if x div 4 = 0 then round_down_power2_2 x else round_down_power2_2 (x div 4) * 4)"

definition round_down_power2_8 :: "u32 \<Rightarrow> u32" where
  "round_down_power2_8 x =
     (if x div 0x10 = 0 then round_down_power2_4 x else round_down_power2_4 (x div 0x10) * 0x10)"

definition round_down_power2_16 :: "u32 \<Rightarrow> u32" where
  "round_down_power2_16 x =
     (if x div 0x100 = 0 then round_down_power2_8 x
      else round_down_power2_8 (x div 0x100) * 0x100)"

definition round_down_power2_32 :: "u32 \<Rightarrow> u32" where
  "round_down_power2_32 x =
     (if x div 0x10000 = 0 then round_down_power2_16 x
      else round_down_power2_16 (x div 0x10000) * 0x10000)"

text \<open>The argument is a \<open>size_t\<close> of the 64-bit kernel.\<close>

definition round_down_power2_index :: "u64 \<Rightarrow> u32" where
  "round_down_power2_index x = round_down_power2_32 (if 0xffffffff < x then 0xffffffff else ucast x)"

definition uni_capacity_to_shared_size :: "u64 \<Rightarrow> u64 \<Rightarrow> u64 \<Rightarrow> u64" where
  "uni_capacity_to_shared_size shared_sz msg_sz capacity = shared_sz + capacity * msg_sz"

definition uni_shared_size_to_capacity :: "u64 \<Rightarrow> u64 \<Rightarrow> u64 \<Rightarrow> u32" where
  "uni_shared_size_to_capacity shared_sz msg_sz sz =
     (if shared_sz \<le> sz then round_down_power2_index ((sz - shared_sz) div msg_sz) else 0)"

subsection \<open>Ranges of slots and copies between an array and the ring\<close>

record ring_range =
  fst_begin :: nat
  fst_count :: u32
  snd_begin :: nat
  snd_count :: u32

definition ring_ranges :: "u32 \<Rightarrow> u32 \<Rightarrow> u32 \<Rightarrow> ring_range" where
  "ring_ranges ring_capacity ring_begin ring_end =
     (let masked_ring_begin = ring_begin AND (ring_capacity - 1);
          rem = ring_capacity - masked_ring_begin;
          count = ring_end - ring_begin
      in if count \<le> rem
         then \<lparr>fst_begin = unat masked_ring_begin, fst_count = count, snd_begin = 0, snd_count = 0\<rparr>
         else \<lparr>fst_begin = unat masked_ring_begin, fst_count = rem, snd_begin = 0,
               snd_count = count - rem\<rparr>)"

text \<open>\<open>memcpy\<close> of \<open>n\<close> elements from offset \<open>j\<close> of one array to offset \<open>i\<close> of another.\<close>

definition copy_slots :: "'a list \<Rightarrow> nat \<Rightarrow> 'a list \<Rightarrow> nat \<Rightarrow> nat \<Rightarrow> 'a list" where
  "copy_slots dst i src j n = take i dst @ take n (drop j src) @ drop (i + n) dst"

definition ring_copy_from_ring ::
  "'m list \<Rightarrow> u32 \<Rightarrow> 'm list \<Rightarrow> u32 \<Rightarrow> u32 \<Rightarrow> u32 \<Rightarrow> u32 \<times> 'm list" where
  "ring_copy_from_ring priv_msgs priv_count ring_msgs ring_capacity ring_begin ring_end =
     (let ring_count = ring_end - ring_begin;
          priv_count = (if ring_count < priv_count then ring_count else priv_count);
          masked_ring_begin = ring_begin AND (ring_capacity - 1);
          rem = ring_capacity - masked_ring_begin
      in if priv_count \<le> rem
         then (priv_count,
               copy_slots priv_msgs 0 ring_msgs (unat masked_ring_begin) (unat priv_count))
         else (priv_count,
               copy_slots (copy_slots priv_msgs 0 ring_msgs (unat masked_ring_begin) (unat rem))
                 (unat rem) ring_msgs 0 (unat (priv_count - rem))))"

definition ring_copy_to_ring ::
  "'m list \<Rightarrow> u32 \<Rightarrow> u32 \<Rightarrow> u32 \<Rightarrow> 'm list \<Rightarrow> u32 \<Rightarrow> u32 \<times> 'm list" where
  "ring_copy_to_ring ring_msgs ring_capacity ring_begin ring_end priv_msgs priv_count =
     (let ring_count = ring_end - ring_begin;
          priv_count = (if ring_count < priv_count then ring_count else priv_count);
          masked_ring_begin = ring_begin AND (ring_capacity - 1);
          rem = ring_capacity - masked_ring_begin
      in if priv_count \<le> rem
         then (priv_count,
               copy_slots ring_msgs (unat masked_ring_begin) priv_msgs 0 (unat priv_count))
         else (priv_count,
               copy_slots (copy_slots ring_msgs (unat masked_ring_begin) priv_msgs 0 (unat rem))
                 0 priv_msgs (unat rem) (unat (priv_count - rem))))"

subsection \<open>The structures\<close>

record 'm uni_shared =
  sh_prod :: u32
  sh_cons_limit :: u32
  sh_cons :: u32
  sh_prod_limit :: u32
  sh_array :: "'m list"

record uni_producer =
  p_capacity :: u32
  p_prod :: u32
  p_last_published_prod :: u32
  p_prod_end :: u32

record uni_consumer =
  c_capacity :: u32
  c_cons :: u32
  c_last_published_cons :: u32
  c_cons_end :: u32

definition uni_shared_init :: "'m uni_shared \<Rightarrow> 'm uni_shared" where
  "uni_shared_init sh = sh\<lparr>sh_prod := 0, sh_cons_limit := - 1, sh_cons := 0, sh_prod_limit := 0\<rparr>"

subsection \<open>The producer\<close>

definition producer_init :: "u64 \<Rightarrow> u64 \<Rightarrow> u64 \<Rightarrow> bool \<times> uni_producer" where
  "producer_init shared_sz msg_sz sz =
     (let capacity = uni_shared_size_to_capacity shared_sz msg_sz sz
      in (capacity \<noteq> 0,
          \<lparr>p_capacity = capacity, p_prod = 0, p_last_published_prod = 0, p_prod_end = capacity\<rparr>))"

definition producer_capacity :: "uni_producer \<Rightarrow> u32" where
  "producer_capacity p = p_capacity p"

definition producer_checkout_helper ::
  "uni_producer \<Rightarrow> 'm uni_shared \<Rightarrow> bool \<times> uni_producer" where
  "producer_checkout_helper p sh =
     (let prod = p_prod p;
          capacity = p_capacity p;
          cons = sh_cons sh;
          p = (if prod - cons \<le> capacity then p\<lparr>p_prod_end := cons + capacity\<rparr> else p)
      in (p_prod_end p \<noteq> prod, p))"

definition producer_checkout ::
  "('m uni_shared \<Rightarrow> 'm uni_shared) \<Rightarrow> uni_producer \<Rightarrow> 'm uni_shared
     \<Rightarrow> bool \<times> uni_producer \<times> 'm uni_shared" where
  "producer_checkout peer p sh =
     (let (ok, p) = producer_checkout_helper p sh
      in if ok then (True, p, sh)
         else
           let sh = sh\<lparr>sh_cons_limit := p_prod_end p - p_capacity p\<rparr>;
               sh = peer sh;
               (ok, p) = producer_checkout_helper p sh
           in (ok, p, sh))"

definition producer_free :: "uni_producer \<Rightarrow> u32" where
  "producer_free p = p_prod_end p - p_prod p"

definition producer_peek :: "uni_producer \<Rightarrow> nat option" where
  "producer_peek p =
     (let prod = p_prod p
      in if prod = p_prod_end p then None else Some (unat (prod AND (p_capacity p - 1))))"

definition producer_peek_all :: "uni_producer \<Rightarrow> ring_range" where
  "producer_peek_all p = ring_ranges (p_capacity p) (p_prod p) (p_prod_end p)"

definition producer_advance :: "uni_producer \<Rightarrow> uni_producer" where
  "producer_advance p = p\<lparr>p_prod := p_prod p + 1\<rparr>"

definition producer_advance_n :: "uni_producer \<Rightarrow> u32 \<Rightarrow> uni_producer" where
  "producer_advance_n p count = p\<lparr>p_prod := p_prod p + count\<rparr>"

definition producer_produce ::
  "uni_producer \<Rightarrow> 'm uni_shared \<Rightarrow> 'm \<Rightarrow> bool \<times> uni_producer \<times> 'm uni_shared" where
  "producer_produce p sh msg =
     (let prod = p_prod p
      in if prod = p_prod_end p then (False, p, sh)
         else (True, p\<lparr>p_prod := prod + 1\<rparr>,
               sh\<lparr>sh_array := (sh_array sh)[unat (prod AND (p_capacity p - 1)) := msg]\<rparr>))"

definition producer_produce_n ::
  "uni_producer \<Rightarrow> 'm uni_shared \<Rightarrow> 'm list \<Rightarrow> u32 \<Rightarrow> u32 \<times> uni_producer \<times> 'm uni_shared" where
  "producer_produce_n p sh msgs count =
     (let (n, a) = ring_copy_to_ring (sh_array sh) (p_capacity p) (p_prod p) (p_prod_end p) msgs count
      in (n, p, sh\<lparr>sh_array := a\<rparr>))"

definition producer_commit ::
  "uni_producer \<Rightarrow> 'm uni_shared \<Rightarrow> bool \<times> uni_producer \<times> 'm uni_shared" where
  "producer_commit p sh =
     (let last = p_last_published_prod p;
          prod = p_prod p
      in if prod = last then (False, p, sh)
         else (sh_prod_limit sh - last < prod - last,
               p\<lparr>p_last_published_prod := prod\<rparr>,
               sh\<lparr>sh_prod := prod\<rparr>))"

subsection \<open>The consumer\<close>

definition consumer_init :: "u64 \<Rightarrow> u64 \<Rightarrow> u64 \<Rightarrow> bool \<times> uni_consumer" where
  "consumer_init shared_sz msg_sz sz =
     (let capacity = uni_shared_size_to_capacity shared_sz msg_sz sz
      in (capacity \<noteq> 0,
          \<lparr>c_capacity = capacity, c_cons = 0, c_last_published_cons = 0, c_cons_end = 0\<rparr>))"

definition consumer_capacity :: "uni_consumer \<Rightarrow> u32" where
  "consumer_capacity c = c_capacity c"

definition consumer_checkout_helper ::
  "uni_consumer \<Rightarrow> 'm uni_shared \<Rightarrow> bool \<times> uni_consumer" where
  "consumer_checkout_helper c sh =
     (let cons = c_cons c;
          prod = sh_prod sh;
          c = (if prod - cons \<le> c_capacity c then c\<lparr>c_cons_end := prod\<rparr> else c)
      in (c_cons_end c \<noteq> cons, c))"

definition consumer_checkout ::
  "('m uni_shared \<Rightarrow> 'm uni_shared) \<Rightarrow> uni_consumer \<Rightarrow> 'm uni_shared
     \<Rightarrow> bool \<times> uni_consumer \<times> 'm uni_shared" where
  "consumer_checkout peer c sh =
     (let (ok, c) = consumer_checkout_helper c sh
      in if ok then (True, c, sh)
         else
           let sh = sh\<lparr>sh_prod_limit := c_cons_end c\<rparr>;
               sh = peer sh;
               (ok, c) = consumer_checkout_helper c sh
           in (ok, c, sh))"

definition consumer_unconsumed :: "uni_consumer \<Rightarrow> u32" where
  "consumer_unconsumed c = c_cons_end c - c_cons c"

definition consumer_peek :: "uni_consumer \<Rightarrow> nat option" where
  "consumer_peek c =
     (let cons = c_cons c
      in if cons = c_cons_end c then None else Some (unat (cons AND (c_capacity c - 1))))"

definition consumer_peek_all :: "uni_consumer \<Rightarrow> ring_range" where
  "consumer_peek_all c = ring_ranges (c_capacity c) (c_cons c) (c_cons_end c)"

definition consumer_advance :: "uni_consumer \<Rightarrow> uni_consumer" where
  "consumer_advance c = c\<lparr>c_cons := c_cons c + 1\<rparr>"

definition consumer_advance_n :: "uni_consumer \<Rightarrow> u32 \<Rightarrow> uni_consumer" where
  "consumer_advance_n c count = c\<lparr>c_cons := c_cons c + count\<rparr>"

text \<open>
  The slot that \<open>consume\<close> reads is the array element at the masked index; \<open>slot_in_range\<close> below
  shows that a masked index is always an index of the array.
\<close>

definition consumer_consume :: "uni_consumer \<Rightarrow> 'm uni_shared \<Rightarrow> 'm option \<times> uni_consumer" where
  "consumer_consume c sh =
     (let cons = c_cons c
      in if cons = c_cons_end c then (None, c)
         else (Some (sh_array sh ! unat (cons AND (c_capacity c - 1))), c\<lparr>c_cons := cons + 1\<rparr>))"

definition consumer_consume_n ::
  "uni_consumer \<Rightarrow> 'm uni_shared \<Rightarrow> 'm list \<Rightarrow> u32 \<Rightarrow> u32 \<times> 'm list \<times> uni_consumer" where
  "consumer_consume_n c sh msgs count =
     (let (n, a) = ring_copy_from_ring msgs count (sh_array sh) (c_capacity c) (c_cons c)
                     (c_cons_end c)
      in (n, a, c))"

definition consumer_commit ::
  "uni_consumer \<Rightarrow> 'm uni_shared \<Rightarrow> bool \<times> uni_consumer \<times> 'm uni_shared" where
  "consumer_commit c sh =
     (let last = c_last_published_cons c;
          cons = c_cons c
      in if cons = last then (False, c, sh)
         else (sh_cons_limit sh - last < cons - last,
               c\<lparr>c_last_published_cons := cons\<rparr>,
               sh\<lparr>sh_cons := cons\<rparr>))"

end
