(* ===== verification/PncFifo.thy ===== *)
theory PncFifo
  imports PncPrelude "HOL-Library.Sublist"
begin

text \<open>
  The contract of a message channel, as a locale: a machine whose steps accept messages from a
  sender and deliver messages to a receiver, whose state holds the list of accepted messages that are
  not delivered yet. What a client of the channel may rely on (order, no loss, no duplication, a
  bounded backlog, over any interleaving of the two actors' steps) is proved once here;
  PncRing_Fifo, PncRing_Weak_Fifo and PncRingBi_Fifo interpret the locale on the ring buffers.
\<close>

fun run_steps :: "('e \<Rightarrow> 'q \<Rightarrow> 'm list \<times> 'm list \<times> 'q) \<Rightarrow> 'e list \<Rightarrow> 'q
    \<Rightarrow> 'm list \<times> 'm list \<times> 'q" where
  "run_steps step [] q = ([], [], q)"
| "run_steps step (e # es) q =
     (let (a, d, q') = step e q;
          (as, ds, q'') = run_steps step es q'
      in (a @ as, d @ ds, q''))"

lemma run_steps_append:
  "run_steps step (es @ es') q =
     (let (a, d, q1) = run_steps step es q; (a', d', q2) = run_steps step es' q1 in (a @ a', d @ d', q2))"
  by (induction es arbitrary: q) (auto simp: Let_def split: prod.splits)

locale fifo_machine =
  fixes invar :: "'q \<Rightarrow> bool"
    and content :: "'q \<Rightarrow> 'm list"
    and bound :: "'q \<Rightarrow> nat"
    and step :: "'e \<Rightarrow> 'q \<Rightarrow> 'm list \<times> 'm list \<times> 'q"
  assumes step_invar: "invar q \<Longrightarrow> step e q = (a, d, q') \<Longrightarrow> invar q'"
    and step_fifo: "invar q \<Longrightarrow> step e q = (a, d, q') \<Longrightarrow> content q @ a = d @ content q'"
    and step_bound: "step e q = (a, d, q') \<Longrightarrow> bound q' = bound q"
    and content_bound: "invar q \<Longrightarrow> length (content q) \<le> bound q"
begin

lemma run_invar_fifo:
  assumes "invar q" and "run_steps step es q = (a, d, q')"
  shows "invar q' \<and> content q @ a = d @ content q' \<and> bound q' = bound q"
  using assms
proof (induction es arbitrary: q a d)
  case Nil
  then show ?case by simp
next
  case (Cons e es)
  obtain a1 d1 q1 where s: "step e q = (a1, d1, q1)" by (cases "step e q") auto
  obtain a2 d2 where r: "run_steps step es q1 = (a2, d2, q')" and ad: "a = a1 @ a2" "d = d1 @ d2"
    using Cons.prems(2) s by (auto split: prod.splits)
  have q1: "invar q1" "content q @ a1 = d1 @ content q1" "bound q1 = bound q"
    using step_invar step_fifo step_bound s Cons.prems(1) by blast+
  have "invar q' \<and> content q1 @ a2 = d2 @ content q' \<and> bound q' = bound q1"
    using Cons.IH [OF q1(1) r] .
  then show ?case using q1 ad by (metis append.assoc)
qed

lemma delivered_prefix:
  assumes "invar q" and "content q = []" and "run_steps step es q = (a, d, q')"
  shows "prefix d a \<and> length a \<le> length d + bound q"
proof -
  have f: "invar q'" "a = d @ content q'" "bound q' = bound q"
    using run_invar_fifo [OF assms(1,3)] assms(2) by auto
  moreover have "length (content q') \<le> bound q"
    using content_bound [OF f(1)] f(3) by simp
  ultimately show ?thesis by (auto simp: prefix_def)
qed

end

end
