(* ===== verification/PncRing_Fifo.thy ===== *)
theory PncRing_Fifo
  imports PncRing PncFifo
begin

text \<open>
  Correctness of the unidirectional ring: the invariant of a producer, a consumer and their shared
  structure, the abstraction to the list of messages that are produced and not consumed, the refinement
  of every operation to that list, and the interpretation of the channel contract on the
  interleavings of both actors' operations. The second half is about a peer that does not follow the
  protocol: whatever the shared structure holds, an actor stays inside the array.
\<close>

subsection \<open>Slots\<close>

definition slot :: "u32 \<Rightarrow> u32 \<Rightarrow> nat" where
  "slot capacity i = unat (i AND (capacity - 1))"

lemma slot_pow2 [ring_simps]: "slot (2 ^ k) i = unat i mod 2 ^ k"
  by (simp add: slot_def and_pow2_minus_1)

text \<open>The \<open>n\<close> messages of the ring that start at slot \<open>s\<close>.\<close>

definition ring_list :: "'m list \<Rightarrow> nat \<Rightarrow> nat \<Rightarrow> nat \<Rightarrow> 'm list" where
  "ring_list arr N s n = map (\<lambda>j. arr ! ((s + j) mod N)) [0..<n]"

lemma length_ring_list [simp]: "length (ring_list arr N s n) = n"
  by (simp add: ring_list_def)

lemma ring_list_0 [simp]: "ring_list arr N s 0 = []"
  by (simp add: ring_list_def)

lemma ring_list_mod [simp]: "ring_list arr N (s mod N) n = ring_list arr N s n"
  by (simp add: ring_list_def mod_simps)

lemma ring_list_Suc: "ring_list arr N s (Suc n) = arr ! (s mod N) # ring_list arr N (Suc s) n"
  by (simp add: ring_list_def upt_conv_Cons map_Suc_upt [symmetric] del: upt_Suc)

lemma ring_list_append:
  assumes "n < N" and "length arr = N"
  shows "ring_list (arr[(s + n) mod N := m]) N s (Suc n) = ring_list arr N s n @ [m]"
proof -
  have old: "arr[(s + n) mod N := m] ! ((s + j) mod N) = arr ! ((s + j) mod N)" if "j < n" for j
    using mod_add_inj [of s n N j] that assms by (auto intro!: nth_list_update_neq)
  have new: "arr[(s + n) mod N := m] ! ((s + n) mod N) = m"
    using assms by (intro nth_list_update_eq) auto
  show ?thesis
    using old new by (simp add: ring_list_def)
qed

subsection \<open>The ring of both actors\<close>

record 'm uni_ring =
  rg_producer :: uni_producer
  rg_consumer :: uni_consumer
  rg_shared :: "'m uni_shared"

text \<open>
  The indices \<open>cons\<close> (published), \<open>cons\<close> (private), \<open>cons_end\<close>, \<open>prod\<close> (published), \<open>prod\<close>
  (private), \<open>prod_end\<close> follow each other on the circle of 32-bit words, and from the first to the last
  there are at most \<open>capacity\<close> slots.
\<close>

definition uni_wf :: "nat \<Rightarrow> 'm uni_ring \<Rightarrow> bool" where
  "uni_wf k r \<longleftrightarrow>
     (let p = rg_producer r; c = rg_consumer r; sh = rg_shared r
      in k < 32 \<and> p_capacity p = 2 ^ k \<and> c_capacity c = 2 ^ k \<and> length (sh_array sh) = 2 ^ k \<and>
         c_last_published_cons c = sh_cons sh \<and> p_last_published_prod p = sh_prod sh \<and>
         unat (c_cons c - sh_cons sh) + unat (c_cons_end c - c_cons c) +
           unat (sh_prod sh - c_cons_end c) + unat (p_prod p - sh_prod sh) +
           unat (p_prod_end p - p_prod p) \<le> 2 ^ k)"

definition uni_content :: "'m uni_ring \<Rightarrow> 'm list" where
  "uni_content r =
     ring_list (sh_array (rg_shared r)) (length (sh_array (rg_shared r)))
       (unat (c_cons (rg_consumer r)))
       (unat (p_prod (rg_producer r) - c_cons (rg_consumer r)))"

text \<open>The messages a consumer can already see: produced, published and not consumed.\<close>

definition uni_visible :: "'m uni_ring \<Rightarrow> 'm list" where
  "uni_visible r =
     ring_list (sh_array (rg_shared r)) (length (sh_array (rg_shared r)))
       (unat (c_cons (rg_consumer r)))
       (unat (sh_prod (rg_shared r) - c_cons (rg_consumer r)))"

subsection \<open>Operations as steps of the pair of actors\<close>

datatype 'm ring_event =
    Producer_checkout | Produce 'm | Producer_commit
  | Consumer_checkout | Consume | Consumer_commit

fun uni_step :: "'m ring_event \<Rightarrow> 'm uni_ring \<Rightarrow> 'm list \<times> 'm list \<times> 'm uni_ring" where
  "uni_step Producer_checkout r =
     (let (ok, p, sh) = producer_checkout id (rg_producer r) (rg_shared r)
      in ([], [], r\<lparr>rg_producer := p, rg_shared := sh\<rparr>))"
| "uni_step (Produce m) r =
     (let (ok, p, sh) = producer_produce (rg_producer r) (rg_shared r) m
      in (if ok then [m] else [], [], r\<lparr>rg_producer := p, rg_shared := sh\<rparr>))"
| "uni_step Producer_commit r =
     (let (ok, p, sh) = producer_commit (rg_producer r) (rg_shared r)
      in ([], [], r\<lparr>rg_producer := p, rg_shared := sh\<rparr>))"
| "uni_step Consumer_checkout r =
     (let (ok, c, sh) = consumer_checkout id (rg_consumer r) (rg_shared r)
      in ([], [], r\<lparr>rg_consumer := c, rg_shared := sh\<rparr>))"
| "uni_step Consume r =
     (let (m, c) = consumer_consume (rg_consumer r) (rg_shared r)
      in ([], (case m of None \<Rightarrow> [] | Some x \<Rightarrow> [x]), r\<lparr>rg_consumer := c\<rparr>))"
| "uni_step Consumer_commit r =
     (let (ok, c, sh) = consumer_commit (rg_consumer r) (rg_shared r)
      in ([], [], r\<lparr>rg_consumer := c, rg_shared := sh\<rparr>))"

subsection \<open>Distances between the indices\<close>

lemma pow2_le_half: "k < 32 \<Longrightarrow> (2::nat) ^ k \<le> 2147483648"
  using power_increasing [of k 31 "2::nat"] by simp

lemma uni_wf_dist:
  assumes "uni_wf k r"
  defines "p \<equiv> rg_producer r" and "c \<equiv> rg_consumer r" and "sh \<equiv> rg_shared r"
  shows "unat (sh_prod sh - c_cons c) = unat (c_cons_end c - c_cons c) + unat (sh_prod sh - c_cons_end c)"
    and "unat (p_prod p - c_cons c) = unat (c_cons_end c - c_cons c) + unat (sh_prod sh - c_cons_end c) + unat (p_prod p - sh_prod sh)"
    and "unat (p_prod p - sh_cons sh) = unat (c_cons c - sh_cons sh) + unat (p_prod p - c_cons c)"
    and "unat (p_prod p - c_cons_end c) = unat (sh_prod sh - c_cons_end c) + unat (p_prod p - sh_prod sh)"
    and "unat (p_prod p - c_cons c) + unat (p_prod_end p - p_prod p) \<le> 2 ^ k"
    and "unat (p_prod p - sh_cons sh) + unat (p_prod_end p - p_prod p) \<le> 2 ^ k"
    and "unat (sh_prod sh - c_cons c) \<le> 2 ^ k"
proof -
  have k: "(2::nat) ^ k \<le> 2147483648"
    using assms(1) by (intro pow2_le_half) (simp add: uni_wf_def Let_def)
  have s: "unat (c_cons c - sh_cons sh) + unat (c_cons_end c - c_cons c) +
           unat (sh_prod sh - c_cons_end c) + unat (p_prod p - sh_prod sh) +
           unat (p_prod_end p - p_prod p) \<le> 2 ^ k"
    using assms(1) by (simp add: uni_wf_def Let_def p_def c_def sh_def)
  show 1: "unat (sh_prod sh - c_cons c) = unat (c_cons_end c - c_cons c) + unat (sh_prod sh - c_cons_end c)"
    by (rule unat_diff_add) (use s k in linarith)
  show 2: "unat (p_prod p - c_cons_end c) = unat (sh_prod sh - c_cons_end c) + unat (p_prod p - sh_prod sh)"
    by (rule unat_diff_add) (use s k in linarith)
  have "unat (p_prod p - c_cons c) = unat (sh_prod sh - c_cons c) + unat (p_prod p - sh_prod sh)"
    by (rule unat_diff_add) (use 1 s k in linarith)
  then show 3: "unat (p_prod p - c_cons c) = unat (c_cons_end c - c_cons c) + unat (sh_prod sh - c_cons_end c) + unat (p_prod p - sh_prod sh)"
    using 1 by linarith
  show 4: "unat (p_prod p - sh_cons sh) = unat (c_cons c - sh_cons sh) + unat (p_prod p - c_cons c)"
    by (rule unat_diff_add) (use 3 s k in linarith)
  show "unat (p_prod p - c_cons c) + unat (p_prod_end p - p_prod p) \<le> 2 ^ k"
    using 3 s by linarith
  show "unat (p_prod p - sh_cons sh) + unat (p_prod_end p - p_prod p) \<le> 2 ^ k"
    using 3 4 s by linarith
  show "unat (sh_prod sh - c_cons c) \<le> 2 ^ k"
    using 1 s by linarith
qed

lemma wf_producer_look:
  assumes "uni_wf k r"
  shows "producer_checkout_helper (rg_producer r) (rg_shared r)
   = (sh_cons (rg_shared r) + 2 ^ k \<noteq> p_prod (rg_producer r), (rg_producer r)\<lparr>p_prod_end := sh_cons (rg_shared r) + 2 ^ k\<rparr>)"
proof -
  have k: "k < 32" "p_capacity (rg_producer r) = 2 ^ k" 
    using assms by (simp_all add: uni_wf_def Let_def)
  have "p_prod (rg_producer r) - sh_cons (rg_shared r) \<le> 2 ^ k"
    using uni_wf_dist(6) [OF assms] k(1) by (simp add: word_le_nat_alt unat_power2_u32)
  then show ?thesis using k by (simp add: producer_checkout_helper_def Let_def)
qed

lemma wf_consumer_look:
  assumes "uni_wf k r"
  shows "consumer_checkout_helper (rg_consumer r) (rg_shared r)
   = (sh_prod (rg_shared r) \<noteq> c_cons (rg_consumer r), (rg_consumer r)\<lparr>c_cons_end := sh_prod (rg_shared r)\<rparr>)"
proof -
  have k: "k < 32" "c_capacity (rg_consumer r) = 2 ^ k" 
    using assms by (simp_all add: uni_wf_def Let_def)
  have "sh_prod (rg_shared r) - c_cons (rg_consumer r) \<le> 2 ^ k"
    using uni_wf_dist(7) [OF assms] k(1) by (simp add: word_le_nat_alt unat_power2_u32)
  then show ?thesis using k by (simp add: consumer_checkout_helper_def Let_def)
qed

lemma wf_set_prod_end:
  assumes "uni_wf k r"
  shows "uni_wf k (r\<lparr>rg_producer := (rg_producer r)\<lparr>p_prod_end := sh_cons (rg_shared r) + 2 ^ k\<rparr>\<rparr>)"
proof -
  let ?p = "rg_producer r" and ?c = "rg_consumer r" and ?sh = "rg_shared r"
  have k: "k < 32" using assms by (simp add: uni_wf_def Let_def)
  have "unat (sh_cons ?sh + 2 ^ k - p_prod ?p) = 2 ^ k - unat (p_prod ?p - sh_cons ?sh)"
  proof -
    have "unat (2 ^ k - (p_prod ?p - sh_cons ?sh)) = unat ((2::u32) ^ k) - unat (p_prod ?p - sh_cons ?sh)"
      using uni_wf_dist(6) [OF assms] k by (intro unat_sub) (simp add: word_le_nat_alt unat_power2_u32)
    then show ?thesis using k by (simp add: unat_power2_u32 algebra_simps)
  qed
  moreover note uni_wf_dist [OF assms]
  ultimately show ?thesis
    using assms by (simp add: uni_wf_def Let_def)
qed

subsection \<open>Every operation preserves the invariant and refines a list operation\<close>

lemma wf_producer_checkout:
  assumes "uni_wf k r" and "producer_checkout id (rg_producer r) (rg_shared r) = (ok, p, sh)"
  shows "uni_wf k (r\<lparr>rg_producer := p, rg_shared := sh\<rparr>)"
    and "uni_content (r\<lparr>rg_producer := p, rg_shared := sh\<rparr>) = uni_content r"
    and "ok = (p_prod (rg_producer r) - sh_cons (rg_shared r) \<noteq> 2 ^ k)"
proof -
  let ?r1 = "r\<lparr>rg_producer := (rg_producer r)\<lparr>p_prod_end := sh_cons (rg_shared r) + 2 ^ k\<rparr>\<rparr>"
  have w1: "uni_wf k ?r1" by (rule wf_set_prod_end [OF assms(1)])
  have eq: "(sh_cons (rg_shared r) + 2 ^ k = p_prod (rg_producer r)) = (p_prod (rg_producer r) - sh_cons (rg_shared r) = 2 ^ k)"
    by (auto simp: algebra_simps)
  have "p = rg_producer ?r1 \<and> (sh = rg_shared r \<or> (\<exists>l. sh = (rg_shared r)\<lparr>sh_cons_limit := l\<rparr>)) \<and> ok = (p_prod (rg_producer r) - sh_cons (rg_shared r) \<noteq> 2 ^ k)"
    using assms(2) wf_producer_look [OF assms(1)] w1 eq
    by (auto simp: producer_checkout_def Let_def producer_checkout_helper_def uni_wf_def split: if_splits)
  then show "uni_wf k (r\<lparr>rg_producer := p, rg_shared := sh\<rparr>)"
     "uni_content (r\<lparr>rg_producer := p, rg_shared := sh\<rparr>) = uni_content r"
     "ok = (p_prod (rg_producer r) - sh_cons (rg_shared r) \<noteq> 2 ^ k)"
    using w1 by (auto simp: uni_wf_def uni_content_def Let_def)
qed

lemma wf_consumer_checkout:
  assumes "uni_wf k r" and "consumer_checkout id (rg_consumer r) (rg_shared r) = (ok, c, sh)"
  shows "uni_wf k (r\<lparr>rg_consumer := c, rg_shared := sh\<rparr>)"
    and "uni_content (r\<lparr>rg_consumer := c, rg_shared := sh\<rparr>) = uni_content r"
    and "ok = (sh_prod (rg_shared r) \<noteq> c_cons (rg_consumer r))"
    and "c = (rg_consumer r)\<lparr>c_cons_end := sh_prod (rg_shared r)\<rparr>"
proof -
  have "c = (rg_consumer r)\<lparr>c_cons_end := sh_prod (rg_shared r)\<rparr> \<and> (sh = rg_shared r \<or> (\<exists>l. sh = (rg_shared r)\<lparr>sh_prod_limit := l\<rparr>)) \<and> ok = (sh_prod (rg_shared r) \<noteq> c_cons (rg_consumer r))"
    using assms(2) wf_consumer_look [OF assms(1)]
    by (auto simp: consumer_checkout_def Let_def consumer_checkout_helper_def split: if_splits)
  then show "uni_wf k (r\<lparr>rg_consumer := c, rg_shared := sh\<rparr>)"
    "uni_content (r\<lparr>rg_consumer := c, rg_shared := sh\<rparr>) = uni_content r"
    "ok = (sh_prod (rg_shared r) \<noteq> c_cons (rg_consumer r))"
    "c = (rg_consumer r)\<lparr>c_cons_end := sh_prod (rg_shared r)\<rparr>"
    using assms(1) uni_wf_dist(1) [OF assms(1)] by (auto simp: uni_wf_def uni_content_def Let_def)
qed

lemma wf_producer_commit:
  assumes "uni_wf k r" and "producer_commit (rg_producer r) (rg_shared r) = (ok, p, sh)"
  shows "uni_wf k (r\<lparr>rg_producer := p, rg_shared := sh\<rparr>)"
    and "uni_content (r\<lparr>rg_producer := p, rg_shared := sh\<rparr>) = uni_content r"
    and "uni_visible (r\<lparr>rg_producer := p, rg_shared := sh\<rparr>) = uni_content r"
  using assms uni_wf_dist(4) [OF assms(1)]
  by (auto simp: uni_wf_def uni_content_def uni_visible_def Let_def producer_commit_def split: if_splits)

lemma wf_consumer_commit:
  assumes "uni_wf k r" and "consumer_commit (rg_consumer r) (rg_shared r) = (ok, c, sh)"
  shows "uni_wf k (r\<lparr>rg_consumer := c, rg_shared := sh\<rparr>)"
    and "uni_content (r\<lparr>rg_consumer := c, rg_shared := sh\<rparr>) = uni_content r"
  using assms
  by (auto simp: uni_wf_def uni_content_def Let_def consumer_commit_def split: if_splits)

lemma wf_produce:
  assumes "uni_wf k r" and "producer_produce (rg_producer r) (rg_shared r) m = (ok, p, sh)"
  shows "uni_wf k (r\<lparr>rg_producer := p, rg_shared := sh\<rparr>)"
    and "uni_content (r\<lparr>rg_producer := p, rg_shared := sh\<rparr>) = uni_content r @ (if ok then [m] else [])"
    and "ok = (p_prod (rg_producer r) \<noteq> p_prod_end (rg_producer r))"
proof -
  let ?p = "rg_producer r" and ?c = "rg_consumer r" and ?sh = "rg_shared r"
  let ?n = "unat (p_prod ?p - c_cons ?c)"
  show ok: "ok = (p_prod ?p \<noteq> p_prod_end ?p)"
    using assms(2) by (auto simp: producer_produce_def Let_def split: if_splits)
  have wf: "k < 32" "p_capacity ?p = 2 ^ k" "length (sh_array ?sh) = 2 ^ k"
    using assms(1) by (simp_all add: uni_wf_def Let_def)
  have "uni_wf k (r\<lparr>rg_producer := p, rg_shared := sh\<rparr>) \<and>
     uni_content (r\<lparr>rg_producer := p, rg_shared := sh\<rparr>) = uni_content r @ (if ok then [m] else [])"
  proof (cases ok)
    case False
    then show ?thesis using assms by (auto simp: producer_produce_def Let_def split: if_splits)
  next
    case True
    then have ne: "p_prod ?p \<noteq> p_prod_end ?p" using ok by simp
    have p: "p = ?p\<lparr>p_prod := p_prod ?p + 1\<rparr>"
      and sh: "sh = ?sh\<lparr>sh_array := (sh_array ?sh)[slot (2 ^ k) (p_prod ?p) := m]\<rparr>"
      using assms(2) ne wf(2) by (auto simp: producer_produce_def Let_def slot_def)
    have f: "unat (p_prod_end ?p - p_prod ?p) = Suc (unat (p_prod_end ?p - (p_prod ?p + 1)))"
      by (rule unat_diff_Suc [OF ne])
    have n: "?n < 2 ^ k" using uni_wf_dist(5) [OF assms(1)] f by linarith
    have k2: "(2::nat) ^ k \<le> 2147483648" by (rule pow2_le_half [OF wf(1)])
    have d: "unat (p_prod ?p + 1 - sh_prod ?sh) = Suc (unat (p_prod ?p - sh_prod ?sh))"
      using uni_wf_dist(2) [OF assms(1)] n k2 unat_diff_add [of "p_prod ?p" "sh_prod ?sh" "p_prod ?p + 1"] by simp
    have n1: "unat (p_prod ?p + 1 - c_cons ?c) = Suc ?n"
      using n k2 unat_diff_add [of "p_prod ?p" "c_cons ?c" "p_prod ?p + 1"] by simp
    have sl: "slot (2 ^ k) (p_prod ?p) = (unat (c_cons ?c) + ?n) mod 2 ^ k"
      using unat_diff_mod [of k "p_prod ?p" "c_cons ?c"] wf(1) by (simp add: slot_pow2 mod_simps)
    show ?thesis
      using assms(1) True d f n1 ring_list_append [OF n wf(3)]
      by (simp add: uni_wf_def uni_content_def Let_def p sh sl wf(3))
  qed
  then show "uni_wf k (r\<lparr>rg_producer := p, rg_shared := sh\<rparr>)"
    and "uni_content (r\<lparr>rg_producer := p, rg_shared := sh\<rparr>) = uni_content r @ (if ok then [m] else [])"
    by auto
qed

lemma wf_consume:
  assumes "uni_wf k r" and "consumer_consume (rg_consumer r) (rg_shared r) = (m, c)"
  shows "uni_wf k (r\<lparr>rg_consumer := c\<rparr>)"
    and "uni_content r = (case m of None \<Rightarrow> [] | Some x \<Rightarrow> [x]) @ uni_content (r\<lparr>rg_consumer := c\<rparr>)"
    and "(m = None) = (c_cons (rg_consumer r) = c_cons_end (rg_consumer r))"
proof -
  let ?p = "rg_producer r" and ?c = "rg_consumer r" and ?sh = "rg_shared r"
  show nn: "(m = None) = (c_cons ?c = c_cons_end ?c)"
    using assms(2) by (auto simp: consumer_consume_def Let_def split: if_splits)
  have wf: "k < 32" "c_capacity ?c = 2 ^ k" "length (sh_array ?sh) = 2 ^ k"
    using assms(1) by (simp_all add: uni_wf_def Let_def)
  have "uni_wf k (r\<lparr>rg_consumer := c\<rparr>) \<and> uni_content r = (case m of None \<Rightarrow> [] | Some x \<Rightarrow> [x]) @ uni_content (r\<lparr>rg_consumer := c\<rparr>)"
  proof (cases "c_cons ?c = c_cons_end ?c")
    case True
    then show ?thesis using assms by (auto simp: consumer_consume_def Let_def split: if_splits)
  next
    case ne: False
    have m: "m = Some (sh_array ?sh ! slot (2 ^ k) (c_cons ?c))" and c: "c = ?c\<lparr>c_cons := c_cons ?c + 1\<rparr>"
      using assms(2) ne wf(2) by (auto simp: consumer_consume_def Let_def slot_def)
    have b: "unat (c_cons_end ?c - c_cons ?c) = Suc (unat (c_cons_end ?c - (c_cons ?c + 1)))"
      by (rule unat_diff_Suc [OF ne])
    have k2: "(2::nat) ^ k \<le> 2147483648" by (rule pow2_le_half [OF wf(1)])
    have dist: "unat (p_prod ?p - c_cons ?c) \<noteq> 0"
      using b uni_wf_dist(2) [OF assms(1)] by linarith
    then have n: "unat (p_prod ?p - c_cons ?c) = Suc (unat (p_prod ?p - (c_cons ?c + 1)))"
      by (intro unat_diff_Suc) auto
    have "unat (c_cons ?c - sh_cons ?sh) < 2 ^ k"
      using b assms(1) by (simp add: uni_wf_def Let_def)
    then have a: "unat (c_cons ?c + 1 - sh_cons ?sh) = Suc (unat (c_cons ?c - sh_cons ?sh))"
      using k2 unat_diff_add [of "c_cons ?c" "sh_cons ?sh" "c_cons ?c + 1"] by simp
    have s: "unat (c_cons ?c + 1) mod 2 ^ k = Suc (unat (c_cons ?c)) mod 2 ^ k"
      using unat_add_of_nat_mod [of k "c_cons ?c" 1] wf(1) by (simp add: mod_simps)
    have "uni_content r = sh_array ?sh ! slot (2 ^ k) (c_cons ?c) #
        ring_list (sh_array ?sh) (2 ^ k) (Suc (unat (c_cons ?c))) (unat (p_prod ?p - (c_cons ?c + 1)))"
      using n wf(3) by (simp add: uni_content_def ring_list_Suc slot_pow2)
    also have "ring_list (sh_array ?sh) (2 ^ k) (Suc (unat (c_cons ?c))) (unat (p_prod ?p - (c_cons ?c + 1)))
      = uni_content (r\<lparr>rg_consumer := c\<rparr>)"
      by (simp add: uni_content_def c wf(3)) (metis ring_list_mod s)
    finally show ?thesis
      using assms(1) a b m by (simp add: uni_wf_def Let_def c)
  qed
  then show "uni_wf k (r\<lparr>rg_consumer := c\<rparr>)"
    and "uni_content r = (case m of None \<Rightarrow> [] | Some x \<Rightarrow> [x]) @ uni_content (r\<lparr>rg_consumer := c\<rparr>)" by auto
qed

subsection \<open>The ring is a channel\<close>

lemma uni_step_wf:
  assumes "uni_wf k r" and "uni_step e r = (a, d, r')"
  shows "uni_wf k r' \<and> uni_content r @ a = d @ uni_content r'"
proof (cases e)
  case Producer_checkout
  with assms(2) show ?thesis by (auto split: prod.splits dest: wf_producer_checkout [OF assms(1)])
next
  case Produce
  with assms(2) show ?thesis by (auto split: prod.splits dest: wf_produce [OF assms(1)])
next
  case Producer_commit
  with assms(2) show ?thesis by (auto split: prod.splits dest: wf_producer_commit [OF assms(1)])
next
  case Consumer_checkout
  with assms(2) show ?thesis by (auto split: prod.splits dest: wf_consumer_checkout [OF assms(1)])
next
  case Consume
  with assms(2) show ?thesis by (auto split: prod.splits dest: wf_consume [OF assms(1)])
next
  case Consumer_commit
  with assms(2) show ?thesis by (auto split: prod.splits dest: wf_consumer_commit [OF assms(1)])
qed

lemma uni_content_bound: "uni_wf k r \<Longrightarrow> length (uni_content r) \<le> 2 ^ k"
  using uni_wf_dist(5) [of k r] by (simp add: uni_content_def)

interpretation uni: fifo_machine "uni_wf k" uni_content "\<lambda>_. 2 ^ k" uni_step
  by unfold_locales (use uni_step_wf uni_content_bound in blast)+

text \<open>The checkouts of the atomic ring as assignments.\<close>

lemma uni_producer_checkout:
  assumes "uni_wf k r"
  defines "free \<equiv> sh_cons (rg_shared r) + 2 ^ k"
  shows "uni_step Producer_checkout r = ([], [], r\<lparr>rg_producer := (rg_producer r)\<lparr>p_prod_end := free\<rparr>,
    rg_shared := (if free \<noteq> p_prod (rg_producer r) then rg_shared r
                  else (rg_shared r)\<lparr>sh_cons_limit := p_prod (rg_producer r) - 2 ^ k\<rparr>)\<rparr>)"
proof -
  have w: "uni_wf k (r\<lparr>rg_producer := (rg_producer r)\<lparr>p_prod_end := free\<rparr>,
      rg_shared := (rg_shared r)\<lparr>sh_cons_limit := l\<rparr>\<rparr>)" for l
    using wf_set_prod_end [OF assms(1)] by (simp add: uni_wf_def Let_def free_def)
  have "p_capacity (rg_producer r) = 2 ^ k" using assms(1) by (simp add: uni_wf_def Let_def)
  then show ?thesis
    using wf_producer_look [OF assms(1)] wf_producer_look [OF w]
    by (cases "free = p_prod (rg_producer r)") (simp_all add: producer_checkout_def free_def Let_def)
qed

lemma uni_consumer_checkout:
  assumes "uni_wf k r"
  defines "pr \<equiv> sh_prod (rg_shared r)"
  shows "uni_step Consumer_checkout r = ([], [], r\<lparr>rg_consumer := (rg_consumer r)\<lparr>c_cons_end := pr\<rparr>,
    rg_shared := (if pr \<noteq> c_cons (rg_consumer r) then rg_shared r
                  else (rg_shared r)\<lparr>sh_prod_limit := c_cons (rg_consumer r)\<rparr>)\<rparr>)"
proof -
  have w: "uni_wf k (r\<lparr>rg_consumer := (rg_consumer r)\<lparr>c_cons_end := pr\<rparr>,
      rg_shared := (rg_shared r)\<lparr>sh_prod_limit := l\<rparr>\<rparr>)" for l
    using assms(1) uni_wf_dist(1) [OF assms(1)] unfolding uni_wf_def Let_def pr_def by simp
  show ?thesis
    using wf_consumer_look [OF assms(1)] wf_consumer_look [OF w]
    by (cases "pr = c_cons (rg_consumer r)") (simp_all add: consumer_checkout_def pr_def Let_def)
qed

lemma pow2_word_le_mono: "k < 32 \<Longrightarrow> (x::u32) \<le> 2 ^ k \<longleftrightarrow> unat x \<le> 2 ^ k"
  by (simp add: word_le_nat_alt unat_power2_u32)

definition uni_initial :: "nat \<Rightarrow> 'm list \<Rightarrow> 'm uni_ring" where
  "uni_initial k arr =
     \<lparr>rg_producer = \<lparr>p_capacity = 2 ^ k, p_prod = 0, p_last_published_prod = 0, p_prod_end = 2 ^ k\<rparr>,
      rg_consumer = \<lparr>c_capacity = 2 ^ k, c_cons = 0, c_last_published_cons = 0, c_cons_end = 0\<rparr>,
      rg_shared = uni_shared_init \<lparr>sh_prod = 0, sh_cons_limit = 0, sh_cons = 0, sh_prod_limit = 0,
        sh_array = arr\<rparr>\<rparr>"

lemma uni_initial_wf:
  "k < 32 \<Longrightarrow> length arr = 2 ^ k \<Longrightarrow> uni_wf k (uni_initial k arr) \<and> uni_content (uni_initial k arr) = []"
  by (simp add: uni_wf_def uni_initial_def uni_shared_init_def uni_content_def unat_power2_u32)

subsection \<open>Notifications are not lost\<close>

text \<open>The producer's \<open>prod_limit\<close> is the index at which the consumer fell asleep.\<close>

lemma consumer_asleep_limit:
  assumes "uni_wf k r" and "consumer_checkout id (rg_consumer r) (rg_shared r) = (False, c, sh)"
  shows "sh_prod_limit sh = sh_prod sh" and "sh_prod sh = sh_prod (rg_shared r)"
  using assms wf_consumer_look [OF assms(1)]
  by (auto simp: consumer_checkout_def Let_def consumer_checkout_helper_def split: if_splits)

lemma commit_notifies:
  assumes "p_last_published_prod p = sh_prod_limit sh" and "p_prod p \<noteq> p_last_published_prod p"
  shows "fst (producer_commit p sh)"
  using assms by (simp add: producer_commit_def Let_def word_less_nat_alt)
    (metis eq_iff_diff_eq_0 gr0I unat_eq_0)

subsection \<open>A peer that breaks the protocol\<close>

text \<open>
  What an actor keeps true of its private structure, whatever the shared structure holds.
\<close>

definition producer_safe :: "nat \<Rightarrow> uni_producer \<Rightarrow> bool" where
  "producer_safe k p \<longleftrightarrow> k < 32 \<and> p_capacity p = 2 ^ k \<and> unat (p_prod_end p - p_prod p) \<le> 2 ^ k"

definition consumer_safe :: "nat \<Rightarrow> uni_consumer \<Rightarrow> bool" where
  "consumer_safe k c \<longleftrightarrow> k < 32 \<and> c_capacity c = 2 ^ k \<and> unat (c_cons_end c - c_cons c) \<le> 2 ^ k"

lemma producer_look_safe:
  assumes "producer_safe k p" and "producer_checkout_helper p sh = (ok, p')"
  shows "producer_safe k p'"
proof -
  have "unat (sh_cons sh + 2 ^ k - p_prod p) \<le> 2 ^ k" if "p_prod p - sh_cons sh \<le> 2 ^ k"
  proof -
    have "unat (2 ^ k - (p_prod p - sh_cons sh)) = unat ((2::u32) ^ k) - unat (p_prod p - sh_cons sh)"
      using that by (intro unat_sub) simp
    then show ?thesis using assms(1) by (simp add: producer_safe_def unat_power2_u32 algebra_simps)
  qed
  then show ?thesis
    using assms by (auto simp: producer_safe_def producer_checkout_helper_def Let_def split: if_splits)
qed

lemma producer_checkout_safe:
  assumes "producer_safe k p" and "producer_checkout peer p sh = (ok, p', sh')"
  shows "producer_safe k p'"
  proof -
  obtain ok1 p1 where l: "producer_checkout_helper p sh = (ok1, p1)" by (cases "producer_checkout_helper p sh")
  have s1: "producer_safe k p1" by (rule producer_look_safe [OF assms(1) l])
  show ?thesis
  proof (cases ok1)
    case True
    with assms(2) l s1 show ?thesis by (simp add: producer_checkout_def)
  next
    case False
    with assms(2) l have "producer_checkout_helper p1 (peer (sh\<lparr>sh_cons_limit := p_prod_end p1 - p_capacity p1\<rparr>)) = (ok, p')"
      by (simp add: producer_checkout_def split_def Let_def) (metis prod.collapse)
    then show ?thesis by (rule producer_look_safe [OF s1])
  qed
qed

lemma producer_produce_safe:
  assumes "producer_safe k p" and "producer_produce p sh m = (ok, p', sh')"
  shows "producer_safe k p'"
  using assms unat_diff_Suc [of "p_prod p" "p_prod_end p"]
  by (auto simp: producer_safe_def producer_produce_def Let_def split: if_splits)

lemma producer_commit_safe:
  assumes "producer_safe k p" and "producer_commit p sh = (ok, p', sh')"
  shows "producer_safe k p'"
  using assms by (auto simp: producer_safe_def producer_commit_def Let_def split: if_splits)

lemma consumer_look_safe:
  assumes "consumer_safe k c" and "consumer_checkout_helper c sh = (ok, c')"
  shows "consumer_safe k c'"
  using assms
  by (auto simp: consumer_safe_def consumer_checkout_helper_def Let_def pow2_word_le_mono split: if_splits)

lemma consumer_checkout_safe:
  assumes "consumer_safe k c" and "consumer_checkout peer c sh = (ok, c', sh')"
  shows "consumer_safe k c'"
  proof -
  obtain ok1 p1 where l: "consumer_checkout_helper c sh = (ok1, p1)" by (cases "consumer_checkout_helper c sh")
  have s1: "consumer_safe k p1" by (rule consumer_look_safe [OF assms(1) l])
  show ?thesis
  proof (cases ok1)
    case True
    with assms(2) l s1 show ?thesis by (simp add: consumer_checkout_def)
  next
    case False
    with assms(2) l have "consumer_checkout_helper p1 (peer (sh\<lparr>sh_prod_limit := c_cons_end p1\<rparr>)) = (ok, c')"
      by (simp add: consumer_checkout_def split_def Let_def) (metis prod.collapse)
    then show ?thesis by (rule consumer_look_safe [OF s1])
  qed
qed

lemma consumer_consume_safe:
  assumes "consumer_safe k c" and "consumer_consume c sh = (m, c')"
  shows "consumer_safe k c'"
  using assms unat_diff_Suc [of "c_cons c" "c_cons_end c"]
  by (auto simp: consumer_safe_def consumer_consume_def Let_def split: if_splits)

lemma consumer_commit_safe:
  assumes "consumer_safe k c" and "consumer_commit c sh = (ok, c', sh')"
  shows "consumer_safe k c'"
  using assms by (auto simp: consumer_safe_def consumer_commit_def Let_def split: if_splits)

lemma slot_in_range: "k < 32 \<Longrightarrow> slot (2 ^ k) i < 2 ^ k"
  by (simp add: slot_pow2)

subsection \<open>Rounding down\<close>

definition is_floor_pow2 :: "nat \<Rightarrow> nat \<Rightarrow> bool" where
  "is_floor_pow2 x r \<longleftrightarrow> (\<exists>j. r = 2 ^ j \<and> r \<le> x \<and> x < 2 * r)"

lemma is_floor_pow2_scale:
  assumes "is_floor_pow2 (x div 2 ^ i) r"
  shows "is_floor_pow2 x (r * 2 ^ i)"
proof -
  obtain j where j: "r = 2 ^ j" "r \<le> x div 2 ^ i" "x div 2 ^ i < 2 * r"
    using assms by (auto simp: is_floor_pow2_def)
  have "r * 2 ^ i \<le> x" using j(2) by (metis less_eq_div_iff_mult_less_eq zero_less_numeral zero_less_power)
  moreover have "x < 2 * r * 2 ^ i" using j(3) by (metis div_less_iff_less_mult zero_less_numeral zero_less_power)
  ultimately show ?thesis
    unfolding is_floor_pow2_def using j(1) by (intro exI [of _ "j + i"]) (simp add: power_add)
qed

lemma round_step:
  fixes x :: u32
  assumes small: "\<And>y::u32. unat y < 2 ^ i \<Longrightarrow> y \<noteq> 0 \<Longrightarrow> is_floor_pow2 (unat y) (unat (f y))"
    and x: "unat x < 2 ^ (2 * i)" "x \<noteq> 0" and i: "2 * i \<le> 32" "0 < i"
    and B: "B = 2 ^ i"
  shows "is_floor_pow2 (unat x) (unat (if x div B = 0 then f x else f (x div B) * B))"
proof -
  have B': "unat B = 2 ^ i" using B i unat_power2_u32 by simp
  have d: "unat (x div B) = unat x div 2 ^ i" by (simp add: unat_div B')
  show ?thesis
  proof (cases "x div B = 0")
    case True
    then have "unat x div 2 ^ i = 0" using d by simp
    then have "unat x < 2 ^ i" by (simp add: div_eq_0_iff)
    then show ?thesis using small x True by simp
  next
    case False
    have "unat (x div B) < 2 ^ i"
      using x(1) d by (simp add: less_mult_imp_div_less power_add [symmetric] mult_2)
    then have s: "is_floor_pow2 (unat x div 2 ^ i) (unat (f (x div B)))"
      using small False d by metis
    then have fl: "is_floor_pow2 (unat x) (unat (f (x div B)) * 2 ^ i)"
      by (rule is_floor_pow2_scale)
    then have "unat (f (x div B)) * 2 ^ i < 2 ^ 32"
      using unat_u32_less [of x] by (auto simp: is_floor_pow2_def intro: le_less_trans)
    then have "unat (f (x div B) * B) = unat (f (x div B)) * 2 ^ i"
      by (simp add: unat_word_ariths B')
    then show ?thesis using fl False by simp
  qed
qed

lemma round_2: "unat x < 4 \<Longrightarrow> x \<noteq> 0 \<Longrightarrow> is_floor_pow2 (unat x) (unat (round_down_power2_2 x))"
proof -
  assume a: "unat x < 4" "x \<noteq> 0"
  have "unat x = 1 \<or> unat x = 2 \<or> unat x = 3" using a by (simp add: unat_eq_0 [symmetric]) linarith
  then have "x = 1 \<or> x = 2 \<or> x = 3" by (simp add: word_unat_eq_iff)
  then show ?thesis
    by (auto simp: round_down_power2_2_def is_floor_pow2_def intro: exI [of _ 0] exI [of _ 1])
qed

lemma round_4: "unat x < 16 \<Longrightarrow> x \<noteq> 0 \<Longrightarrow> is_floor_pow2 (unat x) (unat (round_down_power2_4 x))"
  using round_step [of 2 round_down_power2_2 x 4] round_2 by (simp add: round_down_power2_4_def)

lemma round_8: "unat x < 256 \<Longrightarrow> x \<noteq> 0 \<Longrightarrow> is_floor_pow2 (unat x) (unat (round_down_power2_8 x))"
  using round_step [of 4 round_down_power2_4 x 16] round_4 by (simp add: round_down_power2_8_def)

lemma round_16: "unat x < 65536 \<Longrightarrow> x \<noteq> 0 \<Longrightarrow> is_floor_pow2 (unat x) (unat (round_down_power2_16 x))"
  using round_step [of 8 round_down_power2_8 x 256] round_8 by (simp add: round_down_power2_16_def)

lemma round_32: "x \<noteq> 0 \<Longrightarrow> is_floor_pow2 (unat x) (unat (round_down_power2_32 x))"
  using round_step [of 16 round_down_power2_16 x 65536] round_16 unat_u32_less [of x]
  by (simp add: round_down_power2_32_def)

lemma round_index:
  assumes "x \<noteq> 0"
  shows "is_floor_pow2 (min (unat (x::u64)) 4294967295) (unat (round_down_power2_index x))"
proof (cases "0xffffffff < x")
  case True
  then have "4294967295 < unat x" by (simp add: word_less_nat_alt)
  then show ?thesis
    using round_32 [of "0xffffffff"] True by (simp add: round_down_power2_index_def min_def)
next
  case False
  then have le: "unat x \<le> 4294967295" by (simp add: word_less_nat_alt not_less)
  then have u: "unat (ucast x :: u32) = unat x" by (simp add: unsigned_ucast_eq take_bit_nat_eq_self)
  then have "(ucast x :: u32) \<noteq> 0" using assms by (metis unat_eq_0)
  then show ?thesis
    using round_32 [of "ucast x"] u le False by (simp add: round_down_power2_index_def min_def)
qed

subsection \<open>Properties\<close>

text \<open>
  C1. Order and no loss over all interleavings: from an initialised ring of \<open>2 ^ k\<close> slots, after any
  sequence of producer and consumer operations, the messages the consumer got are a prefix of the
  messages \<open>produce\<close> accepted, in order and without duplicates, and at most \<open>2 ^ k\<close> accepted messages
  are still in the ring. Indices are 32-bit words, so the statement covers their wrap-around.
\<close>

theorem uni_ring_fifo:
  assumes "k < 32" and "length arr = 2 ^ k"
    and "run_steps uni_step es (uni_initial k arr) = (accepted, delivered, r')"
  shows "prefix delivered accepted \<and> length accepted \<le> length delivered + 2 ^ k"
  using uni.delivered_prefix assms uni_initial_wf [OF assms(1,2)] by blast

theorem uni_ring_fifo_witness:
  "prefix [10, 20] [10, 20, 30 :: nat] \<and> length [10, 20, 30 :: nat] \<le> length [10, 20 :: nat] + 2 ^ 2"
proof -
  let ?es = "[Produce 10, Produce 20, Producer_commit, Consumer_checkout, Consume, Produce 30,
              Consume, Consume, Consumer_commit]"
  obtain r' where r: "run_steps uni_step ?es (uni_initial 2 [0, 0, 0, 0 :: nat]) = ([10, 20, 30], [10, 20], r')"
    by (simp add: uni_initial_def uni_shared_init_def producer_produce_def producer_commit_def
        consumer_checkout_def consumer_checkout_helper_def consumer_consume_def consumer_commit_def Let_def)
  show ?thesis by (rule uni_ring_fifo [OF _ _ r]) simp_all
qed

text \<open>
  Refinement of the produce and consume operations: in a well-formed ring \<open>produce\<close> fails only when
  the producer reached its bound, and otherwise appends the message to the ring's content; \<open>consume\<close> gives
  the first message of the content and removes it, and fails only at the consumer's bound.
\<close>

theorem uni_produce_consume_refine:
  assumes "uni_wf k r"
    and "producer_produce (rg_producer r) (rg_shared r) m = (ok, p, sh)"
    and "consumer_consume (rg_consumer r) (rg_shared r) = (got, c)"
  shows "ok = (p_prod (rg_producer r) \<noteq> p_prod_end (rg_producer r)) \<and>
    uni_content (r\<lparr>rg_producer := p, rg_shared := sh\<rparr>) = uni_content r @ (if ok then [m] else []) \<and>
    uni_wf k (r\<lparr>rg_producer := p, rg_shared := sh\<rparr>) \<and>
    (got = None) = (c_cons (rg_consumer r) = c_cons_end (rg_consumer r)) \<and>
    uni_content r = (case got of None \<Rightarrow> [] | Some x \<Rightarrow> [x]) @ uni_content (r\<lparr>rg_consumer := c\<rparr>) \<and>
    uni_wf k (r\<lparr>rg_consumer := c\<rparr>)"
  using wf_produce [OF assms(1,2)] wf_consume [OF assms(1,3)] by blast

text \<open>A ring of two slots, for the witnesses.\<close>

definition ring2 :: "nat uni_ring" where
  "ring2 = uni_initial 1 [7, 7]"

lemma ring2_wf: "uni_wf 1 ring2" "uni_content ring2 = []"
  using uni_initial_wf [of 1 "[7, 7 :: nat]"] by (simp_all add: ring2_def)

lemmas ring2_defs = ring2_def uni_initial_def uni_shared_init_def

theorem uni_produce_consume_refine_witness:
  "\<exists>p sh. producer_produce (rg_producer ring2) (rg_shared ring2) 5 = (True, p, sh) \<and>
     uni_content (ring2\<lparr>rg_producer := p, rg_shared := sh\<rparr>) = [5]"
proof -
  obtain ok p sh where p: "producer_produce (rg_producer ring2) (rg_shared ring2) 5 = (ok, p, sh)"
    by (cases "producer_produce (rg_producer ring2) (rg_shared ring2) 5")
  obtain got c where c: "consumer_consume (rg_consumer ring2) (rg_shared ring2) = (got, c)"
    by (cases "consumer_consume (rg_consumer ring2) (rg_shared ring2)")
  have ok by (use p in \<open>simp add: ring2_defs producer_produce_def Let_def\<close>)
  then show ?thesis using uni_produce_consume_refine [OF ring2_wf(1) p c] ring2_wf(2) p by auto
qed

text \<open>
  No lost wake-up: when \<open>checkout\<close> tells the consumer that the ring is empty, it has asked for a
  notification, and the next \<open>commit\<close> after the next produced message tells the producer to send it.
\<close>

theorem uni_no_lost_wakeup:
  assumes "uni_wf k r"
    and "consumer_checkout id (rg_consumer r) (rg_shared r) = (False, c, sh)"
    and "producer_produce (rg_producer r) sh m = (True, p1, sh1)"
    and "producer_commit p1 sh1 = (notify, p2, sh2)"
  shows "notify"
proof -
  let ?r1 = "r\<lparr>rg_consumer := c, rg_shared := sh\<rparr>"
  have w1: "uni_wf k ?r1" using wf_consumer_checkout(1) [OF assms(1,2)] .
  have w2: "uni_wf k (?r1\<lparr>rg_producer := p1, rg_shared := sh1\<rparr>)"
    using wf_produce(1) [OF w1, of m True p1 sh1] assms(3) by simp
  have lim: "sh_prod_limit sh1 = sh_prod sh1" "sh_prod sh1 = sh_prod sh"
    using assms(3) consumer_asleep_limit [OF assms(1,2)]
    by (auto simp: producer_produce_def Let_def split: if_splits)
  have "p_prod (rg_producer r) \<noteq> p_prod_end (rg_producer r)"
    and p1: "p_prod p1 = p_prod (rg_producer r) + 1"
    using assms(3) by (auto simp: producer_produce_def Let_def split: if_splits)
  then have "unat (p_prod_end (rg_producer r) - p_prod (rg_producer r)) > 0"
    by (simp add: unat_gt_0)
  then have small: "unat (p_prod (rg_producer r) - sh_prod sh) < 2 ^ k"
    using w1 by (simp add: uni_wf_def Let_def)
  have "k < 32" using w1 by (simp add: uni_wf_def Let_def)
  then have "unat (p_prod p1 - sh_prod sh) = Suc (unat (p_prod (rg_producer r) - sh_prod sh))"
    using p1 small pow2_le_half [of k]
      unat_diff_add [of "p_prod (rg_producer r)" "sh_prod sh" "p_prod p1"] by simp
  then have "p_prod p1 \<noteq> sh_prod sh1" using lim by auto
  then have "fst (producer_commit p1 sh1)"
    using w2 lim by (intro commit_notifies) (auto simp: uni_wf_def Let_def)
  then show ?thesis using assms(4) by simp
qed

theorem uni_no_lost_wakeup_witness:
  "\<exists>c sh p sh'. consumer_checkout id (rg_consumer ring2) (rg_shared ring2) = (False, c, sh) \<and>
     producer_produce (rg_producer ring2) sh 5 = (True, p, sh') \<and> fst (producer_commit p sh')"
proof -
  obtain c sh where c: "consumer_checkout id (rg_consumer ring2) (rg_shared ring2) = (False, c, sh)"
    by (simp add: ring2_defs consumer_checkout_def consumer_checkout_helper_def Let_def)
  obtain p sh' where p: "producer_produce (rg_producer ring2) sh 5 = (True, p, sh')"
    by (simp add: ring2_defs producer_produce_def Let_def)
  obtain n p2 sh2 where n: "producer_commit p sh' = (n, p2, sh2)" by (cases "producer_commit p sh'")
  show ?thesis using uni_no_lost_wakeup [OF ring2_wf(1) c p n] c p n by auto
qed

text \<open>
  C16. A malicious peer cannot drive an actor out of the ring: whatever a shared structure holds, and
  whatever the peer does to it while the actor looks, after a checkout, a produce, a consume or a commit
  the private structure still allows at most \<open>capacity\<close> more accesses, and the slot it is about to access
  is a slot of the array.
\<close>

theorem uni_malicious_peer:
  assumes "producer_safe k p" and "consumer_safe k c"
    and "producer_checkout peer p sh = (ok1, p1, sh1)" and "producer_produce p1 sh2 m = (ok2, p2, sh3)"
    and "producer_commit p2 sh4 = (ok3, p3, sh5)"
    and "consumer_checkout peer c sh6 = (ok4, c1, sh7)" and "consumer_consume c1 sh8 = (got, c2)"
    and "consumer_commit c2 sh9 = (ok5, c3, sh10)"
  shows "producer_safe k p3 \<and> consumer_safe k c3 \<and>
    unat (producer_free p3) \<le> 2 ^ k \<and> unat (consumer_unconsumed c3) \<le> 2 ^ k \<and>
    (\<forall>i. producer_peek p1 = Some i \<longrightarrow> i < 2 ^ k) \<and> (\<forall>i. consumer_peek c1 = Some i \<longrightarrow> i < 2 ^ k)"
proof -
  have p1: "producer_safe k p1" by (rule producer_checkout_safe [OF assms(1,3)])
  have p3: "producer_safe k p3"
    by (rule producer_commit_safe [OF producer_produce_safe [OF p1 assms(4)] assms(5)])
  have c1: "consumer_safe k c1" by (rule consumer_checkout_safe [OF assms(2,6)])
  have c3: "consumer_safe k c3"
    by (rule consumer_commit_safe [OF consumer_consume_safe [OF c1 assms(7)] assms(8)])
  show ?thesis
    using p1 p3 c1 c3 slot_in_range [of k]
    by (auto simp: producer_safe_def consumer_safe_def producer_free_def consumer_unconsumed_def
        producer_peek_def consumer_peek_def Let_def slot_def split: if_splits)
qed

theorem uni_malicious_peer_witness:
  "let p = rg_producer ring2; c = rg_consumer ring2; evil = \<lambda>s. s\<lparr>sh_prod := 77, sh_cons := 99\<rparr>;
     (ok1, p1, sh1) = producer_checkout evil p (evil (rg_shared ring2));
     (ok2, p2, sh2) = producer_produce p1 sh1 3; (ok3, p3, sh3) = producer_commit p2 sh2;
     (ok4, c1, sh4) = consumer_checkout evil c (evil (rg_shared ring2));
     (got, c2) = consumer_consume c1 sh4; (ok5, c3, sh5) = consumer_commit c2 sh4
   in producer_safe 1 p3 \<and> consumer_safe 1 c3"
proof -
  have s: "producer_safe 1 (rg_producer ring2)" "consumer_safe 1 (rg_consumer ring2)"
    by (simp_all add: producer_safe_def consumer_safe_def ring2_defs)
  show ?thesis
    unfolding Let_def split_def
    using uni_malicious_peer [OF s] by (metis prod.collapse)
qed

subsection \<open>Batches\<close>

lemma length_copy_slots:
  "i + n \<le> length dst \<Longrightarrow> j + n \<le> length src \<Longrightarrow> length (copy_slots dst i src j n) = length dst"
  by (simp add: copy_slots_def)

lemma nth_copy_slots:
  assumes "i + n \<le> length dst" and "j + n \<le> length src" and "l < length dst"
  shows "copy_slots dst i src j n ! l = (if i \<le> l \<and> l < i + n then src ! (j + (l - i)) else dst ! l)"
proof -
  have "\<not> l < i \<Longrightarrow> \<not> l < i + n \<Longrightarrow> i + n + (l - i - n) = l" by simp
  then show ?thesis
    using assms by (auto simp: copy_slots_def nth_append)
qed

lemma copy_split_nth:
  fixes N s n :: nat
  assumes "s < N" and "n \<le> N" and "n \<le> length msgs" and "length arr = N"
    and a: "a = (if n \<le> N - s then copy_slots arr s msgs 0 n
                 else copy_slots (copy_slots arr s msgs 0 (N - s)) 0 msgs (N - s) (n - (N - s)))"
  shows "length a = N"
    and "j < N \<Longrightarrow> a ! ((s + j) mod N) = (if j < n then msgs ! j else arr ! ((s + j) mod N))"
proof -
  have l1: "length (copy_slots arr s msgs 0 (N - s)) = N" if "\<not> n \<le> N - s"
    using that assms by (simp add: length_copy_slots)
  show "length a = N" using l1 assms by (auto simp: length_copy_slots)
  show "a ! ((s + j) mod N) = (if j < n then msgs ! j else arr ! ((s + j) mod N))" if "j < N"
  proof -
    have sj: "(s + j) mod N = (if s + j < N then s + j else s + j - N)"
      using that assms(1) by (simp add: mod_if)
    show ?thesis
    proof (cases "n \<le> N - s")
      case True
      then have "a ! l = (if s \<le> l \<and> l < s + n then msgs ! (l - s) else arr ! l)" if "l < N" for l
        using that assms(1,3,4) by (simp add: a nth_copy_slots)
      then show ?thesis using True that assms(1) by (auto simp: sj)
    next
      case False
      then have "a ! l = (if l < n - (N - s) then msgs ! (N - s + l)
          else if s \<le> l then msgs ! (l - s) else arr ! l)" if "l < N" for l
        using that assms l1 [OF False] by (simp add: nth_copy_slots)
      then show ?thesis using False that assms(1,2) by (auto simp: sj)
    qed
  qed
qed

text \<open>What \<open>pnr_ring_copy_to_ring\<close> leaves in the array, slot by slot from the masked begin index.\<close>

lemma ring_copy_to_ring_nth:
  assumes "k < 32" and "length arr = 2 ^ k"
    and free: "unat (ring_end - ring_begin) \<le> 2 ^ k"
    and cnt: "unat count \<le> length msgs"
    and eq: "ring_copy_to_ring arr (2 ^ k) ring_begin ring_end msgs count = (n, a)"
  shows "unat n = min (unat count) (unat (ring_end - ring_begin))"
    and "length a = 2 ^ k"
    and "j < 2 ^ k \<Longrightarrow> a ! ((unat ring_begin + j) mod 2 ^ k) =
           (if j < unat n then msgs ! j else arr ! ((unat ring_begin + j) mod 2 ^ k))"
proof -
  let ?m = "ring_begin AND (2 ^ k - 1)"
  define s where "s = unat ring_begin mod 2 ^ k"
  have s: "unat ?m = s" "s < 2 ^ k" by (simp_all add: and_pow2_minus_1 s_def)
  have rem: "unat (2 ^ k - ?m) = 2 ^ k - s"
    using s assms(1) by (subst unat_sub) (simp_all add: word_le_nat_alt unat_power2_u32)
  have n: "n = (if ring_end - ring_begin < count then ring_end - ring_begin else count)"
    using eq by (auto simp: ring_copy_to_ring_def Let_def split: if_splits)
  show nu: "unat n = min (unat count) (unat (ring_end - ring_begin))"
    by (simp add: n word_less_nat_alt min_def)
  then have nN: "unat n \<le> 2 ^ k" and nl: "unat n \<le> length msgs" using free cnt by auto
  have "unat (n - (2 ^ k - ?m)) = unat n - (2 ^ k - s)" if "\<not> n \<le> 2 ^ k - ?m"
    using that rem by (subst unat_sub) (simp_all add: word_le_nat_alt)
  then have a: "a = (if unat n \<le> 2 ^ k - s then copy_slots arr s msgs 0 (unat n)
       else copy_slots (copy_slots arr s msgs 0 (2 ^ k - s)) 0 msgs (2 ^ k - s) (unat n - (2 ^ k - s)))"
    using eq n rem s(1) by (simp add: ring_copy_to_ring_def Let_def word_le_nat_alt split: if_splits)
  show "length a = 2 ^ k"
    using copy_split_nth(1) [OF s(2) nN nl assms(2) a] .
  show "j < 2 ^ k \<Longrightarrow> a ! ((unat ring_begin + j) mod 2 ^ k) =
           (if j < unat n then msgs ! j else arr ! ((unat ring_begin + j) mod 2 ^ k))"
    using copy_split_nth(2) [OF s(2) nN nl assms(2) a, of j] by (simp add: s_def mod_simps)
qed

lemma ring_list_extend:
  assumes "\<And>j. j < d \<Longrightarrow> a ! ((s + j) mod N) = arr ! ((s + j) mod N)"
    and "\<And>j. j < n \<Longrightarrow> a ! ((s + d + j) mod N) = msgs ! j" and "n \<le> length msgs"
  shows "ring_list a N s (d + n) = ring_list arr N s d @ take n msgs"
proof (rule nth_equalityI)
  show "length (ring_list a N s (d + n)) = length (ring_list arr N s d @ take n msgs)"
    using assms(3) by simp
next
  fix i assume "i < length (ring_list a N s (d + n))"
  then have i: "i < d + n" by simp
  show "ring_list a N s (d + n) ! i = (ring_list arr N s d @ take n msgs) ! i"
  proof (cases "i < d")
    case True
    then show ?thesis using i assms(1) by (simp add: ring_list_def nth_append)
  next
    case False
    then have "s + i = s + d + (i - d)" "i - d < n" using i by auto
    then show ?thesis using False i assms(2) [of "i - d"] by (simp add: ring_list_def nth_append)
  qed
qed

lemma wf_advance_prod_n:
  assumes "uni_wf k r" "unat n \<le> unat (producer_free (rg_producer r))" "length a = 2 ^ k"
  shows "uni_wf k (r\<lparr>rg_producer := producer_advance_n (rg_producer r) n,
    rg_shared := (rg_shared r)\<lparr>sh_array := a\<rparr>\<rparr>)"
    and "unat (p_prod (rg_producer r) + n - c_cons (rg_consumer r)) =
      unat (p_prod (rg_producer r) - c_cons (rg_consumer r)) + unat n"
proof -
  let ?p = "rg_producer r" and ?c = "rg_consumer r" and ?sh = "rg_shared r"
  have "k < 32" using assms(1) by (simp add: uni_wf_def Let_def)
  then have k: "(2::nat) ^ k \<le> 2147483648" by (rule pow2_le_half)
  note room = uni_wf_dist(5) [OF assms(1)] assms(2) [unfolded producer_free_def]
  show "unat (p_prod ?p + n - c_cons ?c) = unat (p_prod ?p - c_cons ?c) + unat n"
    using unat_diff_add [of "p_prod ?p" "c_cons ?c" "p_prod ?p + n"] room k by simp
  have "unat ((p_prod_end ?p - p_prod ?p) - n) = unat (p_prod_end ?p - p_prod ?p) - unat n"
    using room by (intro unat_sub) (simp add: word_le_nat_alt)
  then have "unat (p_prod_end ?p - (p_prod ?p + n)) = unat (p_prod_end ?p - p_prod ?p) - unat n"
    by (simp add: algebra_simps)
  moreover have "unat (p_prod ?p + n - sh_prod ?sh) = unat (p_prod ?p - sh_prod ?sh) + unat n"
    using unat_diff_add [of "p_prod ?p" "sh_prod ?sh" "p_prod ?p + n"] room k uni_wf_dist(2) [OF assms(1)] by simp
  ultimately show "uni_wf k (r\<lparr>rg_producer := producer_advance_n ?p n, rg_shared := ?sh\<lparr>sh_array := a\<rparr>\<rparr>)"
    using assms(1,3) room(2) by (simp add: uni_wf_def Let_def producer_advance_n_def)
qed

lemma uni_produce_n_content:
  assumes "uni_wf k r" and "unat count \<le> length msgs"
    and "producer_produce_n (rg_producer r) (rg_shared r) msgs count = (n, p, sh)"
  shows "unat n = min (unat count) (unat (producer_free (rg_producer r)))"
    and "p = rg_producer r"
    and "uni_content (r\<lparr>rg_shared := sh\<rparr>) = uni_content r"
    and "uni_content (r\<lparr>rg_producer := producer_advance_n p n, rg_shared := sh\<rparr>)
           = uni_content r @ take (unat n) msgs"
    and "uni_wf k (r\<lparr>rg_producer := producer_advance_n p n, rg_shared := sh\<rparr>)"
proof -
  let ?p = "rg_producer r" and ?c = "rg_consumer r" and ?sh = "rg_shared r"
  let ?d = "unat (p_prod ?p - c_cons ?c)" and ?f = "unat (p_prod_end ?p - p_prod ?p)"
  have wf: "k < 32" "p_capacity ?p = 2 ^ k" "length (sh_array ?sh) = 2 ^ k"
    using assms(1) by (simp_all add: uni_wf_def Let_def)
  have df: "?d + ?f \<le> 2 ^ k" using uni_wf_dist(5) [OF assms(1)] .
  obtain a where cp: "ring_copy_to_ring (sh_array ?sh) (2 ^ k) (p_prod ?p) (p_prod_end ?p) msgs count = (n, a)"
    and p: "p = ?p" and sh: "sh = ?sh\<lparr>sh_array := a\<rparr>"
    using assms(3) wf(2) by (auto simp: producer_produce_n_def split: prod.splits)
  note nth = ring_copy_to_ring_nth [OF wf(1,3) _ assms(2) cp]
  show n: "unat n = min (unat count) (unat (producer_free ?p))"
    using nth(1) df by (simp add: producer_free_def)
  show "p = ?p" by (rule p)
  have nf: "unat n \<le> ?f" and la: "length a = 2 ^ k" using n nth(2) df by (simp_all add: producer_free_def)
  have "unat (p_prod ?p) mod 2 ^ k = (unat (c_cons ?c) + ?d) mod 2 ^ k"
    using unat_diff_mod [of k "p_prod ?p" "c_cons ?c"] wf(1) by (simp add: mod_simps)
  then have at: "(unat (p_prod ?p) + j) mod 2 ^ k = (unat (c_cons ?c) + ?d + j) mod 2 ^ k" for j
    by (metis mod_add_left_eq)
  have new: "a ! ((unat (c_cons ?c) + ?d + j) mod 2 ^ k) = msgs ! j" if "j < unat n" for j
    using nth(3) [of j] that nf df at by simp
  have old: "a ! ((unat (c_cons ?c) + j) mod 2 ^ k) = sh_array ?sh ! ((unat (c_cons ?c) + j) mod 2 ^ k)"
    if "j < ?d" for j
  proof -
    let ?j = "2 ^ k - ?d + j"
    have "unat (c_cons ?c) + ?d + ?j = unat (c_cons ?c) + j + 2 ^ k" using that df by simp
    then have "(unat (p_prod ?p) + ?j) mod 2 ^ k = (unat (c_cons ?c) + j) mod 2 ^ k"
      by (metis at mod_add_self2)
    moreover have "?j < 2 ^ k" "\<not> ?j < unat n" using that df nf by auto
    ultimately show ?thesis using nth(3) [of ?j] df by simp
  qed
  show "uni_content (r\<lparr>rg_shared := sh\<rparr>) = uni_content r"
    using old la wf(3) by (simp add: uni_content_def sh ring_list_def)
  note advance = wf_advance_prod_n [OF assms(1) _ la, of n, unfolded producer_free_def, OF nf]
  show "uni_content (r\<lparr>rg_producer := producer_advance_n p n, rg_shared := sh\<rparr>)
           = uni_content r @ take (unat n) msgs"
    using ring_list_extend [of ?d a "unat (c_cons ?c)" "2 ^ k" "sh_array ?sh" "unat n" msgs] old new
      advance(2) la wf(3) n assms(2)
    by (simp add: uni_content_def sh p producer_advance_n_def)
  show "uni_wf k (r\<lparr>rg_producer := producer_advance_n p n, rg_shared := sh\<rparr>)"
    using advance(1) by (simp add: sh p)
qed

text \<open>
  Batch production: \<open>produce_n\<close> copies the first \<open>min count free\<close> messages of the array into the free
  slots, in one or two ranges around the end of the array, and returns their number; it does not
  record the production (the content is unchanged), and recording it with \<open>advance_n\<close> appends exactly
  these messages to the content.
\<close>

theorem uni_produce_n_refine:
  assumes "uni_wf k r" and "unat count \<le> length msgs"
    and "producer_produce_n (rg_producer r) (rg_shared r) msgs count = (n, p, sh)"
  shows "unat n = min (unat count) (unat (producer_free (rg_producer r))) \<and>
    p = rg_producer r \<and> uni_content (r\<lparr>rg_producer := p, rg_shared := sh\<rparr>) = uni_content r \<and>
    uni_content (r\<lparr>rg_producer := producer_advance_n p n, rg_shared := sh\<rparr>)
      = uni_content r @ take (unat n) msgs \<and>
    uni_wf k (r\<lparr>rg_producer := producer_advance_n p n, rg_shared := sh\<rparr>)"
  using uni_produce_n_content [OF assms] by (simp add: uni_content_def)

theorem uni_produce_n_refine_witness:
  "\<exists>n p sh. producer_produce_n (rg_producer ring2) (rg_shared ring2) [1, 2, 3] 3 = (n, p, sh) \<and>
     uni_content (ring2\<lparr>rg_producer := producer_advance_n p n, rg_shared := sh\<rparr>) = [1, 2]"
proof -
  obtain n p sh where e: "producer_produce_n (rg_producer ring2) (rg_shared ring2) [1, 2, 3] 3 = (n, p, sh)"
    by (cases "producer_produce_n (rg_producer ring2) (rg_shared ring2) [1, 2, 3] 3")
  have f: "unat (producer_free (rg_producer ring2)) = 2" by (simp add: ring2_defs producer_free_def)
  show ?thesis
    using uni_produce_n_refine [OF ring2_wf(1) _ e] ring2_wf(2) e f by auto
qed

text \<open>
  Capacity: for a region of \<open>sz\<close> bytes that holds at least one slot, the computed capacity is a
  power of two, the ring fits in the region, and no ring of twice the capacity would fit (or the
  capacity is the largest that a 32-bit index allows).
\<close>

theorem uni_capacity_maximal:
  assumes "msg_sz \<noteq> 0" and "unat shared_sz + unat msg_sz \<le> unat sz"
  shows "\<exists>j. unat (uni_shared_size_to_capacity shared_sz msg_sz sz) = 2 ^ j \<and>
    unat shared_sz + 2 ^ j * unat msg_sz \<le> unat sz \<and>
    (j = 31 \<or> unat sz < unat shared_sz + 2 * 2 ^ j * unat msg_sz)"
proof -
  let ?x = "(sz - shared_sz) div msg_sz"
  have m: "0 < unat msg_sz" using assms(1) by (simp add: unat_gt_0)
  have le: "shared_sz \<le> sz" using assms(2) by (simp add: word_le_nat_alt)
  have x: "unat ?x = (unat sz - unat shared_sz) div unat msg_sz"
    using le by (simp add: unat_div unat_sub)
  have "unat msg_sz div unat msg_sz \<le> unat ?x"
    unfolding x using assms(2) by (intro div_le_mono) simp
  then have "?x \<noteq> 0" using m by auto
  then obtain j where j: "unat (round_down_power2_index ?x) = 2 ^ j"
      "2 ^ j \<le> min (unat ?x) 4294967295" "min (unat ?x) 4294967295 < 2 * 2 ^ j"
    using round_index [of ?x] by (auto simp: is_floor_pow2_def)
  have "(2::nat) ^ j * unat msg_sz \<le> unat sz - unat shared_sz"
    using j(2) x m by (simp add: less_eq_div_iff_mult_less_eq)
  moreover have "j = 31 \<or> unat sz - unat shared_sz < 2 * 2 ^ j * unat msg_sz"
  proof (cases "unat ?x \<le> 4294967295")
    case True
    then show ?thesis using j(3) x m by (simp add: div_less_iff_less_mult)
  next
    case False
    then have "(2::nat) ^ j < 2 ^ 32" "(2::nat) ^ 31 \<le> 2 ^ j" using j(2,3) by auto
    then have "j < 32" "31 \<le> j" by (simp_all only: power_strict_increasing_iff power_increasing_iff)
    then show ?thesis by simp
  qed
  ultimately show ?thesis
    using le j(1) assms(2) by (intro exI [of _ j]) (auto simp: uni_shared_size_to_capacity_def)
qed

theorem uni_capacity_maximal_witness:
  "\<exists>j. unat (uni_shared_size_to_capacity 16 16 4112) = 2 ^ j \<and> 16 + 2 ^ j * 16 \<le> (4112::nat) \<and>
     (j = 31 \<or> (4112::nat) < 16 + 2 * 2 ^ j * 16)"
  using uni_capacity_maximal [of 16 16 4112] by simp

subsection \<open>The copies, slot by slot\<close>

text \<open>The loops that the copies in two parts stand for.\<close>

definition write_slots :: "nat \<Rightarrow> 'm list \<Rightarrow> nat \<Rightarrow> 'm list \<Rightarrow> 'm list" where
  "write_slots i msgs n arr = fold (\<lambda>j a. a[(i + j) mod length arr := msgs ! j]) [0..<n] arr"

lemma write_slots_Suc:
  "write_slots i msgs (Suc n) arr = (write_slots i msgs n arr)[(i + n) mod length arr := msgs ! n]"
  by (simp add: write_slots_def)

lemma write_slots_nth:
  assumes "n \<le> length arr" "j < length arr"
  shows "length (write_slots i msgs n arr) = length arr"
    and "write_slots i msgs n arr ! ((i + j) mod length arr) =
      (if j < n then msgs ! j else arr ! ((i + j) mod length arr))"
proof -
  have len: "length (write_slots i msgs n arr) = length arr" for n
    by (induction n) (simp_all add: write_slots_Suc, simp add: write_slots_def)
  then show "length (write_slots i msgs n arr) = length arr" .
  show "write_slots i msgs n arr ! ((i + j) mod length arr) =
      (if j < n then msgs ! j else arr ! ((i + j) mod length arr))"
    using assms(1)
  proof (induction n)
    case 0
    then show ?case by (simp add: write_slots_def)
  next
    case (Suc n)
    have "(i + n) mod length arr = (i + j) mod length arr \<longleftrightarrow> j = n"
      using assms(2) Suc.prems mod_add_inj [of i n "length arr" j] by auto
    moreover have "(i + k) mod length arr < length arr" for k using assms(2) by (intro mod_less_divisor) linarith
    ultimately show ?case using Suc assms(2) len [of n]
      by (auto simp: write_slots_Suc nth_list_update less_Suc_eq)
  qed
qed

lemma mod_add_surj:
  fixes l n s :: nat
  assumes "l < n"
  shows "\<exists>j < n. l = (s + j) mod n"
proof -
  have "(s + (l + (n - s mod n)) mod n) mod n = (s mod n + (l + (n - s mod n))) mod n"
    by (simp only: mod_simps)
  moreover have "s mod n < n" using assms by (intro mod_less_divisor) simp
  then have "s mod n + (l + (n - s mod n)) = l + n" by simp
  ultimately have "(s + (l + (n - s mod n)) mod n) mod n = (l + n) mod n" by simp
  also have "\<dots> = l" using assms by simp
  finally show ?thesis using assms by (intro exI [of _ "(l + (n - s mod n)) mod n"]) simp
qed

lemma write_slots_copy:
  assumes "k < 32" "length arr = 2 ^ k" "unat (ring_end - ring_begin) \<le> 2 ^ k" "unat count \<le> length msgs"
    and "n = min (unat count) (unat (ring_end - ring_begin))"
  shows "ring_copy_to_ring arr (2 ^ k) ring_begin ring_end msgs count = (of_nat n, write_slots (unat ring_begin) msgs n arr)"
proof -
  obtain m a where eq: "ring_copy_to_ring arr (2 ^ k) ring_begin ring_end msgs count = (m, a)" by fastforce
  note nth = ring_copy_to_ring_nth [OF assms(1-4) eq]
  have m: "unat m = n" using nth(1) assms(5) by simp
  have "a = write_slots (unat ring_begin) msgs n arr"
  proof (rule nth_equalityI)
    show "length a = length (write_slots (unat ring_begin) msgs n arr)"
      using nth(2) write_slots_nth(1) [where arr = arr and n = n and j = 0] assms(2,3,5) by simp
    fix l assume "l < length a"
    then obtain j where "j < 2 ^ k" "l = (unat ring_begin + j) mod 2 ^ k"
      using nth(2) mod_add_surj [of l "2 ^ k" "unat ring_begin"] by auto
    then show "a ! l = write_slots (unat ring_begin) msgs n arr ! l"
      using nth(3) [of j] write_slots_nth(2) [where arr = arr and n = n and j = j] m assms(2,3,5) by simp
  qed
  then show ?thesis using eq m by auto
qed

lemma read_slots_copy:
  assumes "k < 32" "length arr = 2 ^ k" "unat (ring_end - ring_begin) \<le> 2 ^ k" "unat count \<le> length msgs"
    and "n = min (unat count) (unat (ring_end - ring_begin))"
  shows "ring_copy_from_ring msgs count arr (2 ^ k) ring_begin ring_end =
    (of_nat n, ring_list arr (2 ^ k) (unat ring_begin) n @ drop n msgs)"
proof -
  let ?m = "ring_begin AND (2 ^ k - 1)"
  define s where "s = unat ring_begin mod 2 ^ k"
  have s: "unat ?m = s" "s < 2 ^ k" by (simp_all add: and_pow2_minus_1 s_def)
  have rem: "unat (2 ^ k - ?m) = 2 ^ k - s"
    using s assms(1) by (subst unat_sub) (simp_all add: word_le_nat_alt unat_power2_u32)
  define c where "c = (if ring_end - ring_begin < count then ring_end - ring_begin else count)"
  have c: "unat c = n" using assms(5) by (simp add: c_def word_less_nat_alt min_def)
  have n: "n \<le> 2 ^ k" "n \<le> length msgs" using assms(3-5) by auto
  have part: "unat (c - (2 ^ k - ?m)) = n - (2 ^ k - s)" if "\<not> c \<le> 2 ^ k - ?m"
    using that rem c by (subst unat_sub) (simp_all add: word_le_nat_alt)
  have list: "ring_list arr (2 ^ k) (unat ring_begin) n = ring_list arr (2 ^ k) s n" by (simp add: s_def)
  have "ring_copy_from_ring msgs count arr (2 ^ k) ring_begin ring_end =
      (c, if n \<le> 2 ^ k - s then copy_slots msgs 0 arr s n
          else copy_slots (copy_slots msgs 0 arr s (2 ^ k - s)) (2 ^ k - s) arr 0 (n - (2 ^ k - s)))"
    using c rem s(1) part by (simp add: ring_copy_from_ring_def Let_def word_le_nat_alt flip: c_def)
  also have "\<dots> = (c, ring_list arr (2 ^ k) s n @ drop n msgs)"
  proof (cases "n \<le> 2 ^ k - s")
    case True
    then have "copy_slots msgs 0 arr s n = ring_list arr (2 ^ k) s n @ drop n msgs"
      using s(2) assms(2) by (intro nth_equalityI) (auto simp: copy_slots_def ring_list_def nth_append)
    then show ?thesis using True by simp
  next
    case False
    then have "copy_slots (copy_slots msgs 0 arr s (2 ^ k - s)) (2 ^ k - s) arr 0 (n - (2 ^ k - s)) =
        ring_list arr (2 ^ k) s n @ drop n msgs"
      using s(2) assms(2) n
      by (intro nth_equalityI) (auto simp: copy_slots_def ring_list_def nth_append mod_if add.commute [of s])
    then show ?thesis using False by simp
  qed
  finally show ?thesis using c list by auto
qed

text \<open>
  C37. The copies in two parts around the end of the ring are the loops over single slots.
\<close>

theorem ring_copies_slotwise:
  assumes "k < 32" "length arr = 2 ^ k" "unat (ring_end - ring_begin) \<le> 2 ^ k" "unat count \<le> length msgs"
    and "n = min (unat count) (unat (ring_end - ring_begin))"
  shows "ring_copy_to_ring arr (2 ^ k) ring_begin ring_end msgs count =
      (of_nat n, write_slots (unat ring_begin) msgs n arr) \<and>
    ring_copy_from_ring msgs count arr (2 ^ k) ring_begin ring_end =
      (of_nat n, ring_list arr (2 ^ k) (unat ring_begin) n @ drop n msgs)"
  using write_slots_copy [OF assms] read_slots_copy [OF assms] by simp

theorem ring_copies_slotwise_witness:
  "ring_copy_to_ring [10, 11, 12, 13 :: nat] 4 3 6 [20, 21, 22] 3 = (3, [21, 22, 12, 20]) \<and>
   ring_copy_from_ring [20, 21, 22] 3 [10, 11, 12, 13 :: nat] 4 3 6 = (3, [13, 10, 11])"
proof -
  have n: "3 = min (unat (3 :: u32)) (unat (6 - 3 :: u32))" "unat (3 :: u32) = 3" by simp_all
  have to: "write_slots 3 [20, 21, 22] 3 [10, 11, 12, 13 :: nat] = [21, 22, 12, 20]" by code_simp
  have "ring_list [10, 11, 12, 13 :: nat] 4 3 3 = [13, 10, 11]" by code_simp
  with to show ?thesis
    using ring_copies_slotwise [of 2 "[10, 11, 12, 13 :: nat]" 6 3 3 "[20, 21, 22]" 3, OF _ _ _ _ n(1)] n(2) by simp
qed

end
