(* ===== verification/PncRing_Weak.thy ===== *)
theory PncRing_Weak
  imports PncRing_Fifo
begin

text \<open>
  The unidirectional ring of \<open>include/misc/provencore/pnr_ring.h\<close> at the granularity of its accesses to
  shared memory, on processors that delay stores. Every actor has a store buffer. A store enters the buffer of
  its actor and reaches the shared structure later, in an order that the code constrains only by what it asks
  for: a \<open>memory_order_release\<close> store (\<open>prod\<close>, \<open>cons\<close>) leaves after all the stores that precede it, two stores to
  the same location leave in order, all other stores (slots, limits: plain or \<open>memory_order_relaxed\<close>) leave in any order.
  \<open>pnr_ring_store_load_fence()\<close> waits until the buffer is empty. Loads take place in program order (they are
  \<open>memory_order_acquire\<close>, or follow the fence), and see the actor's own delayed stores.

  PncRing_Weak_Fifo shows that the ring of such actors refines the ring of PncRing_Fifo whose operations are atomic, and
  that no notification is lost.
\<close>

subsection \<open>Stores and their buffers\<close>

datatype 'm store =
    St_slot nat 'm | St_prod u32 | St_cons_limit u32 | St_cons u32 | St_prod_limit u32

datatype location = At_slot nat | At_prod | At_cons_limit | At_cons | At_prod_limit

fun location_of :: "'m store \<Rightarrow> location" where
  "location_of (St_slot i m) = At_slot i"
| "location_of (St_prod v) = At_prod"
| "location_of (St_cons_limit v) = At_cons_limit"
| "location_of (St_cons v) = At_cons"
| "location_of (St_prod_limit v) = At_prod_limit"

fun apply_store :: "'m store \<Rightarrow> 'm uni_shared \<Rightarrow> 'm uni_shared" where
  "apply_store (St_slot i m) sh = sh\<lparr>sh_array := (sh_array sh)[i := m]\<rparr>"
| "apply_store (St_prod v) sh = sh\<lparr>sh_prod := v\<rparr>"
| "apply_store (St_cons_limit v) sh = sh\<lparr>sh_cons_limit := v\<rparr>"
| "apply_store (St_cons v) sh = sh\<lparr>sh_cons := v\<rparr>"
| "apply_store (St_prod_limit v) sh = sh\<lparr>sh_prod_limit := v\<rparr>"

text \<open>The stores to \<open>prod\<close> and \<open>cons\<close> are \<open>memory_order_release\<close>.\<close>

fun is_release :: "'m store \<Rightarrow> bool" where
  "is_release (St_prod v) = True"
| "is_release (St_cons v) = True"
| "is_release _ = False"

text \<open>The shared structure as an actor sees it that has the stores \<open>buf\<close> in its buffer.\<close>

definition view :: "'m store list \<Rightarrow> 'm uni_shared \<Rightarrow> 'm uni_shared" where
  "view buf mem = fold apply_store buf mem"

definition can_leave :: "'m store list \<Rightarrow> nat \<Rightarrow> bool" where
  "can_leave buf n \<longleftrightarrow> n < length buf \<and>
     (if is_release (buf ! n) then n = 0
      else \<forall>st \<in> set (take n buf). location_of st \<noteq> location_of (buf ! n))"

definition leave :: "'m store list \<Rightarrow> nat \<Rightarrow> 'm store list" where
  "leave buf n = take n buf @ drop (Suc n) buf"

definition fence_done :: "bool \<Rightarrow> 'm store list \<Rightarrow> bool" where
  "fence_done fences buf \<longleftrightarrow> \<not> fences \<or> buf = []"

subsection \<open>The two actors\<close>

text \<open>
  \<open>At_checkout_fence\<close> and \<open>At_commit_fence\<close>: the actor waits in \<open>pnr_ring_store_load_fence()\<close> of the operation.
\<close>

datatype actor_pc = Ready | At_checkout_fence | At_commit_fence

text \<open>
  \<open>w_p_asked\<close>: the last checkout of the producer has returned 0, and no notification has arrived since. \<open>w_p_notified\<close>: a
  notification for the producer is under way. The same for the consumer.
\<close>

record 'm weak_ring =
  w_mem :: "'m uni_shared"
  w_producer :: uni_producer
  w_consumer :: uni_consumer
  w_pbuf :: "'m store list"
  w_cbuf :: "'m store list"
  w_ppc :: actor_pc
  w_cpc :: actor_pc
  w_p_asked :: bool
  w_c_asked :: bool
  w_p_notified :: bool
  w_c_notified :: bool

definition weak_producer_checkout :: "'m weak_ring \<Rightarrow> 'm weak_ring" where
  "weak_producer_checkout s =
     (let (ok, p) = producer_checkout_helper (w_producer s) (view (w_pbuf s) (w_mem s))
      in if ok then s\<lparr>w_producer := p, w_p_asked := False\<rparr>
         else s\<lparr>w_producer := p, w_p_asked := False,
                w_pbuf := w_pbuf s @ [St_cons_limit (p_prod_end p - p_capacity p)],
                w_ppc := At_checkout_fence\<rparr>)"

definition weak_producer_checkout_again :: "bool \<Rightarrow> 'm weak_ring \<Rightarrow> 'm weak_ring" where
  "weak_producer_checkout_again fences s =
     (if fence_done fences (w_pbuf s)
      then let (ok, p) = producer_checkout_helper (w_producer s) (view (w_pbuf s) (w_mem s))
           in s\<lparr>w_producer := p, w_p_asked := \<not> ok, w_ppc := Ready\<rparr>
      else s)"

definition weak_producer_produce :: "'m \<Rightarrow> 'm weak_ring \<Rightarrow> bool \<times> 'm weak_ring" where
  "weak_producer_produce m s =
     (let p = w_producer s;
          prod = p_prod p
      in if prod = p_prod_end p then (False, s)
         else (True, s\<lparr>w_producer := p\<lparr>p_prod := prod + 1\<rparr>,
                w_pbuf := w_pbuf s @ [St_slot (unat (prod AND (p_capacity p - 1))) m]\<rparr>))"

definition weak_producer_commit :: "'m weak_ring \<Rightarrow> 'm weak_ring" where
  "weak_producer_commit s =
     (let p = w_producer s
      in if p_prod p = p_last_published_prod p then s
         else s\<lparr>w_pbuf := w_pbuf s @ [St_prod (p_prod p)], w_ppc := At_commit_fence\<rparr>)"

definition weak_producer_commit_end :: "bool \<Rightarrow> 'm weak_ring \<Rightarrow> 'm weak_ring" where
  "weak_producer_commit_end fences s =
     (if fence_done fences (w_pbuf s)
      then let p = w_producer s;
               last = p_last_published_prod p;
               prod = p_prod p;
               notify = sh_prod_limit (view (w_pbuf s) (w_mem s)) - last < prod - last
           in s\<lparr>w_producer := p\<lparr>p_last_published_prod := prod\<rparr>, w_ppc := Ready,
                w_c_notified := w_c_notified s \<or> notify\<rparr>
      else s)"

definition weak_consumer_checkout :: "'m weak_ring \<Rightarrow> 'm weak_ring" where
  "weak_consumer_checkout s =
     (let (ok, c) = consumer_checkout_helper (w_consumer s) (view (w_cbuf s) (w_mem s))
      in if ok then s\<lparr>w_consumer := c, w_c_asked := False\<rparr>
         else s\<lparr>w_consumer := c, w_c_asked := False,
                w_cbuf := w_cbuf s @ [St_prod_limit (c_cons_end c)],
                w_cpc := At_checkout_fence\<rparr>)"

definition weak_consumer_checkout_again :: "bool \<Rightarrow> 'm weak_ring \<Rightarrow> 'm weak_ring" where
  "weak_consumer_checkout_again fences s =
     (if fence_done fences (w_cbuf s)
      then let (ok, c) = consumer_checkout_helper (w_consumer s) (view (w_cbuf s) (w_mem s))
           in s\<lparr>w_consumer := c, w_c_asked := \<not> ok, w_cpc := Ready\<rparr>
      else s)"

definition weak_consumer_consume :: "'m weak_ring \<Rightarrow> 'm option \<times> 'm weak_ring" where
  "weak_consumer_consume s =
     (let (m, c) = consumer_consume (w_consumer s) (view (w_cbuf s) (w_mem s))
      in (m, s\<lparr>w_consumer := c\<rparr>))"

definition weak_consumer_commit :: "'m weak_ring \<Rightarrow> 'm weak_ring" where
  "weak_consumer_commit s =
     (let c = w_consumer s
      in if c_cons c = c_last_published_cons c then s
         else s\<lparr>w_cbuf := w_cbuf s @ [St_cons (c_cons c)], w_cpc := At_commit_fence\<rparr>)"

definition weak_consumer_commit_end :: "bool \<Rightarrow> 'm weak_ring \<Rightarrow> 'm weak_ring" where
  "weak_consumer_commit_end fences s =
     (if fence_done fences (w_cbuf s)
      then let c = w_consumer s;
               last = c_last_published_cons c;
               cons = c_cons c;
               notify = sh_cons_limit (view (w_cbuf s) (w_mem s)) - last < cons - last
           in s\<lparr>w_consumer := c\<lparr>c_last_published_cons := cons\<rparr>, w_cpc := Ready,
                w_p_notified := w_p_notified s \<or> notify\<rparr>
      else s)"

subsection \<open>Interleavings\<close>

text \<open>
  An actor starts an operation when it is in none, and goes on with the one it is in once the fence lets it. \<open>P_leave n\<close>: the
  store \<open>n\<close> of the producer's buffer reaches memory. \<open>P_notified\<close>: the handler of the producer runs.
\<close>

datatype 'm weak_event =
    P_checkout | P_produce 'm | P_commit | P_continue | P_leave nat | P_notified
  | C_checkout | C_consume | C_commit | C_continue | C_leave nat | C_notified

fun weak_step :: "bool \<Rightarrow> 'm weak_event \<Rightarrow> 'm weak_ring \<Rightarrow> 'm list \<times> 'm list \<times> 'm weak_ring" where
  "weak_step fences P_checkout s = ([], [], if w_ppc s = Ready then weak_producer_checkout s else s)"
| "weak_step fences (P_produce m) s =
     (if w_ppc s = Ready
      then let (ok, s) = weak_producer_produce m s in (if ok then [m] else [], [], s)
      else ([], [], s))"
| "weak_step fences P_commit s = ([], [], if w_ppc s = Ready then weak_producer_commit s else s)"
| "weak_step fences P_continue s =
     ([], [], case w_ppc s of Ready \<Rightarrow> s
        | At_checkout_fence \<Rightarrow> weak_producer_checkout_again fences s
        | At_commit_fence \<Rightarrow> weak_producer_commit_end fences s)"
| "weak_step fences (P_leave n) s =
     ([], [], if can_leave (w_pbuf s) n
              then s\<lparr>w_mem := apply_store (w_pbuf s ! n) (w_mem s), w_pbuf := leave (w_pbuf s) n\<rparr> else s)"
| "weak_step fences P_notified s =
     ([], [], if w_p_notified s then s\<lparr>w_p_notified := False, w_p_asked := False\<rparr> else s)"
| "weak_step fences C_checkout s = ([], [], if w_cpc s = Ready then weak_consumer_checkout s else s)"
| "weak_step fences C_consume s =
     (if w_cpc s = Ready
      then let (m, s) = weak_consumer_consume s in ([], case m of None \<Rightarrow> [] | Some x \<Rightarrow> [x], s)
      else ([], [], s))"
| "weak_step fences C_commit s = ([], [], if w_cpc s = Ready then weak_consumer_commit s else s)"
| "weak_step fences C_continue s =
     ([], [], case w_cpc s of Ready \<Rightarrow> s
        | At_checkout_fence \<Rightarrow> weak_consumer_checkout_again fences s
        | At_commit_fence \<Rightarrow> weak_consumer_commit_end fences s)"
| "weak_step fences (C_leave n) s =
     ([], [], if can_leave (w_cbuf s) n
              then s\<lparr>w_mem := apply_store (w_cbuf s ! n) (w_mem s), w_cbuf := leave (w_cbuf s) n\<rparr> else s)"
| "weak_step fences C_notified s =
     ([], [], if w_c_notified s then s\<lparr>w_c_notified := False, w_c_asked := False\<rparr> else s)"

definition weak_initial :: "nat \<Rightarrow> 'm list \<Rightarrow> 'm weak_ring" where
  "weak_initial k arr =
     (let r = uni_initial k arr
      in \<lparr>w_mem = rg_shared r, w_producer = rg_producer r, w_consumer = rg_consumer r, w_pbuf = [], w_cbuf = [],
          w_ppc = Ready, w_cpc = Ready, w_p_asked = False, w_c_asked = False, w_p_notified = False,
          w_c_notified = False\<rparr>)"

end
