(* ===== verification/PncRing_Weak_Fifo.thy ===== *)
theory PncRing_Weak_Fifo
  imports PncRing_Weak
begin

text \<open>
  The correctness of the ring on processors that delay stores (PncRing_Weak): every interleaving of accesses to
  memory is simulated by the ring of PncRing_Fifo, whose operations are atomic, so that the channel contract carries over; the
  invariant of the buffers and of the notifications under way gives that no wakeup is lost.
\<close>

subsection \<open>The atomic ring that an interleaving stands for\<close>

text \<open>
  Slots and limits count when they are stored, \<open>prod\<close> and \<open>cons\<close> when they reach memory.
\<close>

definition weak_abs :: "'m weak_ring \<Rightarrow> 'm uni_ring" where
  "weak_abs s =
     (let mem = w_mem s; sh = view (w_pbuf s) mem
      in \<lparr>rg_producer = (w_producer s)\<lparr>p_last_published_prod := sh_prod mem\<rparr>,
          rg_consumer = (w_consumer s)\<lparr>c_last_published_cons := sh_cons mem\<rparr>,
          rg_shared = mem\<lparr>sh_array := sh_array sh, sh_cons_limit := sh_cons_limit sh,
            sh_prod_limit := sh_prod_limit (view (w_cbuf s) mem)\<rparr>\<rparr>)"

fun is_slot :: "'m store \<Rightarrow> bool" where
  "is_slot (St_slot i m) = True"
| "is_slot _ = False"

definition producer_buffered :: "nat \<Rightarrow> 'm weak_ring \<Rightarrow> bool" where
  "producer_buffered k s \<longleftrightarrow>
     (let p = w_producer s; mem = w_mem s; buf = w_pbuf s
      in (\<forall>i m. St_slot i m \<in> set buf \<longrightarrow>
            (\<exists>j < unat (p_prod p - sh_prod mem). i = (unat (sh_prod mem) + j) mod 2 ^ k)) \<and>
         (case w_ppc s of
            Ready \<Rightarrow> p_last_published_prod p = sh_prod mem \<and> (\<forall>st \<in> set buf. is_slot st)
          | At_checkout_fence \<Rightarrow> p_last_published_prod p = sh_prod mem \<and> p_prod_end p = p_prod p \<and>
              sh_cons_limit (view buf mem) = p_prod p - 2 ^ k \<and>
              (\<forall>st \<in> set buf. is_slot st \<or> st = St_cons_limit (p_prod p - 2 ^ k))
          | At_commit_fence \<Rightarrow> p_last_published_prod p \<noteq> p_prod p \<and>
              (buf = [] \<and> sh_prod mem = p_prod p \<or>
               p_last_published_prod p = sh_prod mem \<and>
               (\<exists>slots. buf = slots @ [St_prod (p_prod p)] \<and> (\<forall>st \<in> set slots. is_slot st)))))"

definition consumer_buffered :: "'m weak_ring \<Rightarrow> bool" where
  "consumer_buffered s \<longleftrightarrow>
     (let c = w_consumer s; mem = w_mem s; buf = w_cbuf s
      in case w_cpc s of
           Ready \<Rightarrow> c_last_published_cons c = sh_cons mem \<and> buf = []
         | At_checkout_fence \<Rightarrow> c_last_published_cons c = sh_cons mem \<and> c_cons_end c = c_cons c \<and>
             (buf = [] \<and> sh_prod_limit mem = c_cons c \<or> buf = [St_prod_limit (c_cons c)])
         | At_commit_fence \<Rightarrow> c_last_published_cons c \<noteq> c_cons c \<and>
             (buf = [] \<and> sh_cons mem = c_cons c \<or>
              c_last_published_cons c = sh_cons mem \<and> buf = [St_cons (c_cons c)]))"

text \<open>
  An actor that has asked for a notification has left the position it waits at in memory, and is notified, or has missed
  nothing, or is about to be notified by the other actor's commit.
\<close>

definition producer_woken :: "nat \<Rightarrow> 'm weak_ring \<Rightarrow> bool" where
  "producer_woken k s \<longleftrightarrow>
     (let p = w_producer s; c = w_consumer s; mem = w_mem s
      in w_p_asked s \<longrightarrow> w_ppc s \<noteq> At_checkout_fence \<and> p_prod_end p = p_prod p \<and>
           sh_cons_limit mem = p_prod p - 2 ^ k \<and>
           (w_p_notified s \<or> sh_cons mem = p_prod p - 2 ^ k \<or>
            w_cpc s = At_commit_fence \<and> w_cbuf s = [] \<and> c_last_published_cons c = p_prod p - 2 ^ k))"

definition consumer_woken :: "'m weak_ring \<Rightarrow> bool" where
  "consumer_woken s \<longleftrightarrow>
     (let p = w_producer s; c = w_consumer s; mem = w_mem s
      in w_c_asked s \<longrightarrow> w_cpc s \<noteq> At_checkout_fence \<and> c_cons_end c = c_cons c \<and>
           sh_prod_limit mem = c_cons c \<and>
           (w_c_notified s \<or> sh_prod mem = c_cons c \<or>
            w_ppc s = At_commit_fence \<and> w_pbuf s = [] \<and> p_last_published_prod p = c_cons c))"

definition weak_inv :: "nat \<Rightarrow> 'm weak_ring \<Rightarrow> bool" where
  "weak_inv k s \<longleftrightarrow> uni_wf k (weak_abs s) \<and> producer_buffered k s \<and> consumer_buffered s \<and>
     producer_woken k s \<and> consumer_woken s"

subsection \<open>Views\<close>

lemma apply_store_commute:
  "location_of a \<noteq> location_of b \<Longrightarrow> apply_store a (apply_store b sh) = apply_store b (apply_store a sh)"
  by (cases a; cases b) (auto simp: list_update_swap)

lemma view_simps [simp]:
  "view [] mem = mem"
  "view (st # buf) mem = view buf (apply_store st mem)"
  "view (buf @ buf') mem = view buf' (view buf mem)"
  by (simp_all add: view_def)

lemma view_commute:
  "(\<And>st'. st' \<in> set buf \<Longrightarrow> location_of st' \<noteq> location_of st) \<Longrightarrow>
     view buf (apply_store st mem) = apply_store st (view buf mem)"
proof (induction buf arbitrary: mem)
  case Nil
  then show ?case by simp
next
  case (Cons a buf)
  have "view (a # buf) (apply_store st mem) = view buf (apply_store st (apply_store a mem))"
    using Cons.prems apply_store_commute [of a st mem] by simp
  then show ?case using Cons by simp
qed

lemma view_leave:
  assumes "can_leave buf n" 
  shows "view (leave buf n) (apply_store (buf ! n) mem) = view buf mem"
proof -
  have n: "n < length buf" using assms by (simp add: can_leave_def)
  have "view (take n buf) (apply_store (buf ! n) mem) = apply_store (buf ! n) (view (take n buf) mem)"
  proof (cases "n = 0")
    case False
    then have "\<forall>st \<in> set (take n buf). location_of st \<noteq> location_of (buf ! n)"
      using assms by (auto simp: can_leave_def split: if_splits)
    then show ?thesis by (intro view_commute) blast
  qed simp
  moreover have "view buf mem = view (drop (Suc n) buf) (apply_store (buf ! n) (view (take n buf) mem))"
    using arg_cong [OF id_take_nth_drop [OF n], of "\<lambda>b. view b mem"] by simp
  ultimately show ?thesis by (simp add: leave_def)
qed

lemma view_unstored:
  "\<forall>st \<in> set buf. location_of st \<noteq> At_cons \<Longrightarrow> sh_cons (view buf mem) = sh_cons mem"
  "\<forall>st \<in> set buf. location_of st \<noteq> At_prod \<Longrightarrow> sh_prod (view buf mem) = sh_prod mem"
  "\<forall>st \<in> set buf. location_of st \<noteq> At_cons_limit \<Longrightarrow> sh_cons_limit (view buf mem) = sh_cons_limit mem"
  "\<forall>st \<in> set buf. location_of st \<noteq> At_prod_limit \<Longrightarrow> sh_prod_limit (view buf mem) = sh_prod_limit mem"
proof -
  have one: "location_of st \<noteq> At_cons \<Longrightarrow> sh_cons (apply_store st mem) = sh_cons mem"
     "location_of st \<noteq> At_prod \<Longrightarrow> sh_prod (apply_store st mem) = sh_prod mem"
     "location_of st \<noteq> At_cons_limit \<Longrightarrow> sh_cons_limit (apply_store st mem) = sh_cons_limit mem"
     "location_of st \<noteq> At_prod_limit \<Longrightarrow> sh_prod_limit (apply_store st mem) = sh_prod_limit mem" for st :: "'a store" and mem
    by (cases st; simp)+
  show "\<forall>st \<in> set buf. location_of st \<noteq> At_cons \<Longrightarrow> sh_cons (view buf mem) = sh_cons mem"
    "\<forall>st \<in> set buf. location_of st \<noteq> At_prod \<Longrightarrow> sh_prod (view buf mem) = sh_prod mem"
    "\<forall>st \<in> set buf. location_of st \<noteq> At_cons_limit \<Longrightarrow> sh_cons_limit (view buf mem) = sh_cons_limit mem"
    "\<forall>st \<in> set buf. location_of st \<noteq> At_prod_limit \<Longrightarrow> sh_prod_limit (view buf mem) = sh_prod_limit mem"
    by (induction buf arbitrary: mem) (simp_all add: one)
qed

lemma is_slot_location: "is_slot st \<Longrightarrow> \<exists>i. location_of st = At_slot i"
  by (cases st) auto

lemma slots_unstored:
  assumes "\<forall>st \<in> set buf. is_slot st"
  shows "sh_cons_limit (view buf mem) = sh_cons_limit mem"
  using assms view_unstored(3) is_slot_location by fastforce

lemma producer_stores:
  assumes "producer_buffered k s" "st \<in> set (w_pbuf s)"
  shows "location_of st \<noteq> At_cons" "location_of st \<noteq> At_prod_limit"
  using assms is_slot_location [of st] by (fastforce simp: producer_buffered_def Let_def split: actor_pc.splits)+

lemma producer_loads [simp]:
  assumes "producer_buffered k s"
  shows "sh_cons (view (w_pbuf s) (w_mem s)) = sh_cons (w_mem s)"
    and "sh_prod_limit (view (w_pbuf s) (w_mem s)) = sh_prod_limit (w_mem s)"
  using producer_stores [OF assms] view_unstored(1,4) by blast+

lemma consumer_loads [simp]:
  assumes "consumer_buffered s"
  shows "sh_prod (view (w_cbuf s) (w_mem s)) = sh_prod (w_mem s)"
    and "sh_cons_limit (view (w_cbuf s) (w_mem s)) = sh_cons_limit (w_mem s)"
    and "sh_array (view (w_cbuf s) (w_mem s)) = sh_array (w_mem s)"
  using assms by (auto simp: consumer_buffered_def Let_def split: actor_pc.splits)

lemma weak_abs_sel [simp]:
  "rg_producer (weak_abs s) = (w_producer s)\<lparr>p_last_published_prod := sh_prod (w_mem s)\<rparr>"
  "rg_consumer (weak_abs s) = (w_consumer s)\<lparr>c_last_published_cons := sh_cons (w_mem s)\<rparr>"
  "sh_prod (rg_shared (weak_abs s)) = sh_prod (w_mem s)" "sh_cons (rg_shared (weak_abs s)) = sh_cons (w_mem s)"
  "sh_array (rg_shared (weak_abs s)) = sh_array (view (w_pbuf s) (w_mem s))"
  "sh_cons_limit (rg_shared (weak_abs s)) = sh_cons_limit (view (w_pbuf s) (w_mem s))"
  "sh_prod_limit (rg_shared (weak_abs s)) = sh_prod_limit (view (w_cbuf s) (w_mem s))"
  by (simp_all add: weak_abs_def Let_def)

text \<open>The loads of the actors are loads of the atomic ring.\<close>

lemma weak_producer_look:
  assumes "weak_inv k s"
  shows "producer_checkout_helper (w_producer s) (view (w_pbuf s) (w_mem s)) =
    (sh_cons (w_mem s) + 2 ^ k \<noteq> p_prod (w_producer s), (w_producer s)\<lparr>p_prod_end := sh_cons (w_mem s) + 2 ^ k\<rparr>)"
  using wf_producer_look [of k "weak_abs s"] producer_loads [of k s] assms
  by (cases "w_producer s") (auto simp: weak_inv_def producer_checkout_helper_def Let_def split: if_splits)

lemma weak_consumer_look:
  assumes "weak_inv k s"
  shows "consumer_checkout_helper (w_consumer s) (view (w_cbuf s) (w_mem s)) =
    (sh_prod (w_mem s) \<noteq> c_cons (w_consumer s), (w_consumer s)\<lparr>c_cons_end := sh_prod (w_mem s)\<rparr>)"
  using wf_consumer_look [of k "weak_abs s"] consumer_loads [of s] assms
  by (cases "w_consumer s") (auto simp: weak_inv_def consumer_checkout_helper_def Let_def split: if_splits)

definition weak_sim :: "nat \<Rightarrow> 'm weak_ring \<Rightarrow> 'm list \<times> 'm list \<times> 'm weak_ring \<Rightarrow> bool" where
  "weak_sim k s = (\<lambda>(a, d, s'). weak_inv k s' \<and> (\<exists>es. run_steps uni_step es (weak_abs s) = (a, d, weak_abs s')))"

text \<open>A step is nothing to the atomic ring, or one operation of it.\<close>

lemma weak_sim_nothing:
  assumes "weak_inv k s" "weak_abs s' = weak_abs s" "producer_buffered k s'" "consumer_buffered s'" "producer_woken k s'"
    "consumer_woken s'"
  shows "weak_sim k s ([], [], s')"
  using assms by (auto simp: weak_sim_def weak_inv_def intro!: exI [of _ "[]"])

lemma weak_sim_one:
  assumes "weak_inv k s" "uni_step e (weak_abs s) = (a, d, weak_abs s')" "producer_buffered k s'" "consumer_buffered s'"
    "producer_woken k s'" "consumer_woken s'"
  shows "weak_sim k s (a, d, s')"
proof -
  have run: "run_steps uni_step [e] (weak_abs s) = (a, d, weak_abs s')" using assms(2) by simp
  then have "uni_wf k (weak_abs s')" using uni.run_invar_fifo [of k "weak_abs s" "[e]"] assms(1) by (simp add: weak_inv_def)
  then show ?thesis using assms(3-6) run by (auto simp only: weak_sim_def weak_inv_def split_conv)
qed

subsection \<open>Steps of the producer\<close>

lemma weak_abs_k: 
  assumes "weak_inv k s"
  shows "k < 32" "p_capacity (w_producer s) = 2 ^ k" "c_capacity (w_consumer s) = 2 ^ k"
    "length (sh_array (view (w_pbuf s) (w_mem s))) = 2 ^ k"
  using assms by (simp_all add: weak_inv_def uni_wf_def Let_def)

lemma weak_invD:
  assumes "weak_inv k s"
  shows "uni_wf k (weak_abs s)" "producer_buffered k s" "consumer_buffered s" "producer_woken k s" "consumer_woken s"
  using assms by (simp_all add: weak_inv_def)

lemma consumer_buffered_cong:
  assumes "w_consumer s' = w_consumer s" "w_cbuf s' = w_cbuf s" "w_cpc s' = w_cpc s"
    "sh_cons (w_mem s') = sh_cons (w_mem s)" "sh_prod_limit (w_mem s') = sh_prod_limit (w_mem s)"
  shows "consumer_buffered s' = consumer_buffered s"
  using assms by (cases "w_cpc s") (simp_all add: consumer_buffered_def Let_def)

lemma producer_buffered_cong:
  assumes "w_producer s' = w_producer s" "w_pbuf s' = w_pbuf s" "w_ppc s' = w_ppc s" "sh_prod (w_mem s') = sh_prod (w_mem s)"
    "sh_cons_limit (view (w_pbuf s) (w_mem s')) = sh_cons_limit (view (w_pbuf s) (w_mem s))"
  shows "producer_buffered k s' = producer_buffered k s"
  using assms by (cases "w_ppc s") (simp_all add: producer_buffered_def Let_def)

lemma sim_producer_checkout:
  assumes "weak_inv k s" "w_ppc s = Ready"
  shows "weak_sim k s ([], [], weak_producer_checkout s)"
proof -
  note inv = weak_invD [OF assms(1)] and cap = weak_abs_k [OF assms(1)]
  have slots: "\<forall>st \<in> set (w_pbuf s). is_slot st" "p_last_published_prod (w_producer s) = sh_prod (w_mem s)"
    using inv(2) assms(2) by (simp_all add: producer_buffered_def Let_def)
  have "uni_step Producer_checkout (weak_abs s) = ([], [], weak_abs (weak_producer_checkout s))"
    using slots(2) cap(2) unfolding uni_producer_checkout [OF inv(1)]
    by (auto simp: weak_producer_checkout_def weak_producer_look [OF assms(1)] weak_abs_def Let_def
        intro!: uni_producer.equality)
  then show ?thesis
  proof (rule weak_sim_one [OF assms(1)])
    show "producer_buffered k (weak_producer_checkout s)"
      using inv(2) slots assms(2) cap(2)
      by (auto simp: producer_buffered_def weak_producer_checkout_def weak_producer_look [OF assms(1)] Let_def)
    show "consumer_buffered (weak_producer_checkout s)"
      using inv(3) consumer_buffered_cong [of "weak_producer_checkout s" s]
      by (auto simp: weak_producer_checkout_def weak_producer_look [OF assms(1)] Let_def)
    show "producer_woken k (weak_producer_checkout s)" "consumer_woken (weak_producer_checkout s)"
      using inv(5) assms(2)
      by (auto simp: producer_woken_def consumer_woken_def weak_producer_checkout_def weak_producer_look [OF assms(1)] Let_def)
  qed
qed

lemma sim_producer_checkout_again:
  assumes "weak_inv k s" "w_ppc s = At_checkout_fence"
  shows "weak_sim k s ([], [], weak_producer_checkout_again True s)"
proof (cases "w_pbuf s = []")
  case False
  then show ?thesis
    using assms(1) weak_invD [OF assms(1)]
    by (auto simp: weak_producer_checkout_again_def fence_done_def intro!: weak_sim_nothing)
next
  case True
  note inv = weak_invD [OF assms(1)] and cap = weak_abs_k [OF assms(1)]
  have at: "p_last_published_prod (w_producer s) = sh_prod (w_mem s)" "p_prod_end (w_producer s) = p_prod (w_producer s)"
    "sh_cons_limit (w_mem s) = p_prod (w_producer s) - 2 ^ k"
    using inv(2) assms(2) True by (simp_all add: producer_buffered_def Let_def)
  have look: "producer_checkout_helper (w_producer s) (w_mem s) =
    (sh_cons (w_mem s) + 2 ^ k \<noteq> p_prod (w_producer s), (w_producer s)\<lparr>p_prod_end := sh_cons (w_mem s) + 2 ^ k\<rparr>)"
    using weak_producer_look [OF assms(1)] True by simp
  have "uni_step Producer_checkout (weak_abs s) = ([], [], weak_abs (weak_producer_checkout_again True s))"
    using at True unfolding uni_producer_checkout [OF inv(1)]
    by (auto simp: weak_producer_checkout_again_def fence_done_def look weak_abs_def Let_def
        intro!: uni_producer.equality)
  then show ?thesis
  proof (rule weak_sim_one [OF assms(1)])
    show "producer_buffered k (weak_producer_checkout_again True s)"
      using at True by (auto simp: producer_buffered_def weak_producer_checkout_again_def fence_done_def look Let_def)
    show "consumer_buffered (weak_producer_checkout_again True s)"
      using inv(3) consumer_buffered_cong [of "weak_producer_checkout_again True s" s] True
      by (auto simp: weak_producer_checkout_again_def fence_done_def look Let_def)
    show "producer_woken k (weak_producer_checkout_again True s)" "consumer_woken (weak_producer_checkout_again True s)"
      using inv(5) assms(2) at True
      by (auto simp: producer_woken_def consumer_woken_def weak_producer_checkout_again_def fence_done_def look Let_def eq_diff_eq)
  qed
qed

lemma produce_grows:
  assumes "uni_wf k r" "p_prod (rg_producer r) \<noteq> p_prod_end (rg_producer r)"
  shows "unat (p_prod (rg_producer r) + 1 - sh_prod (rg_shared r)) =
    Suc (unat (p_prod (rg_producer r) - sh_prod (rg_shared r)))"
proof -
  let ?p = "rg_producer r" and ?sh = "rg_shared r"
  have "unat (p_prod_end ?p - p_prod ?p) > 0" using assms(2) by (metis eq_iff_diff_eq_0 gr0I unat_eq_zero)
  then have "unat (p_prod ?p - sh_prod ?sh) < 2 ^ k" "k < 32"
    using uni_wf_dist(2,5) [OF assms(1)] assms(1) by (simp_all add: uni_wf_def Let_def)
  then show ?thesis
    using pow2_le_half [of k] unat_diff_add [of "p_prod ?p" "sh_prod ?sh" "p_prod ?p + 1"] by simp
qed

lemma sim_produce:
  assumes "weak_inv k s" "w_ppc s = Ready" "weak_producer_produce m s = (ok, s')"
  shows "weak_sim k s (if ok then [m] else [], [], s')"
proof (cases "p_prod (w_producer s) = p_prod_end (w_producer s)")
  case True
  then show ?thesis
    using assms weak_invD [OF assms(1)] by (auto simp: weak_producer_produce_def Let_def intro!: weak_sim_nothing)
next
  case False
  note inv = weak_invD [OF assms(1)] and cap = weak_abs_k [OF assms(1)]
  let ?P = "p_prod (w_producer s)" and ?i = "unat (p_prod (w_producer s)) mod 2 ^ k"
  have s': "ok" "s' = s\<lparr>w_producer := (w_producer s)\<lparr>p_prod := ?P + 1\<rparr>, w_pbuf := w_pbuf s @ [St_slot ?i m]\<rparr>"
    using assms(3) False cap(1,2) by (auto simp: weak_producer_produce_def Let_def and_pow2_minus_1)
  have ready: "\<forall>st \<in> set (w_pbuf s). is_slot st" "p_last_published_prod (w_producer s) = sh_prod (w_mem s)"
    using inv(2) assms(2) by (simp_all add: producer_buffered_def Let_def)
  have "uni_step (Produce m) (weak_abs s) = ([m], [], weak_abs s')"
    using False s'(2) cap(1,2) by (auto simp: producer_produce_def weak_abs_def Let_def and_pow2_minus_1 intro!: uni_producer.equality)
  then have "weak_sim k s ([m], [], s')"
  proof (rule weak_sim_one [OF assms(1)])
    have grow: "unat (?P + 1 - sh_prod (w_mem s)) = Suc (unat (?P - sh_prod (w_mem s)))"
      using produce_grows [OF inv(1)] False by simp
    have pos: "?i = (unat (sh_prod (w_mem s)) + unat (?P - sh_prod (w_mem s))) mod 2 ^ k"
      using unat_diff_mod [of k ?P "sh_prod (w_mem s)"] cap(1) by (simp add: mod_simps)
    show "producer_buffered k s'"
      using inv(2) ready assms(2) pos unfolding s'(2)
      by (auto simp: producer_buffered_def Let_def grow less_Suc_eq)
    show "consumer_buffered s'" using inv(3) consumer_buffered_cong [of s' s] s'(2) by simp
    show "producer_woken k s'" "consumer_woken s'"
      using inv(4,5) assms(2) False s'(2) by (auto simp: producer_woken_def consumer_woken_def Let_def)
  qed
  then show ?thesis using s'(1) by simp
qed

lemma sim_producer_commit:
  assumes "weak_inv k s" "w_ppc s = Ready"
  shows "weak_sim k s ([], [], weak_producer_commit s)"
proof (rule weak_sim_nothing [OF assms(1)])
  note inv = weak_invD [OF assms(1)]
  show "weak_abs (weak_producer_commit s) = weak_abs s"
    by (simp add: weak_abs_def weak_producer_commit_def Let_def)
  show "producer_buffered k (weak_producer_commit s)"
    using inv(2) assms(2) by (auto simp: producer_buffered_def weak_producer_commit_def Let_def)
  show "consumer_buffered (weak_producer_commit s)"
    using inv(3) consumer_buffered_cong [of "weak_producer_commit s" s] by (simp add: weak_producer_commit_def Let_def)
  show "producer_woken k (weak_producer_commit s)" "consumer_woken (weak_producer_commit s)"
    using inv(4,5) assms(2) by (auto simp: producer_woken_def consumer_woken_def weak_producer_commit_def Let_def)
qed

lemma sim_producer_commit_end:
  assumes "weak_inv k s" "w_ppc s = At_commit_fence"
  shows "weak_sim k s ([], [], weak_producer_commit_end True s)"
proof (cases "w_pbuf s = []")
  case False
  then show ?thesis
    using assms(1) weak_invD [OF assms(1)]
    by (auto simp: weak_producer_commit_end_def fence_done_def intro!: weak_sim_nothing)
next
  case True
  note inv = weak_invD [OF assms(1)]
  let ?s = "weak_producer_commit_end True s"
  have at: "p_last_published_prod (w_producer s) \<noteq> p_prod (w_producer s)" "sh_prod (w_mem s) = p_prod (w_producer s)"
    using inv(2) assms(2) True by (auto simp: producer_buffered_def Let_def)
  show ?thesis
  proof (rule weak_sim_nothing [OF assms(1)])
    show "weak_abs ?s = weak_abs s"
      by (simp add: weak_abs_def weak_producer_commit_end_def Let_def)
    show "producer_buffered k ?s"
      using at True by (auto simp: producer_buffered_def weak_producer_commit_end_def fence_done_def Let_def)
    show "consumer_buffered ?s"
      using inv(3) consumer_buffered_cong [of ?s s] by (simp add: weak_producer_commit_end_def Let_def)
    show "producer_woken k ?s"
      using inv(4) True by (auto simp: producer_woken_def weak_producer_commit_end_def fence_done_def Let_def)
    show "consumer_woken ?s"
      using inv(5) at True by (auto simp: consumer_woken_def weak_producer_commit_end_def fence_done_def Let_def word_greater_zero_iff)
  qed
qed

lemma set_leave: "set (leave buf n) \<subseteq> set buf"
  by (auto simp: leave_def dest: in_set_takeD in_set_dropD)

lemma unreleased_leave:
  assumes "can_leave buf n" "buf = slots @ [st]" "is_release st" "\<not> is_release (buf ! n)"
  shows "leave buf n = leave slots n @ [st]"
proof -
  have "n < length slots" using assms by (auto simp: can_leave_def nth_append less_Suc_eq split: if_splits)
  then show ?thesis using assms(2) by (simp add: leave_def)
qed

lemma sim_producer_release:
  assumes "weak_inv k s" "can_leave (w_pbuf s) n" "is_release (w_pbuf s ! n)"
  shows "weak_sim k s ([], [], s\<lparr>w_mem := apply_store (w_pbuf s ! n) (w_mem s), w_pbuf := leave (w_pbuf s) n\<rparr>)"
proof -
  note inv = weak_invD [OF assms(1)]
  have n: "n = 0" "w_pbuf s \<noteq> []" using assms(2,3) by (auto simp: can_leave_def)
  have "\<not> is_slot (hd (w_pbuf s))" "hd (w_pbuf s) \<in> set (w_pbuf s)" "hd (w_pbuf s) \<noteq> St_cons_limit (p_prod (w_producer s) - 2 ^ k)"
    using assms(3) n by (auto simp: hd_conv_nth neq_Nil_conv elim: is_slot.elims)
  then have pc: "w_ppc s = At_commit_fence" and at: "p_last_published_prod (w_producer s) \<noteq> p_prod (w_producer s)"
    "p_last_published_prod (w_producer s) = sh_prod (w_mem s)" "w_pbuf s = [St_prod (p_prod (w_producer s))]"
    using inv(2) n(2) by (auto simp: producer_buffered_def Let_def Cons_eq_append_conv neq_Nil_conv split: actor_pc.splits)
  let ?s = "s\<lparr>w_mem := apply_store (w_pbuf s ! n) (w_mem s), w_pbuf := leave (w_pbuf s) n\<rparr>"
  have s': "?s = s\<lparr>w_mem := (w_mem s)\<lparr>sh_prod := p_prod (w_producer s)\<rparr>, w_pbuf := []\<rparr>"
    using n(1) at(3) by (simp add: leave_def)
  have "sh_prod_limit (view (w_cbuf s) ((w_mem s)\<lparr>sh_prod := v\<rparr>)) = sh_prod_limit (view (w_cbuf s) (w_mem s))" for v
    using inv(3) by (auto simp: consumer_buffered_def Let_def split: actor_pc.splits)
  then have "uni_step Producer_commit (weak_abs s) = ([], [], weak_abs ?s)"
    using at unfolding s' by (auto simp: producer_commit_def weak_abs_def Let_def intro!: uni_producer.equality)
  then show ?thesis
  proof (rule weak_sim_one [OF assms(1)])
    show "producer_buffered k ?s" unfolding s' using at pc by (auto simp: producer_buffered_def Let_def)
    show "consumer_buffered ?s" using inv(3) consumer_buffered_cong [of ?s s] unfolding s' by simp
    show "producer_woken k ?s" "consumer_woken ?s"
      using inv(4,5) at pc unfolding s' by (auto simp: producer_woken_def consumer_woken_def Let_def)
  qed
qed

lemma sim_producer_leave:
  assumes "weak_inv k s" "can_leave (w_pbuf s) n" "\<not> is_release (w_pbuf s ! n)"
  shows "weak_sim k s ([], [], s\<lparr>w_mem := apply_store (w_pbuf s ! n) (w_mem s), w_pbuf := leave (w_pbuf s) n\<rparr>)"
proof (rule weak_sim_nothing [OF assms(1)])
  note inv = weak_invD [OF assms(1)]
  let ?st = "w_pbuf s ! n"
  let ?s = "s\<lparr>w_mem := apply_store ?st (w_mem s), w_pbuf := leave (w_pbuf s) n\<rparr>"
  have n: "n < length (w_pbuf s)" using assms(2) by (simp add: can_leave_def)
  have st: "is_slot ?st \<or> ?st = St_cons_limit (p_prod (w_producer s) - 2 ^ k) \<and> w_ppc s = At_checkout_fence"
    using inv(2) assms(3) nth_mem [OF n]
    by (auto simp: producer_buffered_def Let_def split: actor_pc.splits)
  have mem: "sh_prod (apply_store ?st (w_mem s)) = sh_prod (w_mem s)" "sh_cons (apply_store ?st (w_mem s)) = sh_cons (w_mem s)"
    "sh_prod_limit (apply_store ?st (w_mem s)) = sh_prod_limit (w_mem s)"
    "is_slot ?st \<Longrightarrow> sh_cons_limit (apply_store ?st (w_mem s)) = sh_cons_limit (w_mem s)"
    "sh_prod_limit (view (w_cbuf s) (apply_store ?st (w_mem s))) = sh_prod_limit (view (w_cbuf s) (w_mem s))"
    using st inv(3) by (cases ?st; auto simp: consumer_buffered_def Let_def split: actor_pc.splits)+
  show "weak_abs ?s = weak_abs s"
    by (auto simp: weak_abs_def Let_def view_leave [OF assms(2)] mem intro!: uni_shared.equality)
  show "producer_buffered k ?s"
  proof (cases "w_ppc s = At_commit_fence")
    case False
    then show ?thesis
      using inv(2) set_leave [of "w_pbuf s" n]
      by (cases "w_ppc s") (auto simp: producer_buffered_def Let_def mem view_leave [OF assms(2)])
  next
    case True
    then obtain slots where slots: "w_pbuf s = slots @ [St_prod (p_prod (w_producer s))]" "\<forall>st \<in> set slots. is_slot st"
      "p_last_published_prod (w_producer s) \<noteq> p_prod (w_producer s)" "p_last_published_prod (w_producer s) = sh_prod (w_mem s)"
      using inv(2) n by (auto simp: producer_buffered_def Let_def)
    have "leave (w_pbuf s) n = leave slots n @ [St_prod (p_prod (w_producer s))]"
      by (rule unreleased_leave [OF assms(2) slots(1) _ assms(3)]) simp
    then show ?thesis
      using inv(2) True slots set_leave [of slots n] mem(1) [unfolded slots(1)]
      by (auto simp: producer_buffered_def Let_def; blast)
  qed
  show "consumer_buffered ?s" using inv(3) consumer_buffered_cong [of ?s s] mem by simp
  show "producer_woken k ?s" using inv(4) st mem by (auto simp: producer_woken_def Let_def)
  show "consumer_woken ?s" using inv(5) n mem by (auto simp: consumer_woken_def Let_def)
qed

subsection \<open>Steps of the consumer\<close>

lemma sim_consumer_checkout:
  assumes "weak_inv k s" "w_cpc s = Ready"
  shows "weak_sim k s ([], [], weak_consumer_checkout s)"
proof -
  note inv = weak_invD [OF assms(1)] and look = weak_consumer_look [OF assms(1)]
  let ?s = "weak_consumer_checkout s"
  have ready: "w_cbuf s = []" "c_last_published_cons (w_consumer s) = sh_cons (w_mem s)"
    using inv(3) assms(2) by (simp_all add: consumer_buffered_def Let_def)
  have "uni_step Consumer_checkout (weak_abs s) = ([], [], weak_abs ?s)"
    using ready look unfolding uni_consumer_checkout [OF inv(1)]
    by (auto simp: weak_consumer_checkout_def weak_abs_def Let_def intro!: uni_consumer.equality)
  then show ?thesis
  proof (rule weak_sim_one [OF assms(1)])
    show "producer_buffered k ?s"
      using inv(2) producer_buffered_cong [of ?s s] by (auto simp: weak_consumer_checkout_def look Let_def)
    show "consumer_buffered ?s"
      using ready assms(2) look by (auto simp: consumer_buffered_def weak_consumer_checkout_def Let_def)
    show "producer_woken k ?s" "consumer_woken ?s"
      using inv(4) assms(2)
      by (auto simp: producer_woken_def consumer_woken_def weak_consumer_checkout_def look Let_def)
  qed
qed

lemma sim_consumer_checkout_again:
  assumes "weak_inv k s" "w_cpc s = At_checkout_fence"
  shows "weak_sim k s ([], [], weak_consumer_checkout_again True s)"
proof (cases "w_cbuf s = []")
  case False
  then show ?thesis
    using assms(1) weak_invD [OF assms(1)]
    by (auto simp: weak_consumer_checkout_again_def fence_done_def intro!: weak_sim_nothing)
next
  case True
  note inv = weak_invD [OF assms(1)]
  let ?s = "weak_consumer_checkout_again True s"
  have at: "c_last_published_cons (w_consumer s) = sh_cons (w_mem s)" "c_cons_end (w_consumer s) = c_cons (w_consumer s)"
    "sh_prod_limit (w_mem s) = c_cons (w_consumer s)"
    using inv(3) assms(2) True by (auto simp: consumer_buffered_def Let_def)
  have look: "consumer_checkout_helper (w_consumer s) (w_mem s) =
    (sh_prod (w_mem s) \<noteq> c_cons (w_consumer s), (w_consumer s)\<lparr>c_cons_end := sh_prod (w_mem s)\<rparr>)"
    using weak_consumer_look [OF assms(1)] True by simp
  have "uni_step Consumer_checkout (weak_abs s) = ([], [], weak_abs ?s)"
    using at True unfolding uni_consumer_checkout [OF inv(1)]
    by (auto simp: weak_consumer_checkout_again_def fence_done_def look weak_abs_def Let_def intro!: uni_consumer.equality)
  then show ?thesis
  proof (rule weak_sim_one [OF assms(1)])
    show "producer_buffered k ?s"
      using inv(2) producer_buffered_cong [of ?s s] True
      by (auto simp: weak_consumer_checkout_again_def fence_done_def look Let_def)
    show "consumer_buffered ?s"
      using at True by (auto simp: consumer_buffered_def weak_consumer_checkout_again_def fence_done_def look Let_def)
    show "producer_woken k ?s" "consumer_woken ?s"
      using inv(4) assms(2) at True
      by (auto simp: producer_woken_def consumer_woken_def weak_consumer_checkout_again_def fence_done_def look Let_def)
  qed
qed

lemma view_slot_unstored:
  "\<forall>st \<in> set buf. location_of st \<noteq> At_slot i \<Longrightarrow> sh_array (view buf mem) ! i = sh_array mem ! i"
proof (induction buf arbitrary: mem)
  case (Cons st buf)
  then have "sh_array (apply_store st mem) ! i = sh_array mem ! i" by (cases st) auto
  then show ?case using Cons by simp
qed simp

text \<open>A slot that the consumer may read is not in the buffer of the producer.\<close>

lemma consumer_slot_visible:
  assumes "weak_inv k s" "c_cons (w_consumer s) \<noteq> c_cons_end (w_consumer s)"
  shows "sh_array (view (w_pbuf s) (w_mem s)) ! (unat (c_cons (w_consumer s)) mod 2 ^ k) =
    sh_array (w_mem s) ! (unat (c_cons (w_consumer s)) mod 2 ^ k)"
proof (rule view_slot_unstored, intro ballI notI)
  fix st assume st: "st \<in> set (w_pbuf s)" "location_of st = At_slot (unat (c_cons (w_consumer s)) mod 2 ^ k)"
  note inv = weak_invD [OF assms(1)] and cap = weak_abs_k [OF assms(1)] and dist = uni_wf_dist [OF weak_invD(1) [OF assms(1)]]
  let ?C = "c_cons (w_consumer s)" and ?pr = "sh_prod (w_mem s)" and ?P = "p_prod (w_producer s)"
  obtain m where "St_slot (unat ?C mod 2 ^ k) m \<in> set (w_pbuf s)" by (cases st) (use st in auto)
  then obtain j where j: "j < unat (?P - ?pr)" "unat ?C mod 2 ^ k = (unat ?pr + j) mod 2 ^ k"
    using inv(2) unfolding producer_buffered_def Let_def by blast
  have "unat ?pr mod 2 ^ k = (unat ?C + unat (?pr - ?C)) mod 2 ^ k"
    using unat_diff_mod [of k ?pr ?C] cap(1) by (simp add: mod_simps)
  then have eq: "(unat ?C + 0) mod 2 ^ k = (unat ?C + (unat (?pr - ?C) + j)) mod 2 ^ k"
    using j(2) by (metis add.assoc add.right_neutral mod_add_left_eq)
  have "unat (?pr - ?C) + j < 2 ^ k" using dist(2,5) dist(1) j(1) by simp
  then have "0 = unat (?pr - ?C) + j" by (rule mod_add_inj [OF eq, rotated]) simp
  then have "unat (c_cons_end (w_consumer s) - ?C) = 0" using dist(1) by simp
  then show False using assms(2) by (simp add: unat_eq_zero)
qed

lemma sim_consume:
  assumes "weak_inv k s" "w_cpc s = Ready" "weak_consumer_consume s = (m, s')"
  shows "weak_sim k s ([], case m of None \<Rightarrow> [] | Some x \<Rightarrow> [x], s')"
proof -
  note inv = weak_invD [OF assms(1)] and cap = weak_abs_k [OF assms(1)]
  have ready: "w_cbuf s = []" "c_last_published_cons (w_consumer s) = sh_cons (w_mem s)"
    using inv(3) assms(2) by (simp_all add: consumer_buffered_def Let_def)
  have step: "uni_step Consume (weak_abs s) = ([], case m of None \<Rightarrow> [] | Some x \<Rightarrow> [x], weak_abs s')"
    using assms(3) ready cap(1,3) consumer_slot_visible [OF assms(1)]
    by (auto simp: consumer_consume_def weak_consumer_consume_def weak_abs_def Let_def and_pow2_minus_1
        intro!: uni_consumer.equality split: if_splits)
  have s': "\<exists>n. s' = s\<lparr>w_consumer := (w_consumer s)\<lparr>c_cons := n\<rparr>\<rparr> \<and> (n = c_cons (w_consumer s) \<or> c_cons_end (w_consumer s) \<noteq> c_cons (w_consumer s))"
    using assms(3) by (auto simp: weak_consumer_consume_def consumer_consume_def Let_def split: if_splits)
  show ?thesis
  proof (rule weak_sim_one [OF assms(1) step])
    show "producer_buffered k s'" using inv(2) producer_buffered_cong [of s' s] s' by auto
    show "consumer_buffered s'" using ready assms(2) s' by (auto simp: consumer_buffered_def Let_def)
    show "producer_woken k s'" "consumer_woken s'"
      using inv(4,5) assms(2) s' by (auto simp: producer_woken_def consumer_woken_def Let_def)
  qed
qed

lemma sim_consumer_commit:
  assumes "weak_inv k s" "w_cpc s = Ready"
  shows "weak_sim k s ([], [], weak_consumer_commit s)"
proof (rule weak_sim_nothing [OF assms(1)])
  note inv = weak_invD [OF assms(1)]
  let ?s = "weak_consumer_commit s"
  have ready: "w_cbuf s = []" "c_last_published_cons (w_consumer s) = sh_cons (w_mem s)"
    using inv(3) assms(2) by (simp_all add: consumer_buffered_def Let_def)
  show "weak_abs ?s = weak_abs s" using ready by (simp add: weak_abs_def weak_consumer_commit_def Let_def)
  show "producer_buffered k ?s"
    using inv(2) producer_buffered_cong [of ?s s] by (simp add: weak_consumer_commit_def Let_def)
  show "consumer_buffered ?s"
    using inv(3) ready assms(2) by (auto simp: consumer_buffered_def weak_consumer_commit_def Let_def)
  show "producer_woken k ?s" "consumer_woken ?s"
    using inv(4,5) assms(2) by (auto simp: producer_woken_def consumer_woken_def weak_consumer_commit_def Let_def)
qed

lemma sim_consumer_commit_end:
  assumes "weak_inv k s" "w_cpc s = At_commit_fence"
  shows "weak_sim k s ([], [], weak_consumer_commit_end True s)"
proof (cases "w_cbuf s = []")
  case False
  then show ?thesis
    using assms(1) weak_invD [OF assms(1)]
    by (auto simp: weak_consumer_commit_end_def fence_done_def intro!: weak_sim_nothing)
next
  case True
  note inv = weak_invD [OF assms(1)]
  let ?s = "weak_consumer_commit_end True s"
  have at: "c_last_published_cons (w_consumer s) \<noteq> c_cons (w_consumer s)" "sh_cons (w_mem s) = c_cons (w_consumer s)"
    using inv(3) assms(2) True by (auto simp: consumer_buffered_def Let_def)
  show ?thesis
  proof (rule weak_sim_nothing [OF assms(1)])
    show "weak_abs ?s = weak_abs s" by (simp add: weak_abs_def weak_consumer_commit_end_def Let_def)
    show "producer_buffered k ?s"
      using inv(2) producer_buffered_cong [of ?s s] by (simp add: weak_consumer_commit_end_def Let_def)
    show "consumer_buffered ?s"
      using at True by (auto simp: consumer_buffered_def weak_consumer_commit_end_def fence_done_def Let_def)
    show "producer_woken k ?s"
      using inv(4) at True by (auto simp: producer_woken_def weak_consumer_commit_end_def fence_done_def Let_def word_greater_zero_iff)
    show "consumer_woken ?s"
      using inv(5) True by (auto simp: consumer_woken_def weak_consumer_commit_end_def fence_done_def Let_def)
  qed
qed

lemma sim_consumer_release:
  assumes "weak_inv k s" "w_cbuf s = [St_cons v]"
  shows "weak_sim k s ([], [], s\<lparr>w_mem := (w_mem s)\<lparr>sh_cons := v\<rparr>, w_cbuf := []\<rparr>)"
proof -
  note inv = weak_invD [OF assms(1)]
  let ?s = "s\<lparr>w_mem := (w_mem s)\<lparr>sh_cons := v\<rparr>, w_cbuf := []\<rparr>"
  have at: "w_cpc s = At_commit_fence" "c_last_published_cons (w_consumer s) \<noteq> c_cons (w_consumer s)"
    "c_last_published_cons (w_consumer s) = sh_cons (w_mem s)" "v = c_cons (w_consumer s)"
    using inv(3) assms(2) by (auto simp: consumer_buffered_def Let_def split: actor_pc.splits)
  have view: "view (w_pbuf s) ((w_mem s)\<lparr>sh_cons := v\<rparr>) = (view (w_pbuf s) (w_mem s))\<lparr>sh_cons := v\<rparr>"
    using view_commute [of "w_pbuf s" "St_cons v"] producer_stores [OF inv(2)] by simp
  have "uni_step Consumer_commit (weak_abs s) = ([], [], weak_abs ?s)"
    using at assms(2) view by (auto simp: consumer_commit_def weak_abs_def Let_def intro!: uni_consumer.equality)
  then show ?thesis
  proof (rule weak_sim_one [OF assms(1)])
    show "producer_buffered k ?s" using inv(2) producer_buffered_cong [of ?s s] view by simp
    show "consumer_buffered ?s" using at by (auto simp: consumer_buffered_def Let_def)
    show "producer_woken k ?s" "consumer_woken ?s"
      using inv(4,5) at by (auto simp: producer_woken_def consumer_woken_def Let_def)
  qed
qed

lemma sim_consumer_limit:
  assumes "weak_inv k s" "w_cbuf s = [St_prod_limit v]"
  shows "weak_sim k s ([], [], s\<lparr>w_mem := (w_mem s)\<lparr>sh_prod_limit := v\<rparr>, w_cbuf := []\<rparr>)"
proof (rule weak_sim_nothing [OF assms(1)])
  note inv = weak_invD [OF assms(1)]
  let ?s = "s\<lparr>w_mem := (w_mem s)\<lparr>sh_prod_limit := v\<rparr>, w_cbuf := []\<rparr>"
  have at: "w_cpc s = At_checkout_fence" "c_last_published_cons (w_consumer s) = sh_cons (w_mem s)" "v = c_cons (w_consumer s)"
    "c_cons_end (w_consumer s) = c_cons (w_consumer s)"
    using inv(3) assms(2) by (auto simp: consumer_buffered_def Let_def split: actor_pc.splits)
  have view: "view (w_pbuf s) ((w_mem s)\<lparr>sh_prod_limit := v\<rparr>) = (view (w_pbuf s) (w_mem s))\<lparr>sh_prod_limit := v\<rparr>"
    using view_commute [of "w_pbuf s" "St_prod_limit v"] producer_stores [OF inv(2)] by simp
  show "weak_abs ?s = weak_abs s" using assms(2) view by (simp add: weak_abs_def Let_def)
  show "producer_buffered k ?s" using inv(2) producer_buffered_cong [of ?s s] view by simp
  show "consumer_buffered ?s" using at by (auto simp: consumer_buffered_def Let_def)
  show "producer_woken k ?s" "consumer_woken ?s"
    using inv(4,5) at by (auto simp: producer_woken_def consumer_woken_def Let_def)
qed

lemma consumer_buffer_cases:
  assumes "consumer_buffered s" "can_leave (w_cbuf s) n"
  obtains v where "w_cbuf s = [St_cons v]" "n = 0" | v where "w_cbuf s = [St_prod_limit v]" "n = 0"
  using assms by (auto simp: consumer_buffered_def can_leave_def Let_def split: actor_pc.splits)

subsection \<open>Every step\<close>

lemma weak_step_sim:
  assumes "weak_inv k s"
  shows "weak_sim k s (weak_step True e s)"
proof -
  note inv = weak_invD [OF assms]
  have still: "weak_sim k s ([], [], s)" using assms inv by (intro weak_sim_nothing) simp_all
  show ?thesis
  proof (cases e)
    case (P_produce m)
    obtain ok s' where call: "weak_producer_produce m s = (ok, s')" by (cases "weak_producer_produce m s")
    then show ?thesis
      using sim_produce [OF assms _ call] P_produce call by (simp add: still)
  next
    case P_continue
    then show ?thesis
      using sim_producer_checkout_again [OF assms] sim_producer_commit_end [OF assms] still by (cases "w_ppc s") simp_all
  next
    case (P_leave n)
    then show ?thesis using sim_producer_release [OF assms] sim_producer_leave [OF assms] still by auto
  next
    case P_notified
    have "weak_sim k s ([], [], s\<lparr>w_p_notified := False, w_p_asked := False\<rparr>)"
      using assms inv
      by (intro weak_sim_nothing)
        (auto simp: weak_abs_def producer_woken_def consumer_woken_def Let_def cong: producer_buffered_cong consumer_buffered_cong)
    then show ?thesis using P_notified still by simp
  next
    case C_consume
    obtain m s' where call: "weak_consumer_consume s = (m, s')" by (cases "weak_consumer_consume s")
    then show ?thesis
      using sim_consume [OF assms _ call] C_consume call by (simp add: still)
  next
    case C_continue
    then show ?thesis
      using sim_consumer_checkout_again [OF assms] sim_consumer_commit_end [OF assms] still by (cases "w_cpc s") simp_all
  next
    case (C_leave n)
    then show ?thesis
      using sim_consumer_release [OF assms] sim_consumer_limit [OF assms] still
      by (cases "can_leave (w_cbuf s) n") (auto simp: leave_def elim!: consumer_buffer_cases [OF inv(3)])
  next
    case C_notified
    have "weak_sim k s ([], [], s\<lparr>w_c_notified := False, w_c_asked := False\<rparr>)"
      using assms inv
      by (intro weak_sim_nothing)
        (auto simp: weak_abs_def producer_woken_def consumer_woken_def Let_def cong: producer_buffered_cong consumer_buffered_cong)
    then show ?thesis using C_notified still by simp
  qed (use sim_producer_checkout [OF assms] sim_producer_commit [OF assms] sim_consumer_checkout [OF assms]
      sim_consumer_commit [OF assms] still in \<open>simp_all\<close>)
qed

text \<open>The ring of accesses is a channel: the interleavings of its accesses keep the contract.\<close>

lemma weak_step_fifo:
  assumes "weak_inv k s" "weak_step True e s = (a, d, s')"
  shows "weak_inv k s'" "uni_content (weak_abs s) @ a = d @ uni_content (weak_abs s')"
proof -
  obtain ops where "weak_inv k s'" "run_steps uni_step ops (weak_abs s) = (a, d, weak_abs s')"
    using weak_step_sim [OF assms(1), of e] assms(2) by (auto simp: weak_sim_def)
  then show "weak_inv k s'" "uni_content (weak_abs s) @ a = d @ uni_content (weak_abs s')"
    using uni.run_invar_fifo [of k "weak_abs s" ops] assms(1) by (simp_all add: weak_inv_def)
qed

lemma weak_content_bound: "weak_inv k s \<Longrightarrow> length (uni_content (weak_abs s)) \<le> 2 ^ k"
  by (simp add: weak_inv_def uni_content_bound)

interpretation weak: fifo_machine "weak_inv k" "\<lambda>s. uni_content (weak_abs s)" "\<lambda>_. 2 ^ k" "weak_step True"
  by unfold_locales (use weak_step_fifo weak_content_bound in blast)+

lemma weak_run_sim:
  assumes "weak_inv k s"
  shows "weak_sim k s (run_steps (weak_step True) es s)"
  using assms
proof (induction es arbitrary: s)
  case Nil
  then show ?case by (auto simp: weak_sim_def intro: exI [of _ "[]"])
next
  case (Cons e es)
  obtain a d s1 where step: "weak_step True e s = (a, d, s1)" by (cases "weak_step True e s")
  then obtain ops where ops: "weak_inv k s1" "run_steps uni_step ops (weak_abs s) = (a, d, weak_abs s1)"
    using weak_step_sim [OF Cons.prems, of e] by (auto simp: weak_sim_def)
  obtain a' d' s2 where run: "run_steps (weak_step True) es s1 = (a', d', s2)" by (cases "run_steps (weak_step True) es s1")
  then obtain ops' where ops': "weak_inv k s2" "run_steps uni_step ops' (weak_abs s1) = (a', d', weak_abs s2)"
    using Cons.IH [OF ops(1)] by (auto simp: weak_sim_def)
  have "run_steps uni_step (ops @ ops') (weak_abs s) = (a @ a', d @ d', weak_abs s2)"
    using ops(2) ops'(2) by (simp add: run_steps_append)
  then show ?case using step run ops'(1) by (auto simp: weak_sim_def)
qed

lemma weak_abs_initial: "weak_abs (weak_initial k arr) = uni_initial k arr"
  by (simp add: weak_abs_def weak_initial_def uni_initial_def uni_shared_init_def Let_def)

lemma weak_initial_inv:
  assumes "k < 32" "length arr = 2 ^ k"
  shows "weak_inv k (weak_initial k arr)"
  using uni_initial_wf [OF assms]
  by (simp add: weak_inv_def weak_abs_initial)
    (simp add: weak_initial_def uni_initial_def uni_shared_init_def producer_buffered_def consumer_buffered_def producer_woken_def
      consumer_woken_def Let_def)

lemma weak_run:
  assumes "k < 32" "length arr = 2 ^ k" "run_steps (weak_step True) es (weak_initial k arr) = (a, d, s)"
  shows "weak_inv k s" "\<exists>ops. run_steps uni_step ops (uni_initial k arr) = (a, d, weak_abs s)" "a = d @ uni_content (weak_abs s)"
    "prefix d a \<and> length a \<le> length d + 2 ^ k"
proof -
  note start = weak_initial_inv [OF assms(1,2)] uni_initial_wf [OF assms(1,2)]
  show "weak_inv k s" "\<exists>ops. run_steps uni_step ops (uni_initial k arr) = (a, d, weak_abs s)"
    using weak_run_sim [OF start(1), of es] assms(3) by (auto simp: weak_sim_def weak_abs_initial)
  show "a = d @ uni_content (weak_abs s)"
    using weak.run_invar_fifo [OF start(1) assms(3)] start(2) by (simp add: weak_abs_initial)
  show "prefix d a \<and> length a \<le> length d + 2 ^ k"
    using weak.delivered_prefix [OF start(1) _ assms(3)] start(2) by (simp add: weak_abs_initial)
qed

subsection \<open>The correctness of the ring on processors that delay stores\<close>

text \<open>
  C3. Whatever the processors do with the stores within the order that the code asks for, and however the two actors' accesses
  interleave, the ring accepts and delivers what a ring with atomic operations accepts and delivers in some order of its
  operations: what the consumer gets is a prefix of what the producer has put in, with at most \<open>capacity\<close> messages under way.
\<close>

theorem weak_refines_atomic:
  assumes "k < 32" "length arr = 2 ^ k" "run_steps (weak_step True) es (weak_initial k arr) = (accepted, delivered, s)"
  shows "(\<exists>ops. run_steps uni_step ops (uni_initial k arr) = (accepted, delivered, weak_abs s)) \<and>
    prefix delivered accepted \<and> length accepted \<le> length delivered + 2 ^ k"
  using weak_run(2,4) [OF assms] by blast

text \<open>
  C14. No notification is lost. In every run, at a point where neither actor is inside its commit: a consumer that has asked
  for a notification and has none under way has seen all that is published, which is all that was accepted if the
  producer has committed what it produced; a producer that has asked and has none under way has a full ring before it; and
  when both have asked and none is notified, at least one of them has not committed what it produced or consumed.
\<close>

theorem weak_no_lost_wakeup:
  assumes "k < 32" "length arr = 2 ^ k" "run_steps (weak_step True) es (weak_initial k arr) = (accepted, delivered, s)"
    and "w_ppc s \<noteq> At_commit_fence" "w_cpc s \<noteq> At_commit_fence"
  defines "p \<equiv> w_producer s" and "c \<equiv> w_consumer s"
  defines "p_waits \<equiv> w_p_asked s \<and> \<not> w_p_notified s" and "c_waits \<equiv> w_c_asked s \<and> \<not> w_c_notified s"
  shows "(c_waits \<longrightarrow> sh_prod (w_mem s) = c_cons c) \<and>
    (c_waits \<and> p_last_published_prod p = p_prod p \<longrightarrow> delivered = accepted) \<and>
    (p_waits \<longrightarrow> p_prod p - sh_cons (w_mem s) = 2 ^ k) \<and>
    (c_waits \<and> p_waits \<longrightarrow> p_last_published_prod p \<noteq> p_prod p \<or> c_last_published_cons c \<noteq> c_cons c)"
proof -
  note inv = weak_invD [OF weak_run(1) [OF assms(1-3)]]
  have pub: "p_last_published_prod p = sh_prod (w_mem s)" "c_last_published_cons c = sh_cons (w_mem s)"
    using inv(2,3) assms(4,5)
    by (auto simp: producer_buffered_def consumer_buffered_def Let_def p_def c_def split: actor_pc.splits)
  have c: "c_waits \<longrightarrow> sh_prod (w_mem s) = c_cons c"
    using inv(5) assms(4) by (auto simp: consumer_woken_def Let_def c_waits_def c_def)
  have p: "p_waits \<longrightarrow> p_prod p - sh_cons (w_mem s) = 2 ^ k"
    using inv(4) assms(5) by (auto simp: producer_woken_def Let_def p_waits_def p_def)
  have "c_waits \<and> p_last_published_prod p = p_prod p \<longrightarrow> delivered = accepted"
    using weak_run(3) [OF assms(1-3)] c pub by (auto simp: uni_content_def p_def c_def)
  moreover have "(2 :: u32) ^ k \<noteq> 0" using assms(1) by (metis unat_0 unat_power2_u32 power_not_zero zero_neq_numeral)
  ultimately show ?thesis using c p pub by auto
qed

definition weak_exchange :: "nat weak_event list" where
  "weak_exchange =
     [P_produce 7, P_commit, P_leave 0, P_leave 0, P_continue, C_checkout, C_consume, C_commit, C_leave 0, C_continue, C_notified,
      C_checkout, C_continue, P_checkout, P_produce 8, P_commit, P_continue, P_leave 0, P_leave 0, C_leave 0, C_continue, P_continue]"

theorem weak_refines_atomic_witness:
  "case run_steps (weak_step True) weak_exchange (weak_initial 0 [0]) of
     (accepted, delivered, s) \<Rightarrow> accepted = [7, 8] \<and> delivered = [7] \<and> prefix delivered accepted"
proof -
  obtain a d s where run: "run_steps (weak_step True) weak_exchange (weak_initial 0 [0]) = (a, d, s)"
    by (cases "run_steps (weak_step True) weak_exchange (weak_initial 0 [0])")
  have "case run_steps (weak_step True) weak_exchange (weak_initial 0 [0]) of (a, d, s) \<Rightarrow> a = [7, 8] \<and> d = [7]"
    by code_simp
  then show ?thesis using weak_refines_atomic [OF _ _ run] run by simp
qed

theorem weak_no_lost_wakeup_witness:
  "case run_steps (weak_step True) (take 12 weak_exchange @ [C_leave 0, C_continue]) (weak_initial 0 [0]) of
     (accepted, delivered, s) \<Rightarrow> w_c_asked s \<and> accepted = [7] \<and> delivered = accepted \<and> sh_prod (w_mem s) = c_cons (w_consumer s)"
proof -
  let ?es = "take 12 weak_exchange @ [C_leave 0, C_continue]"
  obtain a d s where run: "run_steps (weak_step True) ?es (weak_initial 0 [0]) = (a, d, s)"
    by (cases "run_steps (weak_step True) ?es (weak_initial 0 [0])")
  have "case run_steps (weak_step True) ?es (weak_initial 0 [0]) of (a, d, s) \<Rightarrow>
      a = [7] \<and> w_c_asked s \<and> \<not> w_c_notified s \<and> w_ppc s = Ready \<and> w_cpc s = Ready \<and>
      p_last_published_prod (w_producer s) = p_prod (w_producer s)"
    by code_simp
  then show ?thesis using weak_no_lost_wakeup [OF _ _ run] run by simp
qed

text \<open>
  An operation of an actor that runs alone, with its stores reaching memory as it goes, is the operation of the ring with
  atomic operations, and it notifies the other actor when that operation says so.
\<close>

theorem weak_alone_is_atomic:
  assumes "w_ppc s = Ready" "w_pbuf s = []" "w_cpc s = Ready" "w_cbuf s = []"
  shows "run_steps (weak_step True) [P_checkout, P_leave 0, P_continue] s =
      (case producer_checkout id (w_producer s) (w_mem s) of
         (ok, p, sh) \<Rightarrow> ([], [], s\<lparr>w_producer := p, w_mem := sh, w_p_asked := \<not> ok\<rparr>)) \<and>
    run_steps (weak_step True) [P_produce m, P_leave 0] s =
      (case producer_produce (w_producer s) (w_mem s) m of
         (ok, p, sh) \<Rightarrow> (if ok then [m] else [], [], s\<lparr>w_producer := p, w_mem := sh\<rparr>)) \<and>
    run_steps (weak_step True) [P_commit, P_leave 0, P_continue] s =
      (case producer_commit (w_producer s) (w_mem s) of
         (notify, p, sh) \<Rightarrow> ([], [], s\<lparr>w_producer := p, w_mem := sh, w_c_notified := w_c_notified s \<or> notify\<rparr>)) \<and>
    run_steps (weak_step True) [C_checkout, C_leave 0, C_continue] s =
      (case consumer_checkout id (w_consumer s) (w_mem s) of
         (ok, c, sh) \<Rightarrow> ([], [], s\<lparr>w_consumer := c, w_mem := sh, w_c_asked := \<not> ok\<rparr>)) \<and>
    run_steps (weak_step True) [C_consume] s =
      (case consumer_consume (w_consumer s) (w_mem s) of
         (m, c) \<Rightarrow> ([], case m of None \<Rightarrow> [] | Some x \<Rightarrow> [x], s\<lparr>w_consumer := c\<rparr>)) \<and>
    run_steps (weak_step True) [C_commit, C_leave 0, C_continue] s =
      (case consumer_commit (w_consumer s) (w_mem s) of
         (notify, c, sh) \<Rightarrow> ([], [], s\<lparr>w_consumer := c, w_mem := sh, w_p_notified := w_p_notified s \<or> notify\<rparr>))"
proof (intro conjI)
  have release: "can_leave [st] 0" "leave [st] 0 = []" for st :: "'a store"
    by (simp_all add: can_leave_def leave_def)
  note defs = fence_done_def Let_def release
  show "run_steps (weak_step True) [P_checkout, P_leave 0, P_continue] s =
      (case producer_checkout id (w_producer s) (w_mem s) of
         (ok, p, sh) \<Rightarrow> ([], [], s\<lparr>w_producer := p, w_mem := sh, w_p_asked := \<not> ok\<rparr>))"
    using assms(1,2)
    by (auto simp: weak_producer_checkout_def weak_producer_checkout_again_def producer_checkout_def defs can_leave_def split: prod.splits)
  show "run_steps (weak_step True) [P_produce m, P_leave 0] s =
      (case producer_produce (w_producer s) (w_mem s) m of
         (ok, p, sh) \<Rightarrow> (if ok then [m] else [], [], s\<lparr>w_producer := p, w_mem := sh\<rparr>))"
    using assms(1,2) by (simp add: weak_producer_produce_def producer_produce_def defs can_leave_def)
  show "run_steps (weak_step True) [P_commit, P_leave 0, P_continue] s =
      (case producer_commit (w_producer s) (w_mem s) of
         (notify, p, sh) \<Rightarrow> ([], [], s\<lparr>w_producer := p, w_mem := sh, w_c_notified := w_c_notified s \<or> notify\<rparr>))"
    using assms(1,2) by (simp add: weak_producer_commit_def weak_producer_commit_end_def producer_commit_def defs can_leave_def)
  show "run_steps (weak_step True) [C_checkout, C_leave 0, C_continue] s =
      (case consumer_checkout id (w_consumer s) (w_mem s) of
         (ok, c, sh) \<Rightarrow> ([], [], s\<lparr>w_consumer := c, w_mem := sh, w_c_asked := \<not> ok\<rparr>))"
    using assms(3,4)
    by (auto simp: weak_consumer_checkout_def weak_consumer_checkout_again_def consumer_checkout_def defs can_leave_def split: prod.splits)
  show "run_steps (weak_step True) [C_consume] s =
      (case consumer_consume (w_consumer s) (w_mem s) of
         (m, c) \<Rightarrow> ([], case m of None \<Rightarrow> [] | Some x \<Rightarrow> [x], s\<lparr>w_consumer := c\<rparr>))"
    using assms(3,4) by (simp add: weak_consumer_consume_def split: prod.splits)
  show "run_steps (weak_step True) [C_commit, C_leave 0, C_continue] s =
      (case consumer_commit (w_consumer s) (w_mem s) of
         (notify, c, sh) \<Rightarrow> ([], [], s\<lparr>w_consumer := c, w_mem := sh, w_p_notified := w_p_notified s \<or> notify\<rparr>))"
    using assms(3,4) by (simp add: weak_consumer_commit_def weak_consumer_commit_end_def consumer_commit_def defs can_leave_def)
qed

theorem weak_alone_is_atomic_witness:
  "fst (run_steps (weak_step True) [P_produce 7, P_leave 0] (weak_initial 0 [0 :: nat])) = [7] \<and>
   run_steps (weak_step True) [C_consume] (weak_initial 0 [0 :: nat]) = ([], [], weak_initial 0 [0])"
proof -
  have "w_ppc (weak_initial 0 [0 :: nat]) = Ready" "w_pbuf (weak_initial 0 [0 :: nat]) = []"
    "w_cpc (weak_initial 0 [0 :: nat]) = Ready" "w_cbuf (weak_initial 0 [0 :: nat]) = []"
    by (simp_all add: weak_initial_def Let_def)
  from weak_alone_is_atomic [OF this, of 7] show ?thesis
    by (simp add: weak_initial_def uni_initial_def uni_shared_init_def producer_produce_def consumer_consume_def Let_def)
qed

lemma head_leaves: "can_leave (st # buf) 0" "leave (st # buf) 0 = buf"
  by (simp_all add: can_leave_def leave_def)

lemma producer_drains:
  "\<exists>s'. run_steps (weak_step True) (replicate (length (w_pbuf s)) (P_leave 0)) s = ([], [], s') \<and> w_pbuf s' = []"
proof (induction "w_pbuf s" arbitrary: s)
  case (Cons st buf)
  then show ?case
    using Cons.hyps(1) [of "s\<lparr>w_mem := apply_store st (w_mem s), w_pbuf := buf\<rparr>"]
    by (auto simp: head_leaves simp flip: Cons.hyps(2))
qed simp

lemma consumer_drains:
  "\<exists>s'. run_steps (weak_step True) (replicate (length (w_cbuf s)) (C_leave 0)) s = ([], [], s') \<and> w_cbuf s' = []"
proof (induction "w_cbuf s" arbitrary: s)
  case (Cons st buf)
  then show ?case
    using Cons.hyps(1) [of "s\<lparr>w_mem := apply_store st (w_mem s), w_cbuf := buf\<rparr>"]
    by (auto simp: head_leaves simp flip: Cons.hyps(2))
qed simp

text \<open>
  No operation waits for the other actor: once the stores that an actor has issued have reached memory, it goes on from the
  fence and its operation returns.
\<close>

theorem weak_calls_return:
  "(case run_steps (weak_step True) (replicate (length (w_pbuf s)) (P_leave 0) @ [P_continue]) s of
      (a, d, s') \<Rightarrow> w_ppc s' = Ready \<and> w_pbuf s' = []) \<and>
   (case run_steps (weak_step True) (replicate (length (w_cbuf s)) (C_leave 0) @ [C_continue]) s of
      (a, d, s') \<Rightarrow> w_cpc s' = Ready \<and> w_cbuf s' = [])"
proof -
  obtain p c where
    "run_steps (weak_step True) (replicate (length (w_pbuf s)) (P_leave 0)) s = ([], [], p)" "w_pbuf p = []"
    "run_steps (weak_step True) (replicate (length (w_cbuf s)) (C_leave 0)) s = ([], [], c)" "w_cbuf c = []"
    using producer_drains consumer_drains by metis
  then show ?thesis
    by (cases "w_ppc p"; cases "w_cpc c")
      (simp_all add: run_steps_append weak_producer_checkout_again_def weak_producer_commit_end_def
        weak_consumer_checkout_again_def weak_consumer_commit_end_def fence_done_def Let_def split: prod.splits)
qed

end
