(* ===== verification/PncRingBi.thy ===== *)
theory PncRingBi
  imports PncRing
begin

text \<open>
  The bidirectional ring buffer of \<open>include/misc/provencore/pnr_ring.h\<close>: the code that
  \<open>PNR_RING_GENERATE_BI(req_t, rsp_t, prefix)\<close> generates, for requests of type \<open>'q\<close> and responses of type
  \<open>'r\<close>. A client writes requests and a server overwrites each request it has read with its response. The same
  conventions hold as for the unidirectional ring.
\<close>

subsection \<open>The structures\<close>

text \<open>
  A slot is a \<open>union\<close>: the last member written. Reading the other member gives an unspecified value, as the selector
  of the other constructor does.
\<close>

datatype ('q, 'r) bi_msg = Request (msg_request: 'q) | Response (msg_response: 'r)

record ('q, 'r) bi_shared =
  bs_cprod :: u32
  bs_sprod_limit :: u32
  bs_sprod :: u32
  bs_cprod_limit :: u32
  bs_array :: "('q, 'r) bi_msg list"

text \<open>The structure that both \<open>client\<close> and \<open>server\<close> wrap. The client's \<open>cons\<close> is \<open>capacity\<close> ahead.\<close>

record bi_private =
  b_capacity :: u32
  b_prod :: u32
  b_last_published_prod :: u32
  b_cons :: u32
  b_cons_end :: u32

definition bi_shared_init :: "('q, 'r) bi_shared \<Rightarrow> ('q, 'r) bi_shared" where
  "bi_shared_init sh = sh\<lparr>bs_cprod := 0, bs_sprod_limit := 0, bs_sprod := 0, bs_cprod_limit := 0\<rparr>"

definition bi_capacity_to_shared_size :: "u64 \<Rightarrow> u64 \<Rightarrow> u64 \<Rightarrow> u64" where
  "bi_capacity_to_shared_size shared_sz msg_sz capacity = shared_sz + capacity * msg_sz"

definition bi_shared_size_to_capacity :: "u64 \<Rightarrow> u64 \<Rightarrow> u64 \<Rightarrow> u32" where
  "bi_shared_size_to_capacity shared_sz msg_sz sz =
     (if shared_sz \<le> sz then round_down_power2_index ((sz - shared_sz) div msg_sz) else 0)"

subsection \<open>The client\<close>

definition client_init :: "u64 \<Rightarrow> u64 \<Rightarrow> u64 \<Rightarrow> bool \<times> bi_private" where
  "client_init shared_sz msg_sz sz =
     (let capacity = bi_shared_size_to_capacity shared_sz msg_sz sz
      in (capacity \<noteq> 0,
          \<lparr>b_capacity = capacity, b_prod = 0, b_last_published_prod = 0, b_cons = capacity,
           b_cons_end = capacity\<rparr>))"

definition client_capacity :: "bi_private \<Rightarrow> u32" where
  "client_capacity c = b_capacity c"

definition client_checkout_helper :: "bi_private \<Rightarrow> ('q, 'r) bi_shared \<Rightarrow> bool \<times> bi_private" where
  "client_checkout_helper c sh =
     (let ccons = b_cons c;
          capacity = b_capacity c;
          real_ccons = ccons - capacity;
          sprod = bs_sprod sh;
          c = (if sprod - real_ccons \<le> b_last_published_prod c - real_ccons
               then c\<lparr>b_cons_end := sprod + capacity\<rparr> else c)
      in (b_cons_end c \<noteq> ccons, c))"

definition client_checkout ::
  "(('q, 'r) bi_shared \<Rightarrow> ('q, 'r) bi_shared) \<Rightarrow> bi_private \<Rightarrow> ('q, 'r) bi_shared
     \<Rightarrow> bool \<times> bi_private \<times> ('q, 'r) bi_shared" where
  "client_checkout peer c sh =
     (let (ok, c) = client_checkout_helper c sh
      in if ok then (True, c, sh)
         else
           let sh = sh\<lparr>bs_sprod_limit := b_cons_end c - b_capacity c\<rparr>;
               sh = peer sh;
               (ok, c) = client_checkout_helper c sh
           in (ok, c, sh))"

definition client_unconsumed :: "bi_private \<Rightarrow> u32" where
  "client_unconsumed c = b_cons_end c - b_cons c"

definition client_peek_cons :: "bi_private \<Rightarrow> nat option" where
  "client_peek_cons c =
     (let cons = b_cons c
      in if cons = b_cons_end c then None else Some (unat (cons AND (b_capacity c - 1))))"

definition client_advance_cons :: "bi_private \<Rightarrow> bi_private" where
  "client_advance_cons c = c\<lparr>b_cons := b_cons c + 1\<rparr>"

definition client_consume :: "bi_private \<Rightarrow> ('q, 'r) bi_shared \<Rightarrow> 'r option \<times> bi_private" where
  "client_consume c sh =
     (let cons = b_cons c
      in if cons = b_cons_end c then (None, c)
         else (Some (msg_response (bs_array sh ! unat (cons AND (b_capacity c - 1)))),
               c\<lparr>b_cons := cons + 1\<rparr>))"

definition client_free :: "bi_private \<Rightarrow> u32" where
  "client_free c = b_cons c - b_prod c"

definition client_peek_prod :: "bi_private \<Rightarrow> nat option" where
  "client_peek_prod c =
     (let prod = b_prod c
      in if prod = b_cons c then None else Some (unat (prod AND (b_capacity c - 1))))"

definition client_advance_prod :: "bi_private \<Rightarrow> bi_private" where
  "client_advance_prod c = c\<lparr>b_prod := b_prod c + 1\<rparr>"

definition client_produce ::
  "bi_private \<Rightarrow> ('q, 'r) bi_shared \<Rightarrow> 'q \<Rightarrow> bool \<times> bi_private \<times> ('q, 'r) bi_shared" where
  "client_produce c sh req =
     (let prod = b_prod c
      in if prod = b_cons c then (False, c, sh)
         else (True, c\<lparr>b_prod := prod + 1\<rparr>,
               sh\<lparr>bs_array := (bs_array sh)[unat (prod AND (b_capacity c - 1)) := Request req]\<rparr>))"

definition client_commit ::
  "bi_private \<Rightarrow> ('q, 'r) bi_shared \<Rightarrow> bool \<times> bi_private \<times> ('q, 'r) bi_shared" where
  "client_commit c sh =
     (let last_published_prod = b_last_published_prod c;
          prod = b_prod c
      in if prod = last_published_prod then (False, c, sh)
         else (bs_cprod_limit sh - last_published_prod < prod - last_published_prod,
               c\<lparr>b_last_published_prod := prod\<rparr>,
               sh\<lparr>bs_cprod := prod\<rparr>))"

subsection \<open>The server\<close>

definition server_init :: "u64 \<Rightarrow> u64 \<Rightarrow> u64 \<Rightarrow> bool \<times> bi_private" where
  "server_init shared_sz msg_sz sz =
     (let capacity = bi_shared_size_to_capacity shared_sz msg_sz sz
      in (capacity \<noteq> 0,
          \<lparr>b_capacity = capacity, b_prod = 0, b_last_published_prod = 0, b_cons = 0, b_cons_end = 0\<rparr>))"

definition server_capacity :: "bi_private \<Rightarrow> u32" where
  "server_capacity s = b_capacity s"

definition server_checkout_helper :: "bi_private \<Rightarrow> ('q, 'r) bi_shared \<Rightarrow> bool \<times> bi_private" where
  "server_checkout_helper s sh =
     (let scons = b_cons s;
          cprod = bs_cprod sh;
          s = (if cprod - scons \<le> b_last_published_prod s + b_capacity s - scons
               then s\<lparr>b_cons_end := cprod\<rparr> else s)
      in (b_cons_end s \<noteq> scons, s))"

definition server_checkout ::
  "(('q, 'r) bi_shared \<Rightarrow> ('q, 'r) bi_shared) \<Rightarrow> bi_private \<Rightarrow> ('q, 'r) bi_shared
     \<Rightarrow> bool \<times> bi_private \<times> ('q, 'r) bi_shared" where
  "server_checkout peer s sh =
     (let (ok, s) = server_checkout_helper s sh
      in if ok then (True, s, sh)
         else
           let sh = sh\<lparr>bs_cprod_limit := b_cons_end s\<rparr>;
               sh = peer sh;
               (ok, s) = server_checkout_helper s sh
           in (ok, s, sh))"

definition server_unconsumed :: "bi_private \<Rightarrow> u32" where
  "server_unconsumed s = b_cons_end s - b_cons s"

definition server_peek_cons :: "bi_private \<Rightarrow> nat option" where
  "server_peek_cons s =
     (let cons = b_cons s
      in if cons = b_cons_end s then None else Some (unat (cons AND (b_capacity s - 1))))"

definition server_advance_cons :: "bi_private \<Rightarrow> bi_private" where
  "server_advance_cons s = s\<lparr>b_cons := b_cons s + 1\<rparr>"

definition server_consume :: "bi_private \<Rightarrow> ('q, 'r) bi_shared \<Rightarrow> 'q option \<times> bi_private" where
  "server_consume s sh =
     (let cons = b_cons s
      in if cons = b_cons_end s then (None, s)
         else (Some (msg_request (bs_array sh ! unat (cons AND (b_capacity s - 1)))),
               s\<lparr>b_cons := cons + 1\<rparr>))"

definition server_free :: "bi_private \<Rightarrow> u32" where
  "server_free s = b_cons s - b_prod s"

definition server_peek_prod :: "bi_private \<Rightarrow> nat option" where
  "server_peek_prod s =
     (let prod = b_prod s
      in if prod = b_cons s then None else Some (unat (prod AND (b_capacity s - 1))))"

definition server_advance_prod :: "bi_private \<Rightarrow> bi_private" where
  "server_advance_prod s = s\<lparr>b_prod := b_prod s + 1\<rparr>"

definition server_produce ::
  "bi_private \<Rightarrow> ('q, 'r) bi_shared \<Rightarrow> 'r \<Rightarrow> bool \<times> bi_private \<times> ('q, 'r) bi_shared" where
  "server_produce s sh rsp =
     (let prod = b_prod s
      in if prod = b_cons s then (False, s, sh)
         else (True, s\<lparr>b_prod := prod + 1\<rparr>,
               sh\<lparr>bs_array := (bs_array sh)[unat (prod AND (b_capacity s - 1)) := Response rsp]\<rparr>))"

definition server_commit ::
  "bi_private \<Rightarrow> ('q, 'r) bi_shared \<Rightarrow> bool \<times> bi_private \<times> ('q, 'r) bi_shared" where
  "server_commit s sh =
     (let last_published_prod = b_last_published_prod s;
          prod = b_prod s
      in if prod = last_published_prod then (False, s, sh)
         else (bs_sprod_limit sh - last_published_prod < prod - last_published_prod,
               s\<lparr>b_last_published_prod := prod\<rparr>,
               sh\<lparr>bs_sprod := prod\<rparr>))"

end
