(* ===== verification/PncRingBi_Fifo.thy ===== *)
theory PncRingBi_Fifo
  imports PncRingBi PncRing_Fifo
begin

text \<open>
  Correctness of the bidirectional ring: the invariant of a client, a server and their shared structure, the three
  queues that the ring holds (requests to read, requests read and not answered, responses to read), the channel
  contract interpreted on each of them, and what the actors keep against a peer that breaks the protocol.
\<close>

subsection \<open>The ring of both actors\<close>

record ('q, 'r) bi_ring =
  br_client :: bi_private
  br_server :: bi_private
  br_shared :: "('q, 'r) bi_shared"

text \<open>
  From the client's read index, \<open>capacity\<close> behind \<open>cons\<close>, the indices \<open>cons_end\<close>, \<open>sprod\<close>, the server's \<open>prod\<close>,
  \<open>cons\<close> and \<open>cons_end\<close>, \<open>cprod\<close> and the client's \<open>prod\<close> follow each other, over at most \<open>capacity\<close> slots.
\<close>

definition bi_wf :: "nat \<Rightarrow> ('q, 'r) bi_ring \<Rightarrow> bool" where
  "bi_wf k r \<longleftrightarrow>
     (let c = br_client r; s = br_server r; sh = br_shared r
      in k < 32 \<and> b_capacity c = 2 ^ k \<and> b_capacity s = 2 ^ k \<and> length (bs_array sh) = 2 ^ k \<and>
         b_last_published_prod c = bs_cprod sh \<and> b_last_published_prod s = bs_sprod sh \<and>
         unat (b_cons_end c - b_cons c) + unat (bs_sprod sh - (b_cons_end c - 2 ^ k)) +
           unat (b_prod s - bs_sprod sh) + unat (b_cons s - b_prod s) +
           unat (b_cons_end s - b_cons s) + unat (bs_cprod sh - b_cons_end s) +
           unat (b_prod c - bs_cprod sh) \<le> 2 ^ k)"

definition bi_requests :: "('q, 'r) bi_ring \<Rightarrow> 'q list" where
  "bi_requests r =
     map msg_request (ring_list (bs_array (br_shared r)) (length (bs_array (br_shared r)))
       (unat (b_cons (br_server r))) (unat (b_prod (br_client r) - b_cons (br_server r))))"

definition bi_responses :: "('q, 'r) bi_ring \<Rightarrow> 'r list" where
  "bi_responses r =
     map msg_response (ring_list (bs_array (br_shared r)) (length (bs_array (br_shared r)))
       (unat (b_cons (br_client r) - b_capacity (br_client r)))
       (unat (b_prod (br_server r) - (b_cons (br_client r) - b_capacity (br_client r)))))"

text \<open>The requests read and not answered, as a queue of anonymous debts.\<close>

definition bi_debts :: "('q, 'r) bi_ring \<Rightarrow> unit list" where
  "bi_debts r = replicate (unat (b_cons (br_server r) - b_prod (br_server r))) ()"

subsection \<open>Operations as steps of the pair of actors\<close>

datatype ('q, 'r) bi_event =
    Client_checkout | Client_produce 'q | Client_commit | Client_consume
  | Server_checkout | Server_produce 'r | Server_commit | Server_consume

text \<open>The requests accepted and delivered, the responses accepted and delivered, and the ring.\<close>

type_synonym ('q, 'r) bi_outcome = "'q list \<times> 'q list \<times> 'r list \<times> 'r list \<times> ('q, 'r) bi_ring"

fun bi_step :: "('q, 'r) bi_event \<Rightarrow> ('q, 'r) bi_ring \<Rightarrow> ('q, 'r) bi_outcome" where
  "bi_step Client_checkout r =
     (let (ok, c, sh) = client_checkout id (br_client r) (br_shared r)
      in ([], [], [], [], r\<lparr>br_client := c, br_shared := sh\<rparr>))"
| "bi_step (Client_produce q) r =
     (let (ok, c, sh) = client_produce (br_client r) (br_shared r) q
      in (if ok then [q] else [], [], [], [], r\<lparr>br_client := c, br_shared := sh\<rparr>))"
| "bi_step Client_commit r =
     (let (ok, c, sh) = client_commit (br_client r) (br_shared r)
      in ([], [], [], [], r\<lparr>br_client := c, br_shared := sh\<rparr>))"
| "bi_step Client_consume r =
     (let (x, c) = client_consume (br_client r) (br_shared r)
      in ([], [], [], (case x of None \<Rightarrow> [] | Some y \<Rightarrow> [y]), r\<lparr>br_client := c\<rparr>))"
| "bi_step Server_checkout r =
     (let (ok, s, sh) = server_checkout id (br_server r) (br_shared r)
      in ([], [], [], [], r\<lparr>br_server := s, br_shared := sh\<rparr>))"
| "bi_step (Server_produce x) r =
     (let (ok, s, sh) = server_produce (br_server r) (br_shared r) x
      in ([], [], if ok then [x] else [], [], r\<lparr>br_server := s, br_shared := sh\<rparr>))"
| "bi_step Server_commit r =
     (let (ok, s, sh) = server_commit (br_server r) (br_shared r)
      in ([], [], [], [], r\<lparr>br_server := s, br_shared := sh\<rparr>))"
| "bi_step Server_consume r =
     (let (x, s) = server_consume (br_server r) (br_shared r)
      in ([], (case x of None \<Rightarrow> [] | Some y \<Rightarrow> [y]), [], [], r\<lparr>br_server := s\<rparr>))"

fun bi_run :: "('q, 'r) bi_event list \<Rightarrow> ('q, 'r) bi_ring \<Rightarrow> ('q, 'r) bi_outcome" where
  "bi_run [] r = ([], [], [], [], r)"
| "bi_run (e # es) r =
     (let (qi, qo, pi, po, r') = bi_step e r;
          (qis, qos, pis, pos, r'') = bi_run es r'
      in (qi @ qis, qo @ qos, pi @ pis, po @ pos, r''))"

text \<open>The views of a step that the three queues have.\<close>

definition req_step where
  "req_step e r = (let (qi, qo, pi, po, r') = bi_step e r in (qi, qo, r'))"

definition rsp_step where
  "rsp_step e r = (let (qi, qo, pi, po, r') = bi_step e r in (pi, po, r'))"

definition debt_step where
  "debt_step e r = (let (qi, qo, pi, po, r') = bi_step e r in (map (\<lambda>_. ()) qo, map (\<lambda>_. ()) pi, r'))"

lemma bi_run_views:
  assumes "bi_run es r = (qi, qo, pi, po, r')"
  shows "run_steps req_step es r = (qi, qo, r')" and "run_steps rsp_step es r = (pi, po, r')"
    and "run_steps debt_step es r = (map (\<lambda>_. ()) qo, map (\<lambda>_. ()) pi, r')"
  using assms
  by (induction es arbitrary: r qi qo pi po)
     (auto simp: req_step_def rsp_step_def debt_step_def Let_def split: prod.splits)

subsection \<open>Distances between the indices\<close>

lemma bi_wf_dist:
  assumes "bi_wf k r"
  defines "c \<equiv> br_client r" and "s \<equiv> br_server r" and "sh \<equiv> br_shared r"
  defines "cons \<equiv> b_cons c - 2 ^ k"
  shows "unat (bs_sprod sh - cons) =
      unat (b_cons_end c - b_cons c) + unat (bs_sprod sh - (b_cons_end c - 2 ^ k))"
    and "unat (b_prod s - cons) = unat (bs_sprod sh - cons) + unat (b_prod s - bs_sprod sh)"
    and "unat (b_cons s - cons) = unat (b_prod s - cons) + unat (b_cons s - b_prod s)"
    and "unat (bs_cprod sh - b_cons s) =
      unat (b_cons_end s - b_cons s) + unat (bs_cprod sh - b_cons_end s)"
    and "unat (b_prod c - b_cons s) = unat (bs_cprod sh - b_cons s) + unat (b_prod c - bs_cprod sh)"
    and "unat (b_prod c - cons) = unat (b_cons s - cons) + unat (b_prod c - b_cons s)"
    and "unat (bs_cprod sh - cons) = unat (b_cons s - cons) + unat (bs_cprod sh - b_cons s)"
    and "unat (b_cons s - bs_sprod sh) = unat (b_prod s - bs_sprod sh) + unat (b_cons s - b_prod s)"
    and "unat (b_prod c - cons) \<le> 2 ^ k"
    and "unat (b_prod c - b_cons_end s) = unat (bs_cprod sh - b_cons_end s) + unat (b_prod c - bs_cprod sh)"
    and "unat (b_prod s - (b_cons_end c - 2 ^ k)) =
      unat (bs_sprod sh - (b_cons_end c - 2 ^ k)) + unat (b_prod s - bs_sprod sh)"
proof -
  have k: "(2::nat) ^ k \<le> 2147483648"
    using assms(1) by (intro pow2_le_half) (simp add: bi_wf_def Let_def)
  have t: "unat (b_cons_end c - b_cons c) + unat (bs_sprod sh - (b_cons_end c - 2 ^ k)) +
      unat (b_prod s - bs_sprod sh) + unat (b_cons s - b_prod s) + unat (b_cons_end s - b_cons s) +
      unat (bs_cprod sh - b_cons_end s) + unat (b_prod c - bs_cprod sh) \<le> 2 ^ k"
    using assms(1) by (simp add: bi_wf_def Let_def c_def s_def sh_def)
  have e: "b_cons_end c - 2 ^ k - cons = b_cons_end c - b_cons c" by (simp add: cons_def)
  show 1: "unat (bs_sprod sh - cons) =
      unat (b_cons_end c - b_cons c) + unat (bs_sprod sh - (b_cons_end c - 2 ^ k))"
    using unat_diff_add [of "b_cons_end c - 2 ^ k" cons "bs_sprod sh"] t k unfolding e by linarith
  show 2: "unat (b_prod s - cons) = unat (bs_sprod sh - cons) + unat (b_prod s - bs_sprod sh)"
    by (rule unat_diff_add) (use 1 t k in linarith)
  show 3: "unat (b_cons s - cons) = unat (b_prod s - cons) + unat (b_cons s - b_prod s)"
    by (rule unat_diff_add) (use 1 2 t k in linarith)
  show 4: "unat (bs_cprod sh - b_cons s) =
      unat (b_cons_end s - b_cons s) + unat (bs_cprod sh - b_cons_end s)"
    by (rule unat_diff_add) (use t k in linarith)
  show 5: "unat (b_prod c - b_cons s) = unat (bs_cprod sh - b_cons s) + unat (b_prod c - bs_cprod sh)"
    by (rule unat_diff_add) (use 4 t k in linarith)
  show 6: "unat (b_prod c - cons) = unat (b_cons s - cons) + unat (b_prod c - b_cons s)"
    by (rule unat_diff_add) (use 1 2 3 4 5 t k in linarith)
  show "unat (bs_cprod sh - cons) = unat (b_cons s - cons) + unat (bs_cprod sh - b_cons s)"
    by (rule unat_diff_add) (use 1 2 3 4 t k in linarith)
  show "unat (b_cons s - bs_sprod sh) = unat (b_prod s - bs_sprod sh) + unat (b_cons s - b_prod s)"
    by (rule unat_diff_add) (use t k in linarith)
  show "unat (b_prod c - cons) \<le> 2 ^ k" using 1 2 3 4 5 6 t by linarith
  show "unat (b_prod c - b_cons_end s) = unat (bs_cprod sh - b_cons_end s) + unat (b_prod c - bs_cprod sh)"
    by (rule unat_diff_add) (use t k in linarith)
  show "unat (b_prod s - (b_cons_end c - 2 ^ k)) =
      unat (bs_sprod sh - (b_cons_end c - 2 ^ k)) + unat (b_prod s - bs_sprod sh)"
    by (rule unat_diff_add) (use t k in linarith)
qed

lemma bi_wf_consts:
  assumes "bi_wf k r"
  shows "k < 32" "b_capacity (br_client r) = 2 ^ k" "b_capacity (br_server r) = 2 ^ k"
    "length (bs_array (br_shared r)) = 2 ^ k"
    "b_last_published_prod (br_client r) = bs_cprod (br_shared r)"
    "b_last_published_prod (br_server r) = bs_sprod (br_shared r)"
  using assms by (simp_all add: bi_wf_def Let_def)

lemma unat_pow2_sub:
  assumes "k < 32" "unat (x::u32) \<le> 2 ^ k"
  shows "unat (2 ^ k - x) = 2 ^ k - unat x"
proof -
  have "unat (2 ^ k - x) = unat ((2::u32) ^ k) - unat x"
    using assms by (intro unat_sub) (simp add: word_le_nat_alt unat_power2_u32)
  then show ?thesis using assms(1) by (simp add: unat_power2_u32)
qed

lemma wf_client_look:
  assumes "bi_wf k r"
  shows "client_checkout_helper (br_client r) (br_shared r) =
    (bs_sprod (br_shared r) + 2 ^ k \<noteq> b_cons (br_client r),
     (br_client r)\<lparr>b_cons_end := bs_sprod (br_shared r) + 2 ^ k\<rparr>)"
proof -
  note d = bi_wf_dist [OF assms] and w = bi_wf_consts [OF assms]
  have "bs_sprod (br_shared r) - (b_cons (br_client r) - 2 ^ k) \<le>
      bs_cprod (br_shared r) - (b_cons (br_client r) - 2 ^ k)"
    unfolding word_le_nat_alt using d(2,3,7) by linarith
  then show ?thesis using w by (simp add: client_checkout_helper_def Let_def)
qed

lemma wf_server_look:
  assumes "bi_wf k r"
  shows "server_checkout_helper (br_server r) (br_shared r) =
    (bs_cprod (br_shared r) \<noteq> b_cons (br_server r),
     (br_server r)\<lparr>b_cons_end := bs_cprod (br_shared r)\<rparr>)"
proof -
  let ?s = "br_server r" and ?sh = "br_shared r"
  note d = bi_wf_dist [OF assms] and w = bi_wf_consts [OF assms]
  have le: "unat (b_cons ?s - bs_sprod ?sh) + unat (bs_cprod ?sh - b_cons ?s) \<le> 2 ^ k"
    using d by linarith
  have "unat (bs_sprod ?sh + 2 ^ k - b_cons ?s) = 2 ^ k - unat (b_cons ?s - bs_sprod ?sh)"
    using unat_pow2_sub [OF w(1), of "b_cons ?s - bs_sprod ?sh"] le by (simp add: algebra_simps)
  then have "bs_cprod ?sh - b_cons ?s \<le> bs_sprod ?sh + 2 ^ k - b_cons ?s"
    unfolding word_le_nat_alt using le by linarith
  then show ?thesis using w by (simp add: server_checkout_helper_def Let_def)
qed

text \<open>What a step has to keep of the two queues of messages.\<close>

lemma bi_queues_cong:
  assumes "bs_array (br_shared r') = bs_array (br_shared r)"
    and "b_cons (br_client r') = b_cons (br_client r)" "b_prod (br_client r') = b_prod (br_client r)"
    and "b_capacity (br_client r') = b_capacity (br_client r)"
    and "b_cons (br_server r') = b_cons (br_server r)" "b_prod (br_server r') = b_prod (br_server r)"
  shows "bi_requests r' = bi_requests r" "bi_responses r' = bi_responses r" "bi_debts r' = bi_debts r"
  using assms by (simp_all add: bi_requests_def bi_responses_def bi_debts_def)


lemma ring_list_other:
  assumes "n \<le> m" "m < N" "length arr = N"
  shows "ring_list (arr[(s + m) mod N := x]) N s n = ring_list arr N s n"
proof -
  have "arr[(s + m) mod N := x] ! ((s + j) mod N) = arr ! ((s + j) mod N)" if "j < n" for j
    using mod_add_inj [of s m N j] that assms by (auto intro!: nth_list_update_neq)
  then show ?thesis by (simp add: ring_list_def)
qed

text \<open>Writing the slot of index \<open>i\<close>: at the end of a queue that starts at \<open>c\<close>, or beyond the queue.\<close>

lemma ring_list_write:
  assumes "k < 32" "length arr = 2 ^ k"
  shows "unat (i - c) < 2 ^ k \<Longrightarrow>
      ring_list (arr[unat i mod 2 ^ k := x]) (2 ^ k) (unat (c::u32)) (Suc (unat (i - c))) =
        ring_list arr (2 ^ k) (unat c) (unat (i - c)) @ [x]"
    and "n \<le> unat (i - c) \<Longrightarrow> unat (i - c) < 2 ^ k \<Longrightarrow>
      ring_list (arr[unat i mod 2 ^ k := x]) (2 ^ k) (unat c) n = ring_list arr (2 ^ k) (unat c) n"
proof -
  have sl: "unat i mod 2 ^ k = (unat c + unat (i - c)) mod 2 ^ k"
    using unat_diff_mod [of k i c] assms(1) by (simp add: mod_simps)
  show "unat (i - c) < 2 ^ k \<Longrightarrow>
      ring_list (arr[unat i mod 2 ^ k := x]) (2 ^ k) (unat c) (Suc (unat (i - c))) =
        ring_list arr (2 ^ k) (unat c) (unat (i - c)) @ [x]"
    unfolding sl by (rule ring_list_append [OF _ assms(2)])
  show "n \<le> unat (i - c) \<Longrightarrow> unat (i - c) < 2 ^ k \<Longrightarrow>
      ring_list (arr[unat i mod 2 ^ k := x]) (2 ^ k) (unat c) n = ring_list arr (2 ^ k) (unat c) n"
    unfolding sl by (rule ring_list_other [OF _ _ assms(2)])
qed

text \<open>Reading the first slot of a queue.\<close>

lemma ring_list_read:
  assumes "k < 32" "i \<noteq> (c::u32)"
  shows "ring_list arr (2 ^ k) (unat c) (unat (i - c)) =
    arr ! (unat c mod 2 ^ k) # ring_list arr (2 ^ k) (unat (c + 1)) (unat (i - (c + 1)))"
proof -
  have "unat (i - c) = Suc (unat (i - (c + 1)))" using assms(2) by (intro unat_diff_Suc) simp
  moreover have "unat (c + 1) mod 2 ^ k = Suc (unat c) mod 2 ^ k"
    using unat_add_of_nat_mod [of k c 1] assms(1) by (simp add: mod_simps)
  ultimately show ?thesis by (simp add: ring_list_Suc) (metis ring_list_mod)
qed

lemma unat_diff_succ:
  assumes "k < 32" "unat (i - (c::u32)) < 2 ^ k"
  shows "unat (i + 1 - c) = Suc (unat (i - c))"
  using unat_diff_add [of i c "i + 1"] assms pow2_le_half [of k] by simp

subsection \<open>Every operation keeps the invariant and acts on the three queues\<close>

definition bi_effect ::
  "nat \<Rightarrow> ('q, 'r) bi_ring \<Rightarrow> ('q, 'r) bi_outcome \<Rightarrow> bool" where
  "bi_effect k r out =
     (case out of (qi, qo, pi, po, r') \<Rightarrow>
        bi_wf k r' \<and> bi_requests r @ qi = qo @ bi_requests r' \<and> bi_responses r @ pi = po @ bi_responses r' \<and>
        bi_debts r @ map (\<lambda>_. ()) qo = map (\<lambda>_. ()) pi @ bi_debts r')"

lemma bi_checkout_effect:
  assumes "bi_wf k r"
  shows "client_checkout id (br_client r) (br_shared r) = (ok, c, sh) \<Longrightarrow>
      bi_effect k r ([], [], [], [], r\<lparr>br_client := c, br_shared := sh\<rparr>)"
    and "server_checkout id (br_server r) (br_shared r) = (ok, s, sh) \<Longrightarrow>
      bi_effect k r ([], [], [], [], r\<lparr>br_server := s, br_shared := sh\<rparr>)"
proof -
  note d = bi_wf_dist [OF assms] and w = bi_wf_consts [OF assms]
  assume c: "client_checkout id (br_client r) (br_shared r) = (ok, c, sh)"
  have "c = (br_client r)\<lparr>b_cons_end := bs_sprod (br_shared r) + 2 ^ k\<rparr> \<and>
      (sh = br_shared r \<or> (\<exists>l. sh = (br_shared r)\<lparr>bs_sprod_limit := l\<rparr>))"
    using c wf_client_look [OF assms]
    by (auto simp: client_checkout_def client_checkout_helper_def Let_def w split: if_splits)
  then show "bi_effect k r ([], [], [], [], r\<lparr>br_client := c, br_shared := sh\<rparr>)"
    using assms d(1)
    by (auto simp: bi_effect_def bi_wf_def bi_requests_def bi_responses_def bi_debts_def Let_def algebra_simps)
next
  note d = bi_wf_dist [OF assms] and w = bi_wf_consts [OF assms]
  assume c: "server_checkout id (br_server r) (br_shared r) = (ok, s, sh)"
  have "s = (br_server r)\<lparr>b_cons_end := bs_cprod (br_shared r)\<rparr> \<and>
      (sh = br_shared r \<or> (\<exists>l. sh = (br_shared r)\<lparr>bs_cprod_limit := l\<rparr>))"
    using c wf_server_look [OF assms]
    by (auto simp: server_checkout_def server_checkout_helper_def Let_def w split: if_splits)
  then show "bi_effect k r ([], [], [], [], r\<lparr>br_server := s, br_shared := sh\<rparr>)"
    using assms d(4)
    by (auto simp: bi_effect_def bi_wf_def bi_requests_def bi_responses_def bi_debts_def Let_def)
qed

lemma bi_commit_effect:
  assumes "bi_wf k r"
  shows "client_commit (br_client r) (br_shared r) = (ok, c, sh) \<Longrightarrow>
      bi_effect k r ([], [], [], [], r\<lparr>br_client := c, br_shared := sh\<rparr>)"
    and "server_commit (br_server r) (br_shared r) = (ok, s, sh) \<Longrightarrow>
      bi_effect k r ([], [], [], [], r\<lparr>br_server := s, br_shared := sh\<rparr>)"
  using assms bi_wf_dist(10,11) [OF assms]
  by (auto simp: bi_effect_def bi_wf_def bi_requests_def bi_responses_def bi_debts_def client_commit_def
      server_commit_def Let_def split: if_splits)

lemma client_produce_effect:
  assumes "bi_wf k r" "client_produce (br_client r) (br_shared r) q = (ok, c, sh)"
  shows "bi_effect k r (if ok then [q] else [], [], [], [], r\<lparr>br_client := c, br_shared := sh\<rparr>)"
proof (cases "b_prod (br_client r) = b_cons (br_client r)")
  case True
  then show ?thesis using assms by (auto simp: client_produce_def bi_effect_def Let_def)
next
  case False
  let ?c = "br_client r" and ?s = "br_server r" and ?sh = "br_shared r"
  let ?cons = "b_cons ?c - 2 ^ k"
  note d = bi_wf_dist [OF assms(1)] and w = bi_wf_consts [OF assms(1)]
  have out: "ok" "c = ?c\<lparr>b_prod := b_prod ?c + 1\<rparr>"
    "sh = ?sh\<lparr>bs_array := (bs_array ?sh)[unat (b_prod ?c) mod 2 ^ k := Request q]\<rparr>"
    using assms(2) False by (auto simp: client_produce_def Let_def w and_pow2_minus_1)
  have "b_prod ?c - ?cons \<noteq> 2 ^ k" using False by (simp add: algebra_simps)
  then have room: "unat (b_prod ?c - ?cons) < 2 ^ k"
    using d(9) w(1) by (metis le_neq_implies_less unat_power2_u32 word_unat_eq_iff)
  have n: "unat (b_prod ?c - b_cons ?s) < 2 ^ k" "unat (b_prod ?c - bs_cprod ?sh) < 2 ^ k"
    "unat (b_prod ?s - ?cons) \<le> unat (b_prod ?c - ?cons)"
    using room d(3,5,6) by linarith+
  have len: "unat (b_prod ?c + 1 - b_cons ?s) = Suc (unat (b_prod ?c - b_cons ?s))"
    "unat (b_prod ?c + 1 - bs_cprod ?sh) = Suc (unat (b_prod ?c - bs_cprod ?sh))"
    using n w(1) by (auto intro!: unat_diff_succ)
  have "bi_wf k (r\<lparr>br_client := c, br_shared := sh\<rparr>)"
    using assms(1) room d(1-6) by (simp add: bi_wf_def Let_def out len)
  then show ?thesis
    using ring_list_write(1) [OF w(1,4) n(1)] ring_list_write(2) [OF w(1,4) n(3) room]
    by (simp add: bi_effect_def bi_requests_def bi_responses_def bi_debts_def out(1) w len)
       (simp add: out w len)
qed

lemma server_produce_effect:
  assumes "bi_wf k r" "server_produce (br_server r) (br_shared r) x = (ok, s, sh)"
  shows "bi_effect k r ([], [], if ok then [x] else [], [], r\<lparr>br_server := s, br_shared := sh\<rparr>)"
proof (cases "b_prod (br_server r) = b_cons (br_server r)")
  case True
  then show ?thesis using assms by (auto simp: server_produce_def bi_effect_def Let_def)
next
  case False
  let ?c = "br_client r" and ?s = "br_server r" and ?sh = "br_shared r"
  let ?cons = "b_cons ?c - 2 ^ k"
  note d = bi_wf_dist [OF assms(1)] and w = bi_wf_consts [OF assms(1)]
  have out: "ok" "s = ?s\<lparr>b_prod := b_prod ?s + 1\<rparr>"
    "sh = ?sh\<lparr>bs_array := (bs_array ?sh)[unat (b_prod ?s) mod 2 ^ k := Response x]\<rparr>"
    using assms(2) False by (auto simp: server_produce_def Let_def w and_pow2_minus_1)
  have owed: "unat (b_cons ?s - b_prod ?s) = Suc (unat (b_cons ?s - (b_prod ?s + 1)))"
    using False by (intro unat_diff_Suc)
  have n: "unat (b_prod ?s - ?cons) < 2 ^ k" "unat (b_prod ?s - bs_sprod ?sh) < 2 ^ k"
    using owed d(2,3,6,9) by linarith+
  have len: "unat (b_prod ?s + 1 - ?cons) = Suc (unat (b_prod ?s - ?cons))"
    "unat (b_prod ?s + 1 - bs_sprod ?sh) = Suc (unat (b_prod ?s - bs_sprod ?sh))"
    using n w(1) by (auto intro!: unat_diff_succ)
  have wf: "bi_wf k (r\<lparr>br_server := s, br_shared := sh\<rparr>)"
    using assms(1) owed by (simp add: bi_wf_def Let_def out len)
  have req: "ring_list ((bs_array ?sh)[unat (b_prod ?s) mod 2 ^ k := Response x]) (2 ^ k)
      (unat (b_cons ?s)) (unat (b_prod ?c - b_cons ?s)) =
    ring_list (bs_array ?sh) (2 ^ k) (unat (b_cons ?s)) (unat (b_prod ?c - b_cons ?s))"
  proof -
    let ?m = "2 ^ k - unat (b_cons ?s - b_prod ?s)"
    have le: "unat (b_cons ?s - b_prod ?s) \<le> 2 ^ k" "unat (b_prod ?c - b_cons ?s) \<le> ?m" "?m < 2 ^ k"
      using d(3,6,9) owed by linarith+
    have "(unat (b_cons ?s) + ?m) mod 2 ^ k = (unat (b_cons ?s) mod 2 ^ k + ?m) mod 2 ^ k"
      by (simp add: mod_simps)
    also have "\<dots> = (unat (b_prod ?s) + unat (b_cons ?s - b_prod ?s) + ?m) mod 2 ^ k"
      using unat_diff_mod [of k "b_cons ?s" "b_prod ?s"] w(1) by (simp add: mod_simps)
    also have "\<dots> = unat (b_prod ?s) mod 2 ^ k" using le(1) by simp
    finally show ?thesis using ring_list_other [OF le(2,3) w(4), of "unat (b_cons ?s)"] by simp
  qed
  show ?thesis
    using wf req ring_list_write(1) [OF w(1,4) n(1), of "Response x"]
    by (simp add: bi_effect_def bi_requests_def bi_responses_def bi_debts_def out(1) owed)
       (simp add: out w len)
qed

lemma client_consume_effect:
  assumes "bi_wf k r" "client_consume (br_client r) (br_shared r) = (x, c)"
  shows "bi_effect k r ([], [], [], case x of None \<Rightarrow> [] | Some y \<Rightarrow> [y], r\<lparr>br_client := c\<rparr>)"
proof (cases "b_cons (br_client r) = b_cons_end (br_client r)")
  case True
  then show ?thesis using assms by (auto simp: client_consume_def bi_effect_def Let_def)
next
  case False
  let ?c = "br_client r" and ?s = "br_server r" and ?sh = "br_shared r"
  let ?cons = "b_cons ?c - 2 ^ k"
  note d = bi_wf_dist [OF assms(1)] and w = bi_wf_consts [OF assms(1)]
  have "unat (b_cons ?c) mod 2 ^ k = (unat ?cons + unat ((2::u32) ^ k)) mod 2 ^ k"
    using unat_diff_mod [of k "b_cons ?c" ?cons] w(1) by (simp add: mod_simps)
  then have sl: "unat (b_cons ?c) mod 2 ^ k = unat ?cons mod 2 ^ k" using w(1) by (simp add: unat_power2_u32)
  have out: "x = Some (msg_response (bs_array ?sh ! (unat ?cons mod 2 ^ k)))"
    "c = ?c\<lparr>b_cons := b_cons ?c + 1\<rparr>"
    using assms(2) False by (auto simp: client_consume_def Let_def w and_pow2_minus_1 sl)
  have one: "unat (b_cons_end ?c - b_cons ?c) = Suc (unat (b_cons_end ?c - (b_cons ?c + 1)))"
    using False by (intro unat_diff_Suc) simp
  have "unat (b_prod ?s - ?cons) \<noteq> 0" using one d(1,2) by linarith
  then have ne: "b_prod ?s \<noteq> ?cons" by auto
  have wf: "bi_wf k (r\<lparr>br_client := c\<rparr>)" using assms(1) one by (simp add: bi_wf_def Let_def out)
  have eq: "b_cons ?c + 1 - 2 ^ k = ?cons + 1" by simp
  show ?thesis
    using wf ring_list_read [OF w(1) ne, of "bs_array ?sh"]
    by (simp add: bi_effect_def bi_requests_def bi_responses_def bi_debts_def out w eq)
qed

lemma server_consume_effect:
  assumes "bi_wf k r" "server_consume (br_server r) (br_shared r) = (x, s)"
  shows "bi_effect k r ([], case x of None \<Rightarrow> [] | Some y \<Rightarrow> [y], [], [], r\<lparr>br_server := s\<rparr>)"
proof (cases "b_cons (br_server r) = b_cons_end (br_server r)")
  case True
  then show ?thesis using assms by (auto simp: server_consume_def bi_effect_def Let_def)
next
  case False
  let ?c = "br_client r" and ?s = "br_server r" and ?sh = "br_shared r"
  note d = bi_wf_dist [OF assms(1)] and w = bi_wf_consts [OF assms(1)]
  have out: "x = Some (msg_request (bs_array ?sh ! (unat (b_cons ?s) mod 2 ^ k)))"
    "s = ?s\<lparr>b_cons := b_cons ?s + 1\<rparr>"
    using assms(2) False by (auto simp: server_consume_def Let_def w and_pow2_minus_1)
  have one: "unat (b_cons_end ?s - b_cons ?s) = Suc (unat (b_cons_end ?s - (b_cons ?s + 1)))"
    using False by (intro unat_diff_Suc) simp
  have "unat (b_prod ?c - b_cons ?s) \<noteq> 0" using one d(4,5) by linarith
  then have ne: "b_prod ?c \<noteq> b_cons ?s" by auto
  have "unat (b_cons ?s - b_prod ?s) < 2 ^ k" using one d(3,4,5,6,9) by linarith
  then have owed: "unat (b_cons ?s + 1 - b_prod ?s) = Suc (unat (b_cons ?s - b_prod ?s))"
    using w(1) by (intro unat_diff_succ)
  have wf: "bi_wf k (r\<lparr>br_server := s\<rparr>)" using assms(1) one owed by (simp add: bi_wf_def Let_def out)
  show ?thesis
    using wf ring_list_read [OF w(1) ne, of "bs_array ?sh"]
    by (simp add: bi_effect_def bi_requests_def bi_responses_def bi_debts_def out w owed replicate_append_same)
qed

lemma bi_step_effect: "bi_wf k r \<Longrightarrow> bi_effect k r (bi_step e r)"
  by (cases e)
     (auto split: prod.splits intro: bi_checkout_effect bi_commit_effect client_consume_effect
       server_consume_effect dest: client_produce_effect server_produce_effect)

subsection \<open>The ring is a channel in both directions\<close>

lemma bi_queue_bounds:
  assumes "bi_wf k r"
  shows "length (bi_requests r) + length (bi_debts r) + length (bi_responses r) \<le> 2 ^ k"
proof -
  have "unat (b_prod (br_client r) - b_cons (br_server r)) +
      unat (b_cons (br_server r) - b_prod (br_server r)) +
      unat (b_prod (br_server r) - (b_cons (br_client r) - 2 ^ k)) \<le> 2 ^ k"
    using bi_wf_dist(3,6,9) [OF assms] by linarith
  then show ?thesis using bi_wf_consts(2) [OF assms] by (simp add: bi_requests_def bi_debts_def bi_responses_def)
qed

lemma bi_view_steps:
  assumes "bi_wf k r"
  shows "req_step e r = (a, d, r') \<Longrightarrow> bi_wf k r' \<and> bi_requests r @ a = d @ bi_requests r'"
    and "rsp_step e r = (a2, d2, r') \<Longrightarrow> bi_wf k r' \<and> bi_responses r @ a2 = d2 @ bi_responses r'"
    and "debt_step e r = (a3, d3, r') \<Longrightarrow> bi_wf k r' \<and> bi_debts r @ a3 = d3 @ bi_debts r'"
  using bi_step_effect [OF assms, of e]
  by (auto simp: req_step_def rsp_step_def debt_step_def bi_effect_def split: prod.splits)

lemma bi_view_bounds:
  assumes "bi_wf k r"
  shows "length (bi_requests r) \<le> 2 ^ k" "length (bi_responses r) \<le> 2 ^ k" "length (bi_debts r) \<le> 2 ^ k"
  using bi_queue_bounds [OF assms] by linarith+

interpretation requests: fifo_machine "bi_wf k" bi_requests "\<lambda>_. 2 ^ k" req_step
  by unfold_locales (use bi_view_steps(1) bi_view_bounds(1) in blast)+

interpretation responses: fifo_machine "bi_wf k" bi_responses "\<lambda>_. 2 ^ k" rsp_step
  by unfold_locales (use bi_view_steps(2) bi_view_bounds(2) in blast)+

interpretation debts: fifo_machine "bi_wf k" bi_debts "\<lambda>_. 2 ^ k" debt_step
  by unfold_locales (use bi_view_steps(3) bi_view_bounds(3) in blast)+

text \<open>The ring after \<open>shared_init\<close>, \<open>client_init\<close> and \<open>server_init\<close> with a capacity of \<open>2 ^ k\<close> slots.\<close>

definition bi_initial :: "nat \<Rightarrow> ('q, 'r) bi_msg list \<Rightarrow> ('q, 'r) bi_ring" where
  "bi_initial k arr =
     \<lparr>br_client = \<lparr>b_capacity = 2 ^ k, b_prod = 0, b_last_published_prod = 0, b_cons = 2 ^ k, b_cons_end = 2 ^ k\<rparr>,
      br_server = \<lparr>b_capacity = 2 ^ k, b_prod = 0, b_last_published_prod = 0, b_cons = 0, b_cons_end = 0\<rparr>,
      br_shared = bi_shared_init \<lparr>bs_cprod = 0, bs_sprod_limit = 0, bs_sprod = 0, bs_cprod_limit = 0,
        bs_array = arr\<rparr>\<rparr>"

lemma bi_initial_wf:
  assumes "k < 32" "length arr = 2 ^ k"
  shows "bi_wf k (bi_initial k arr)" "bi_requests (bi_initial k arr) = []" "bi_responses (bi_initial k arr) = []"
    "bi_debts (bi_initial k arr) = []"
  using assms
  by (simp_all add: bi_wf_def bi_initial_def bi_shared_init_def bi_requests_def bi_responses_def bi_debts_def)

text \<open>
  C26. The bidirectional ring is two channels and a ledger, over all interleavings of client and server: the
  requests the server reads are a prefix of those the client was allowed to write, the responses the client reads are
  a prefix of those the server was allowed to write, the server answers no more requests than it has read, and
  the client is never more than the capacity ahead of the responses it has read.
\<close>

theorem bi_ring_fifo:
  assumes "k < 32" and "length arr = 2 ^ k"
    and "bi_run es (bi_initial k arr) = (sent, received, answered, obtained, r')"
  shows "prefix received sent \<and> prefix obtained answered \<and> length answered \<le> length received \<and>
    length sent \<le> length obtained + 2 ^ k"
proof -
  note i = bi_initial_wf [OF assms(1,2)] and v = bi_run_views [OF assms(3)]
  have q: "bi_wf k r'" "sent = received @ bi_requests r'"
    using requests.run_invar_fifo [OF i(1) v(1)] i(2) by simp_all
  have p: "answered = obtained @ bi_responses r'"
    using responses.run_invar_fifo [OF i(1) v(2)] i(3) by simp
  have "map (\<lambda>_. ()) received = map (\<lambda>_. ()) answered @ bi_debts r'"
    using debts.run_invar_fifo [OF i(1) v(3)] i(4) by simp
  from arg_cong [OF this, of length] have "length received = length answered + length (bi_debts r')" by simp
  then show ?thesis using bi_queue_bounds [OF q(1)] q(2) p by (simp add: prefix_def)
qed

theorem bi_ring_fifo_witness:
  "prefix [10, 20] [10, 20, 30 :: nat] \<and> prefix [''a''] [''a''] \<and> length [''a''] \<le> length [10, 20 :: nat] \<and>
    length [10, 20, 30 :: nat] \<le> length [''a''] + 2 ^ 2"
proof -
  let ?es = "[Client_produce 10, Client_produce 20, Client_commit, Server_checkout, Server_consume, Server_consume,
              Server_produce ''a'', Server_commit, Client_produce 30, Client_checkout, Client_consume, Client_consume]"
  obtain r' where r: "bi_run ?es (bi_initial 2 [Request (0::nat), Request 0, Request 0, Request 0]) =
      ([10, 20, 30], [10, 20], [''a''], [''a''], r')"
    by (simp add: bi_initial_def bi_shared_init_def client_produce_def client_commit_def server_checkout_def
        server_checkout_helper_def server_consume_def server_produce_def server_commit_def client_checkout_def
        client_checkout_helper_def client_consume_def Let_def)
  show ?thesis by (rule bi_ring_fifo [OF _ _ r]) simp_all
qed

subsection \<open>Notifications are not lost\<close>

lemma bi_commit_notifies:
  shows "b_last_published_prod c = bs_cprod_limit sh \<Longrightarrow> b_prod c \<noteq> b_last_published_prod c \<Longrightarrow>
      fst (client_commit c sh)"
    and "b_last_published_prod s = bs_sprod_limit sh \<Longrightarrow> b_prod s \<noteq> b_last_published_prod s \<Longrightarrow>
      fst (server_commit s sh)"
  by (simp_all add: client_commit_def server_commit_def Let_def word_less_nat_alt unat_gt_0)

text \<open>The index after a slot that could be written is not the one last published.\<close>

lemma bi_produce_moves:
  assumes "bi_wf k r"
  shows "b_prod (br_client r) \<noteq> b_cons (br_client r) \<Longrightarrow> b_prod (br_client r) + 1 \<noteq> bs_cprod (br_shared r)"
    and "b_prod (br_server r) \<noteq> b_cons (br_server r) \<Longrightarrow> b_prod (br_server r) + 1 \<noteq> bs_sprod (br_shared r)"
proof -
  note d = bi_wf_dist [OF assms] and w = bi_wf_consts [OF assms]
  have far: "x + 1 \<noteq> y" if "unat (x - y) < 4294967295" for x y :: u32
    using unat_diff_add [of x y "x + 1"] that by auto
  have k: "(2::nat) ^ k \<le> 2147483648" by (rule pow2_le_half [OF w(1)])
  show "b_prod (br_client r) + 1 \<noteq> bs_cprod (br_shared r)" by (rule far) (use d(5,6,9) k in linarith)
  show "b_prod (br_server r) + 1 \<noteq> bs_sprod (br_shared r)" by (rule far) (use d(2,3,6,9) k in linarith)
qed

text \<open>
  Neither actor sleeps through a message: after a checkout that found nothing, the next message of the peer is
  committed with the order to notify, in both directions.
\<close>

theorem bi_no_lost_wakeup:
  assumes "bi_wf k r"
  shows "(server_checkout id (br_server r) (br_shared r) = (False, s, sh) \<and>
      client_produce (br_client r) sh q = (True, c1, sh1) \<longrightarrow> fst (client_commit c1 sh1)) \<and>
    (client_checkout id (br_client r) (br_shared r) = (False, c, sh') \<and>
      server_produce (br_server r) sh' x = (True, s1, sh1') \<longrightarrow> fst (server_commit s1 sh1'))"
proof (intro conjI impI; elim conjE)
  note w = bi_wf_consts [OF assms]
  assume a: "server_checkout id (br_server r) (br_shared r) = (False, s, sh)"
    "client_produce (br_client r) sh q = (True, c1, sh1)"
  have sh: "sh = (br_shared r)\<lparr>bs_cprod_limit := bs_cprod (br_shared r)\<rparr>"
    using a(1) wf_server_look [OF assms]
    by (auto simp: server_checkout_def server_checkout_helper_def Let_def split: if_splits)
  have p: "b_prod (br_client r) \<noteq> b_cons (br_client r)" "b_prod c1 = b_prod (br_client r) + 1"
    "b_last_published_prod c1 = bs_cprod (br_shared r)" "bs_cprod_limit sh1 = bs_cprod (br_shared r)"
    using a(2) w by (auto simp: client_produce_def Let_def sh split: if_splits)
  show "fst (client_commit c1 sh1)"
    using p bi_produce_moves(1) [OF assms p(1)] by (intro bi_commit_notifies(1)) simp_all
next
  note w = bi_wf_consts [OF assms]
  assume a: "client_checkout id (br_client r) (br_shared r) = (False, c, sh')"
    "server_produce (br_server r) sh' x = (True, s1, sh1')"
  have "sh' = (br_shared r)\<lparr>bs_sprod_limit := b_cons (br_client r) - 2 ^ k\<rparr> \<and>
      bs_sprod (br_shared r) + 2 ^ k = b_cons (br_client r)"
    using a(1) wf_client_look [OF assms] w(2)
    by (auto simp: client_checkout_def client_checkout_helper_def Let_def split: if_splits)
  then have sh: "sh' = (br_shared r)\<lparr>bs_sprod_limit := bs_sprod (br_shared r)\<rparr>"
    by (metis add_diff_cancel_right')
  have p: "b_prod (br_server r) \<noteq> b_cons (br_server r)" "b_prod s1 = b_prod (br_server r) + 1"
    "b_last_published_prod s1 = bs_sprod (br_shared r)" "bs_sprod_limit sh1' = bs_sprod (br_shared r)"
    using a(2) w by (auto simp: server_produce_def Let_def sh split: if_splits)
  show "fst (server_commit s1 sh1')"
    using p bi_produce_moves(2) [OF assms p(1)] by (intro bi_commit_notifies(2)) simp_all
qed

definition bi2 :: "(nat, nat) bi_ring" where
  "bi2 = bi_initial 1 [Request 0, Request 0]"

theorem bi_no_lost_wakeup_witness:
  "\<exists>s sh c1 sh1. server_checkout id (br_server bi2) (br_shared bi2) = (False, s, sh) \<and>
     client_produce (br_client bi2) sh 5 = (True, c1, sh1) \<and> fst (client_commit c1 sh1)"
proof -
  have w: "bi_wf 1 bi2" by (simp add: bi2_def bi_initial_wf)
  obtain s sh where s: "server_checkout id (br_server bi2) (br_shared bi2) = (False, s, sh)"
    by (simp add: bi2_def bi_initial_def bi_shared_init_def server_checkout_def server_checkout_helper_def Let_def)
  obtain c1 sh1 where c: "client_produce (br_client bi2) sh 5 = (True, c1, sh1)"
    by (simp add: bi2_def bi_initial_def client_produce_def Let_def)
  show ?thesis using bi_no_lost_wakeup [OF w, of s sh 5 c1 sh1] s c by blast
qed

subsection \<open>A peer that breaks the protocol\<close>

text \<open>What an actor keeps true of its private structure, whatever the shared structure holds.\<close>

definition client_safe :: "nat \<Rightarrow> bi_private \<Rightarrow> bool" where
  "client_safe k c \<longleftrightarrow> k < 32 \<and> b_capacity c = 2 ^ k \<and>
     unat (b_cons_end c - b_cons c) + unat (b_last_published_prod c - (b_cons_end c - 2 ^ k)) +
       unat (b_prod c - b_last_published_prod c) \<le> 2 ^ k"

definition server_safe :: "nat \<Rightarrow> bi_private \<Rightarrow> bool" where
  "server_safe k s \<longleftrightarrow> k < 32 \<and> b_capacity s = 2 ^ k \<and>
     unat (b_prod s - b_last_published_prod s) + unat (b_cons s - b_prod s) +
       unat (b_cons_end s - b_cons s) \<le> 2 ^ k"

text \<open>An operation of an actor on a shared structure that may hold anything, with a peer that may do anything.\<close>

fun client_op ::
  "('q, 'r) bi_event \<Rightarrow> (('q, 'r) bi_shared \<Rightarrow> ('q, 'r) bi_shared) \<Rightarrow> ('q, 'r) bi_shared \<Rightarrow> bi_private \<Rightarrow> bi_private" where
  "client_op Client_checkout peer sh c = fst (snd (client_checkout peer c sh))"
| "client_op (Client_produce q) peer sh c = fst (snd (client_produce c sh q))"
| "client_op Client_commit peer sh c = fst (snd (client_commit c sh))"
| "client_op Client_consume peer sh c = snd (client_consume c sh)"
| "client_op _ peer sh c = c"

fun server_op ::
  "('q, 'r) bi_event \<Rightarrow> (('q, 'r) bi_shared \<Rightarrow> ('q, 'r) bi_shared) \<Rightarrow> ('q, 'r) bi_shared \<Rightarrow> bi_private \<Rightarrow> bi_private" where
  "server_op Server_checkout peer sh s = fst (snd (server_checkout peer s sh))"
| "server_op (Server_produce x) peer sh s = fst (snd (server_produce s sh x))"
| "server_op Server_commit peer sh s = fst (snd (server_commit s sh))"
| "server_op Server_consume peer sh s = snd (server_consume s sh)"
| "server_op _ peer sh s = s"

lemma client_safe_dist:
  assumes "client_safe k c"
  defines "cons \<equiv> b_cons c - 2 ^ k"
  shows "unat (b_last_published_prod c - cons) =
      unat (b_cons_end c - b_cons c) + unat (b_last_published_prod c - (b_cons_end c - 2 ^ k))"
    and "unat (b_prod c - cons) = unat (b_last_published_prod c - cons) + unat (b_prod c - b_last_published_prod c)"
    and "unat (b_prod c - (b_cons_end c - 2 ^ k)) =
      unat (b_last_published_prod c - (b_cons_end c - 2 ^ k)) + unat (b_prod c - b_last_published_prod c)"
    and "unat (b_prod c - cons) \<le> 2 ^ k"
proof -
  have s: "unat (b_cons_end c - b_cons c) + unat (b_last_published_prod c - (b_cons_end c - 2 ^ k)) +
      unat (b_prod c - b_last_published_prod c) \<le> 2 ^ k" and k: "(2::nat) ^ k \<le> 2147483648"
    using assms(1) pow2_le_half by (simp_all add: client_safe_def)
  have e: "b_cons_end c - 2 ^ k - cons = b_cons_end c - b_cons c" by (simp add: cons_def)
  show 1: "unat (b_last_published_prod c - cons) =
      unat (b_cons_end c - b_cons c) + unat (b_last_published_prod c - (b_cons_end c - 2 ^ k))"
    using unat_diff_add [of "b_cons_end c - 2 ^ k" cons "b_last_published_prod c"] s k unfolding e by linarith
  show 2: "unat (b_prod c - cons) = unat (b_last_published_prod c - cons) + unat (b_prod c - b_last_published_prod c)"
    by (rule unat_diff_add) (use 1 s k in linarith)
  show "unat (b_prod c - (b_cons_end c - 2 ^ k)) =
      unat (b_last_published_prod c - (b_cons_end c - 2 ^ k)) + unat (b_prod c - b_last_published_prod c)"
    by (rule unat_diff_add) (use s k in linarith)
  show "unat (b_prod c - cons) \<le> 2 ^ k" using 1 2 s by linarith
qed

lemma client_look_safe:
  assumes "client_safe k c"
  shows "client_safe k (snd (client_checkout_helper c sh))"
proof -
  let ?cons = "b_cons c - 2 ^ k"
  note d = client_safe_dist [OF assms]
  have "unat (bs_sprod sh - ?cons) + unat (b_last_published_prod c - bs_sprod sh) =
      unat (b_last_published_prod c - ?cons)"
    if "bs_sprod sh - ?cons \<le> b_last_published_prod c - ?cons"
    using unat_sub [OF that] that by (simp add: word_le_nat_alt)
  moreover have eq: "bs_sprod sh + 2 ^ k - b_cons c = bs_sprod sh - ?cons" by simp
  ultimately show ?thesis
    using assms d by (auto simp: client_checkout_helper_def client_safe_def Let_def eq)
qed

lemma client_op_safe:
  assumes "client_safe k c"
  shows "client_safe k (client_op e peer sh c)"
proof (cases e)
  case Client_checkout
  then show ?thesis
    by (auto simp: client_checkout_def Let_def split_beta intro!: client_look_safe assms)
next
  case (Client_produce q)
  note d = client_safe_dist [OF assms]
  have "unat (b_prod c + 1 - b_last_published_prod c) = Suc (unat (b_prod c - b_last_published_prod c)) \<and>
      unat (b_prod c - (b_cons c - 2 ^ k)) < 2 ^ k" if "b_prod c \<noteq> b_cons c"
  proof -
    have k: "k < 32" using assms by (simp add: client_safe_def)
    have "b_prod c - (b_cons c - 2 ^ k) \<noteq> 2 ^ k" using that by (simp add: algebra_simps)
    then have "unat (b_prod c - (b_cons c - 2 ^ k)) < 2 ^ k"
      using d(4) k by (metis le_neq_implies_less unat_power2_u32 word_unat_eq_iff)
    then show ?thesis using d(2) k by (intro conjI unat_diff_succ [of k]) linarith+
  qed
  then show ?thesis using assms Client_produce d by (auto simp: client_produce_def client_safe_def Let_def)
next
  case Client_commit
  then show ?thesis using assms client_safe_dist(3) [OF assms]
    by (auto simp: client_commit_def client_safe_def Let_def)
next
  case Client_consume
  then show ?thesis using assms unat_diff_Suc [of "b_cons c" "b_cons_end c"]
    by (auto simp: client_consume_def client_safe_def Let_def)
qed (use assms in simp_all)

lemma server_look_safe:
  assumes "server_safe k s"
  shows "server_safe k (snd (server_checkout_helper s sh))"
proof -
  have s: "unat (b_prod s - b_last_published_prod s) + unat (b_cons s - b_prod s) \<le> 2 ^ k" "k < 32"
    and k: "(2::nat) ^ k \<le> 2147483648"
    using assms pow2_le_half by (simp_all add: server_safe_def)
  have d: "unat (b_cons s - b_last_published_prod s) =
      unat (b_prod s - b_last_published_prod s) + unat (b_cons s - b_prod s)"
    by (rule unat_diff_add) (use s k in linarith)
  have "unat (b_last_published_prod s + 2 ^ k - b_cons s) = 2 ^ k - unat (b_cons s - b_last_published_prod s)"
    using unat_pow2_sub [OF s(2), of "b_cons s - b_last_published_prod s"] s d by (simp add: algebra_simps)
  then have "unat (b_prod s - b_last_published_prod s) + unat (b_cons s - b_prod s) +
      unat (bs_cprod sh - b_cons s) \<le> 2 ^ k"
    if "bs_cprod sh - b_cons s \<le> b_last_published_prod s + 2 ^ k - b_cons s"
    using that s d unfolding word_le_nat_alt by linarith
  then show ?thesis using assms by (auto simp: server_checkout_helper_def server_safe_def Let_def)
qed

lemma server_op_safe:
  assumes "server_safe k s"
  shows "server_safe k (server_op e peer sh s)"
proof (cases e)
  case Server_checkout
  then show ?thesis
    by (auto simp: server_checkout_def Let_def split_beta intro!: server_look_safe assms)
next
  case (Server_produce x)
  have "unat (b_prod s + 1 - b_last_published_prod s) = Suc (unat (b_prod s - b_last_published_prod s)) \<and>
      unat (b_cons s - b_prod s) = Suc (unat (b_cons s - (b_prod s + 1)))" if "b_prod s \<noteq> b_cons s"
  proof -
    have "unat (b_cons s - b_prod s) = Suc (unat (b_cons s - (b_prod s + 1)))" using that by (rule unat_diff_Suc)
    then show ?thesis using assms by (auto simp: server_safe_def intro!: unat_diff_succ [of k])
  qed
  then show ?thesis using assms Server_produce by (auto simp: server_produce_def server_safe_def Let_def)
next
  case Server_commit
  then show ?thesis using assms by (auto simp: server_commit_def server_safe_def Let_def)
next
  case Server_consume
  have "unat (b_cons s + 1 - b_prod s) = Suc (unat (b_cons s - b_prod s)) \<and>
      unat (b_cons_end s - b_cons s) = Suc (unat (b_cons_end s - (b_cons s + 1)))" if "b_cons s \<noteq> b_cons_end s"
  proof -
    have "unat (b_cons_end s - b_cons s) = Suc (unat (b_cons_end s - (b_cons s + 1)))" using that by (rule unat_diff_Suc)
    then show ?thesis using assms by (auto simp: server_safe_def intro!: unat_diff_succ [of k])
  qed
  then show ?thesis using assms Server_consume by (auto simp: server_consume_def server_safe_def Let_def)
qed (use assms in simp_all)

text \<open>A run of an actor alone, where before each operation anything may have happened to the shared structure.\<close>

definition attacked where
  "attacked op moves a = fold (\<lambda>(e, peer, sh). op e peer sh) moves a"

lemma attacked_safe:
  assumes "\<And>a e peer sh. P a \<Longrightarrow> P (op e peer sh a)" and "P a"
  shows "P (attacked op moves a)"
  using assms(2) by (induction moves arbitrary: a) (auto simp: attacked_def assms(1))

text \<open>
  A malicious peer cannot drive a client or a server of a bidirectional ring out of the array: whatever a peer
  writes to the shared structure between and during the operations of an actor, the actor never believes that it may
  access more than \<open>capacity\<close> slots, and the slots it is about to access are slots of the array.
\<close>

theorem bi_malicious_peer:
  assumes "k < 32"
  shows "let c = attacked client_op client_moves (br_client (bi_initial k arr));
             s = attacked server_op server_moves (br_server (bi_initial k arr))
         in unat (client_unconsumed c) \<le> 2 ^ k \<and> unat (b_prod c - (b_cons c - 2 ^ k)) \<le> 2 ^ k \<and>
            unat (server_unconsumed s) + unat (server_free s) \<le> 2 ^ k \<and>
            \<not> (\<exists>i \<in> set_option (client_peek_cons c) \<union> set_option (client_peek_prod c) \<union>
                 set_option (server_peek_cons s) \<union> set_option (server_peek_prod s). 2 ^ k \<le> i)"
proof -
  let ?c = "attacked client_op client_moves (br_client (bi_initial k arr))"
  let ?s = "attacked server_op server_moves (br_server (bi_initial k arr))"
  have "client_safe k (br_client (bi_initial k arr))" "server_safe k (br_server (bi_initial k arr))"
    using assms by (simp_all add: client_safe_def server_safe_def bi_initial_def)
  then have safe: "client_safe k ?c" "server_safe k ?s"
    by (auto intro!: attacked_safe client_op_safe server_op_safe)
  have sl: "unat (x AND (2 ^ k - 1)) < 2 ^ k" for x :: u32 by (simp add: and_pow2_minus_1)
  show ?thesis
    using safe client_safe_dist(4) [OF safe(1)] sl
    by (auto simp: Let_def client_safe_def server_safe_def client_unconsumed_def server_unconsumed_def
        server_free_def client_peek_cons_def client_peek_prod_def server_peek_cons_def server_peek_prod_def
        not_le split: if_splits)
qed

definition evil_shared :: "(nat, nat) bi_shared" where
  "evil_shared = \<lparr>bs_cprod = 9, bs_sprod_limit = 3, bs_sprod = 77, bs_cprod_limit = 4, bs_array = [Request 0]\<rparr>"

theorem bi_malicious_peer_witness:
  "unat (client_unconsumed (attacked client_op [(Client_checkout, id, evil_shared)] (br_client bi2))) \<le> 2 ^ 1"
proof -
  have "(1::nat) < 32" by simp
  from bi_malicious_peer [OF this, of "[(Client_checkout, id, evil_shared)]"
      "[Request 0, Request 0] :: (nat, nat) bi_msg list" "[] :: ((nat, nat) bi_event \<times> _ \<times> (nat, nat) bi_shared) list"]
  show ?thesis unfolding bi2_def Let_def by (rule conjunct1)
qed

end
