(* ===== verification/PncKernel.thy ===== *)
theory PncKernel
  imports PncPrelude
begin

text \<open>
  What the driver uses of the Linux kernel: semaphores, the sleeping points where other threads run, and
  \<open>kmalloc\<close>. A driver state is an extension of the record \<open>kstate\<close>, whose \<open>tick\<close> counts the sleeping points
  passed so far. Everything that is not under the control of the running thread is an argument:
  an \<open>env\<close> says, for each tick, what all the other threads (and the secure world) do to the state there
  (\<open>others\<close>), whether the thread is interrupted by a signal (\<open>intr\<close>), and what \<open>kmalloc\<close> returns
  for a given set of addresses in use. A thread runs alone between two sleeping points: the
  granularity of the interleaving is the critical section.
\<close>

record kstate =
  tick :: nat

record 's env =
  others :: "nat \<Rightarrow> 's \<Rightarrow> 's"
  intr :: "nat \<Rightarrow> bool"
  kmalloc :: "nat \<Rightarrow> (nat \<Rightarrow> bool) \<Rightarrow> nat option"

definition EINTR :: int where [errno]: "EINTR = 4"

subsection \<open>Sleeping points\<close>

definition yield :: "('a kstate_scheme, 'b) env_scheme \<Rightarrow> 'a kstate_scheme \<Rightarrow> 'a kstate_scheme" where
  "yield e d = (others e (tick d) d)\<lparr>tick := Suc (tick d)\<rparr>"

text \<open>
  \<open>down_interruptible\<close>: taken at once when the count is positive after the others ran; otherwise the
  thread sleeps until a signal interrupts it, and for ever (\<open>None\<close>) if none does. \<open>get\<close> and \<open>upd\<close>
  are the selector and the update of the semaphore's count in the state.
\<close>

definition down_interruptible ::
  "('a kstate_scheme, 'b) env_scheme \<Rightarrow> ('a kstate_scheme \<Rightarrow> nat)
     \<Rightarrow> ((nat \<Rightarrow> nat) \<Rightarrow> 'a kstate_scheme \<Rightarrow> 'a kstate_scheme)
     \<Rightarrow> 'a kstate_scheme \<Rightarrow> (int \<times> 'a kstate_scheme) option" where
  "down_interruptible e get upd d =
     (let d' = yield e d
      in if 0 < get d' then Some (0, upd (\<lambda>n. n - 1) d')
         else if intr e (tick d) then Some (- EINTR, d')
         else None)"

definition down ::
  "('a kstate_scheme, 'b) env_scheme \<Rightarrow> ('a kstate_scheme \<Rightarrow> nat)
     \<Rightarrow> ((nat \<Rightarrow> nat) \<Rightarrow> 'a kstate_scheme \<Rightarrow> 'a kstate_scheme)
     \<Rightarrow> 'a kstate_scheme \<Rightarrow> 'a kstate_scheme option" where
  "down e get upd d =
     (let d' = yield e d in if 0 < get d' then Some (upd (\<lambda>n. n - 1) d') else None)"

text \<open>
  \<open>wait_event_interruptible\<close> (\<open>None\<close>) and \<open>wait_event_interruptible_timeout\<close> (\<open>Some\<close> of the time in
  jiffies): the condition is tested before sleeping and again when woken. With a timeout, 1 stands for any
  positive number of jiffies left, and a timeout of 0 jiffies does not sleep at all.
\<close>

definition wait_event_interruptible ::
  "('a kstate_scheme, 'b) env_scheme \<Rightarrow> u32 option \<Rightarrow> ('a kstate_scheme \<Rightarrow> bool)
     \<Rightarrow> 'a kstate_scheme \<Rightarrow> (int \<times> 'a kstate_scheme) option" where
  "wait_event_interruptible e timeout cond d =
     (let woken = (if timeout = None then 0 else 1)
      in if cond d then Some (woken, d)
         else if timeout = Some 0 then Some (0, d)
         else
           let d' = yield e d
           in if cond d' then Some (woken, d')
              else if intr e (tick d) then Some (- ERESTARTSYS, d')
              else if timeout \<noteq> None then Some (0, d')
              else None)"

text \<open>\<open>wait_event\<close>: the sleep is not interruptible.\<close>

definition wait_event ::
  "('a kstate_scheme, 'b) env_scheme \<Rightarrow> ('a kstate_scheme \<Rightarrow> bool)
     \<Rightarrow> 'a kstate_scheme \<Rightarrow> 'a kstate_scheme option" where
  "wait_event e cond d =
     (if cond d then Some d else let d' = yield e d in if cond d' then Some d' else None)"

text \<open>
  What \<open>kmalloc\<close> guarantees: the memory it returns is not in use. \<open>kmalloc_works\<close>: it never fails
  while finitely many addresses are in use.
\<close>

definition kmalloc_fresh :: "('s, 'b) env_scheme \<Rightarrow> bool" where
  "kmalloc_fresh e \<longleftrightarrow> (\<forall>n used a. kmalloc e n used = Some a \<longrightarrow> \<not> used a)"

definition kmalloc_works :: "('s, 'b) env_scheme \<Rightarrow> bool" where
  "kmalloc_works e \<longleftrightarrow> (\<forall>n used. finite {a. used a} \<longrightarrow> kmalloc e n used \<noteq> None)"

subsection \<open>Reasoning about functions that may not return\<close>

text \<open>
  \<open>wlp m Q\<close>: if \<open>m\<close> returns, its result satisfies \<open>Q\<close>. The rules of the collection \<open>wlp_simps\<close> push it
  through the do-notation; \<open>wlp_rules\<close> collects one rule per operation of the driver.
\<close>

definition wlp :: "'a option \<Rightarrow> ('a \<Rightarrow> bool) \<Rightarrow> bool" where
  "wlp m Q = (case m of None \<Rightarrow> True | Some x \<Rightarrow> Q x)"

named_theorems wlp_simps \<open>computation of wlp\<close>
named_theorems wlp_rules \<open>rules of the operations\<close>

lemma wlp_basic [wlp_simps, simp]:
  "wlp None Q" "wlp (Some x) Q = Q x"
  "wlp (if b then m else m') Q = ((b \<longrightarrow> wlp m Q) \<and> (\<not> b \<longrightarrow> wlp m' Q))"
  by (simp_all add: wlp_def)

lemma wlp_bind [wlp_simps, simp]: "wlp (Option.bind m f) Q = wlp m (\<lambda>x. wlp (f x) Q)"
  by (cases m) simp_all

lemma wlp_mono: "wlp m P \<Longrightarrow> (\<And>x. P x \<Longrightarrow> Q x) \<Longrightarrow> wlp m Q"
  by (cases m) simp_all

lemma wlp_iff: "wlp m Q \<longleftrightarrow> (\<forall>x. m = Some x \<longrightarrow> Q x)"
  by (cases m) simp_all

text \<open>\<open>returns m Q\<close>: \<open>m\<close> returns, and its result satisfies \<open>Q\<close>.\<close>

definition returns :: "'a option \<Rightarrow> ('a \<Rightarrow> bool) \<Rightarrow> bool" where
  "returns m Q = (case m of None \<Rightarrow> False | Some x \<Rightarrow> Q x)"

lemma returns_basic [simp]:
  "\<not> returns None Q" "returns (Some x) Q = Q x"
  "returns (if b then m else m') Q = ((b \<longrightarrow> returns m Q) \<and> (\<not> b \<longrightarrow> returns m' Q))"
  by (simp_all add: returns_def)

lemma returns_bind [simp]: "returns (Option.bind m f) Q = returns m (\<lambda>x. returns (f x) Q)"
  by (cases m) simp_all

lemma returns_map_option [simp]: "returns (map_option g m) Q = returns m (\<lambda>x. Q (g x))"
  by (cases m) simp_all

lemma returns_iff: "returns m Q \<longleftrightarrow> (\<exists>x. m = Some x \<and> Q x)"
  by (cases m) (simp_all add: returns_def)

text \<open>What holds whenever another thread has run.\<close>

definition env_keeps :: "('a kstate_scheme \<Rightarrow> bool) \<Rightarrow> ('a kstate_scheme, 'b) env_scheme \<Rightarrow> bool" where
  "env_keeps P e \<longleftrightarrow> (\<forall>n d. P d \<longrightarrow> P (others e n d))"

definition tick_free :: "('a kstate_scheme \<Rightarrow> bool) \<Rightarrow> bool" where
  "tick_free P \<longleftrightarrow> (\<forall>d n. P (d\<lparr>tick := n\<rparr>) = P d)"

lemma yield_keeps: "env_keeps P e \<Longrightarrow> tick_free P \<Longrightarrow> P d \<Longrightarrow> P (yield e d)"
  by (simp add: yield_def env_keeps_def tick_free_def)

lemma wlp_down:
  assumes "env_keeps P e" "tick_free P" "P d" "\<And>d. P d \<Longrightarrow> Q (upd (\<lambda>n. n - 1) d)"
  shows "wlp (down e get upd d) Q"
  using assms yield_keeps by (fastforce simp: down_def Let_def)

lemma wlp_down_interruptible:
  assumes "env_keeps P e" "tick_free P" "P d" "\<And>d. P d \<Longrightarrow> Q (0, upd (\<lambda>n. n - 1) d)"
    and "\<And>d. P d \<Longrightarrow> Q (- EINTR, d)"
  shows "wlp (down_interruptible e get upd d) Q"
  using assms yield_keeps by (fastforce simp: down_interruptible_def Let_def)

lemma wlp_wait_event_interruptible:
  assumes "env_keeps P e" "tick_free P" "P d" "\<And>r d. P d \<Longrightarrow> Q (r, d)"
  shows "wlp (wait_event_interruptible e timeout cond d) Q"
  using assms yield_keeps by (fastforce simp: wait_event_interruptible_def Let_def)

lemma wlp_wait_event:
  assumes "env_keeps P e" "tick_free P" "P d" "\<And>d. P d \<Longrightarrow> cond d \<Longrightarrow> Q d"
  shows "wlp (wait_event e cond d) Q"
  using assms yield_keeps by (fastforce simp: wait_event_def Let_def)

subsection \<open>Environments for closed runs\<close>

text \<open>Nobody else runs, no signal arrives, and memory comes from a pool of 64 addresses.\<close>

definition quiet_env :: "'s env" where
  "quiet_env = \<lparr>others = (\<lambda>n d. d), intr = (\<lambda>n. False),
     kmalloc = (\<lambda>n used. find (\<lambda>a. \<not> used a) [0..<64])\<rparr>"

lemma quiet_env_fresh: "kmalloc_fresh quiet_env"
  by (auto simp: kmalloc_fresh_def quiet_env_def find_Some_iff)

end
