(* ===== verification/PncProto.thy ===== *)
theory PncProto
  imports PncRing
begin

text \<open>
  The protocol between the driver and the secure world (\<open>drivers/provencore/ree/ree.h\<close>, and the public
  constants of \<open>include/misc/provencore/ree_session.h\<close>): messages, actions, session states,
  notification and signal registers, and the layout of the reserved part of the shared memory.
\<close>

subsection \<open>Constants\<close>

named_theorems proto_consts \<open>constants of the protocol\<close>

definition REE_MAGIC_1 :: u32 where [proto_consts]: "REE_MAGIC_1 = 0xdeadcafe"
definition REE_MAGIC_2 :: u32 where [proto_consts]: "REE_MAGIC_2 = 0xfee1ca4e"
definition REE_RESERVED_PAGES :: nat where [proto_consts]: "REE_RESERVED_PAGES = 3"
definition REE_MAX_SESSIONS :: nat where [proto_consts]: "REE_MAX_SESSIONS = 28"
definition REE_VERSION :: u32 where [proto_consts]: "REE_VERSION = 0x303"
definition PAGE_SHIFT :: nat where [proto_consts]: "PAGE_SHIFT = 12"
definition PAGE_SIZE :: nat where [proto_consts]: "PAGE_SIZE = 4096"

definition BIT :: "nat \<Rightarrow> u32" where
  "BIT x = push_bit x 1"

definition E_RESET :: u32 where [proto_consts]: "E_RESET = BIT 31"
definition E_MESSAGE :: u32 where [proto_consts]: "E_MESSAGE = BIT 30"
definition E_SIGNAL :: "nat \<Rightarrow> u32" where [proto_consts]: "E_SIGNAL s = BIT s"
definition SESSIONS_SIGNAL_MASK :: u32 where [proto_consts]: "SESSIONS_SIGNAL_MASK = 0x0FFFFFFF"

definition SESSION_MAX_SIMULTANEOUS_MSG :: nat where
  [proto_consts]: "SESSION_MAX_SIMULTANEOUS_MSG = 5"
definition PNC_MESSAGE_RING_SLOT_CAPACITY :: u32 where
  [proto_consts]: "PNC_MESSAGE_RING_SLOT_CAPACITY = 0x100"

definition EVENT_PENDING_SIGNAL :: u32 where [proto_consts]: "EVENT_PENDING_SIGNAL = push_bit 0 1"
definition EVENT_PENDING_REQUEST :: u32 where [proto_consts]: "EVENT_PENDING_REQUEST = push_bit 1 1"
definition EVENT_PENDING_RESPONSE :: u32 where [proto_consts]: "EVENT_PENDING_RESPONSE = push_bit 2 1"
definition EVENT_PENDING_ALL :: u32 where
  [proto_consts]: "EVENT_PENDING_ALL =
     EVENT_PENDING_SIGNAL OR EVENT_PENDING_REQUEST OR EVENT_PENDING_RESPONSE"

definition NO_TIMEOUT :: u32 where [proto_consts]: "NO_TIMEOUT = 0"
definition REQUEST_CANCEL_OK :: u32 where [proto_consts]: "REQUEST_CANCEL_OK = 0xABE00001"
definition REQUEST_CANCEL_RESPONSE :: u32 where [proto_consts]: "REQUEST_CANCEL_RESPONSE = 0xABE00002"

text \<open>A 32-bit unsigned value stored in a C \<open>int\<close>.\<close>

definition int_of_u32 :: "u32 \<Rightarrow> int" where
  "int_of_u32 w = sint w"

subsection \<open>Messages\<close>

record pnc_message =
  msg_p0 :: u64
  msg_p1 :: u32
  msg_p2 :: u16
  msg_index :: u8
  msg_action :: u8

definition zero_message :: pnc_message where
  "zero_message = \<lparr>msg_p0 = 0, msg_p1 = 0, msg_p2 = 0, msg_index = 0, msg_action = 0\<rparr>"

text \<open>
  The enumeration \<open>session_action\<close>; a message carries its number as a byte, and a byte that is no
  number of the enumeration is what the \<open>default\<close> branch of a switch sees (\<open>None\<close>).
\<close>

datatype session_action =
    A_REQUEST | A_RESPONSE | A_CONFIG | A_CONFIG_ACK | A_CANCEL | A_CANCEL_ACK | A_TERM | A_TERM_ACK

fun action_code :: "session_action \<Rightarrow> u8" where
  "action_code A_REQUEST = 0"
| "action_code A_RESPONSE = 1"
| "action_code A_CONFIG = 2"
| "action_code A_CONFIG_ACK = 3"
| "action_code A_CANCEL = 4"
| "action_code A_CANCEL_ACK = 5"
| "action_code A_TERM = 6"
| "action_code A_TERM_ACK = 7"

definition action_of_code :: "u8 \<Rightarrow> session_action option" where
  "action_of_code b =
     (if b = 0 then Some A_REQUEST else if b = 1 then Some A_RESPONSE
      else if b = 2 then Some A_CONFIG else if b = 3 then Some A_CONFIG_ACK
      else if b = 4 then Some A_CANCEL else if b = 5 then Some A_CANCEL_ACK
      else if b = 6 then Some A_TERM else if b = 7 then Some A_TERM_ACK else None)"

lemma action_roundtrip [simp]: "action_of_code (action_code a) = Some a"
  by (cases a) (simp_all add: action_of_code_def)

lemma action_of_code_eq: "action_of_code b = Some a \<longleftrightarrow> b = action_code a"
  by (cases a) (auto simp: action_of_code_def)

text \<open>The enumeration in its order, so that statements on all actions compute.\<close>

instantiation session_action :: enum
begin

definition enum_session_action :: "session_action list" where
  "enum_session_action = [A_REQUEST, A_RESPONSE, A_CONFIG, A_CONFIG_ACK, A_CANCEL, A_CANCEL_ACK, A_TERM, A_TERM_ACK]"

definition enum_all_session_action :: "(session_action \<Rightarrow> bool) \<Rightarrow> bool" where
  "enum_all_session_action P = list_all P enum_class.enum"

definition enum_ex_session_action :: "(session_action \<Rightarrow> bool) \<Rightarrow> bool" where
  "enum_ex_session_action P = list_ex P enum_class.enum"

instance
proof
  show univ: "UNIV = set (enum_class.enum :: session_action list)"
    using session_action.exhaust by (auto simp: enum_session_action_def)
  show "distinct (enum_class.enum :: session_action list)" by (simp add: enum_session_action_def)
  show "enum_class.enum_all P = Ball UNIV P" for P :: "session_action \<Rightarrow> bool"
    by (simp add: enum_all_session_action_def list_all_iff univ)
  show "enum_class.enum_ex P = Bex UNIV P" for P :: "session_action \<Rightarrow> bool"
    by (simp add: enum_ex_session_action_def list_ex_iff univ)
qed

end

text \<open>The numbers of the actions are their places in the enumeration.\<close>

lemma action_code_place: "map action_code enum_class.enum = map of_nat [0..<8]"
  by (simp add: enum_session_action_def upt_rec)

subsection \<open>Session states\<close>

datatype session_state =
    S_NULL | S_CONFIG_WAITING | S_CONFIGURED | S_TERM_WAITING | S_IDLE | S_NOTIFIED | S_BUSY
  | S_WAITING | S_CANCEL_WAITING | S_TERMINATING

subsection \<open>The reserved part of the shared memory\<close>

record pnc_header =
  hdr_magic :: u32
  hdr_version :: u32
  hdr_reserved_pages :: u16
  hdr_max_sessions :: u16
  hdr_rfu :: u32

record pnc_shm =
  shm_hdr :: pnc_header
  notif_ns_to_s :: u32
  notif_s_to_ns :: u32
  signals_ns_to_s :: "u32 list"
  signals_s_to_ns :: "u32 list"
  ring_ns_to_s :: "pnc_message uni_shared"
  ring_s_to_ns :: "pnc_message uni_shared"

text \<open>A cleared memory (\<open>alloc_pages\<close> with \<open>__GFP_ZERO\<close>, or \<open>memset\<close>).\<close>

definition zero_ring :: "pnc_message uni_shared" where
  "zero_ring = \<lparr>sh_prod = 0, sh_cons_limit = 0, sh_cons = 0, sh_prod_limit = 0,
     sh_array = replicate (unat PNC_MESSAGE_RING_SLOT_CAPACITY) zero_message\<rparr>"

definition zero_shm :: pnc_shm where
  "zero_shm = \<lparr>shm_hdr = \<lparr>hdr_magic = 0, hdr_version = 0, hdr_reserved_pages = 0,
       hdr_max_sessions = 0, hdr_rfu = 0\<rparr>,
     notif_ns_to_s = 0, notif_s_to_ns = 0,
     signals_ns_to_s = replicate REE_MAX_SESSIONS 0, signals_s_to_ns = replicate REE_MAX_SESSIONS 0,
     ring_ns_to_s = zero_ring, ring_s_to_ns = zero_ring\<rparr>"

text \<open>Sizes, in bytes, that the compiler computes for these structures.\<close>

definition sizeof_pnc_message :: nat where "sizeof_pnc_message = 16"
definition sizeof_ring_shared :: nat where "sizeof_ring_shared = 16"
definition sizeof_pnc_header :: nat where "sizeof_pnc_header = 16"
definition sizeof_pnc_message_ring :: nat where
  "sizeof_pnc_message_ring =
     sizeof_ring_shared + unat PNC_MESSAGE_RING_SLOT_CAPACITY * sizeof_pnc_message"
definition sizeof_pnc_shm :: nat where
  "sizeof_pnc_shm =
     sizeof_pnc_header + 2 * 4 + 2 * (REE_MAX_SESSIONS * 4) + 2 * sizeof_pnc_message_ring"

text \<open>The static assertions of \<open>ree.h\<close>.\<close>

lemma ring_capacity_asserts:
  "0 < PNC_MESSAGE_RING_SLOT_CAPACITY \<and>
   PNC_MESSAGE_RING_SLOT_CAPACITY AND (PNC_MESSAGE_RING_SLOT_CAPACITY - 1) = 0 \<and>
   REE_MAX_SESSIONS * SESSION_MAX_SIMULTANEOUS_MSG \<le> unat PNC_MESSAGE_RING_SLOT_CAPACITY"
  by (simp add: proto_consts)

lemma reserved_pages_assert: "sizeof_pnc_shm \<le> REE_RESERVED_PAGES * PAGE_SIZE"
  by (simp add: proto_consts sizeof_pnc_shm_def sizeof_pnc_header_def sizeof_pnc_message_ring_def
      sizeof_ring_shared_def sizeof_pnc_message_def)

end
