(* ===== verification/PncSmc.thy ===== *)
theory PncSmc
  imports PncKernel PncProto
begin

text \<open>
  Secure monitor calls (\<open>drivers/provencore/ree/smc.c\<close> and \<open>smc.h\<close>), in the configuration \<open>CONFIG_SMP\<close>. A
  call is an entry of \<open>smc_log\<close>: the CPU that executed it and the registers it passed. The answer of
  the monitor is a parameter of the environment (\<open>smc_answer\<close>), as is the CPU the thread runs on at
  a given tick (\<open>cpu\<close>). What the secure world does to the shared memory because of the call is seen
  by the driver at its next sleeping point, like the work of every other thread.
\<close>

record pnc_smc_params =
  a0 :: u32
  a1 :: u32
  a2 :: u32
  a3 :: u32
  a4 :: u32
  a5 :: u32
  a6 :: u32
  a7 :: u32

definition zero_params :: pnc_smc_params where
  "zero_params = \<lparr>a0 = 0, a1 = 0, a2 = 0, a3 = 0, a4 = 0, a5 = 0, a6 = 0, a7 = 0\<rparr>"

record smc_state = kstate +
  smc_wq :: bool
  smc_log :: "(nat \<times> pnc_smc_params) list"

record 's smc_env = "'s env" +
  cpu :: "nat \<Rightarrow> nat"
  smc_answer :: "pnc_smc_params \<Rightarrow> u32 \<times> u32 \<times> u32 \<times> u32"

subsection \<open>Function identifiers\<close>

definition SMC_32BIT :: u32 where "SMC_32BIT = 0"
definition SMC_FASTCALL :: u32 where "SMC_FASTCALL = 0x80000000"
definition ARM_SMCCC_OWNER_TRUSTED_OS :: u32 where "ARM_SMCCC_OWNER_TRUSTED_OS = 50"
definition ARM_SMCCC_OWNER_PNC :: u32 where
  "ARM_SMCCC_OWNER_PNC = ARM_SMCCC_OWNER_TRUSTED_OS + 13"
definition LINUX_SHARED_MEM_TAG :: u32 where "LINUX_SHARED_MEM_TAG = 0xcafe"

definition SMC_OWNER :: "u32 \<Rightarrow> u32" where
  "SMC_OWNER owner = push_bit 24 (owner AND 0x3f)"

definition SMC_FUNC_ID :: "u32 \<Rightarrow> u32 \<Rightarrow> u32 \<Rightarrow> u32 \<Rightarrow> u32" where
  "SMC_FUNC_ID arch type owner func = arch OR type OR SMC_OWNER owner OR (func AND 0xffff)"

definition SMC_ACTION_FROM_NS :: u32 where
  "SMC_ACTION_FROM_NS = SMC_FUNC_ID SMC_32BIT SMC_FASTCALL ARM_SMCCC_OWNER_PNC 4"

definition SMC_CONFIG_SHAREDMEM :: u32 where
  "SMC_CONFIG_SHAREDMEM = SMC_FUNC_ID SMC_32BIT SMC_FASTCALL ARM_SMCCC_OWNER_PNC 3"

lemmas smc_ids = SMC_ACTION_FROM_NS_def SMC_CONFIG_SHAREDMEM_def SMC_FUNC_ID_def SMC_OWNER_def
  SMC_32BIT_def SMC_FASTCALL_def ARM_SMCCC_OWNER_PNC_def ARM_SMCCC_OWNER_TRUSTED_OS_def

lemma smc_id_values:
  "SMC_ACTION_FROM_NS = 0xBF000004" "SMC_CONFIG_SHAREDMEM = 0xBF000003"
  by (simp_all add: smc_ids push_bit_eq_mult)

subsection \<open>Calls\<close>

text \<open>
  The call passes all eight registers and writes the first four back into the caller's parameters.
  \<open>do_smc\<close> runs on the CPU it is given.
\<close>

definition do_arm_smc_call :: "('s, 'b) smc_env_scheme \<Rightarrow> pnc_smc_params \<Rightarrow> pnc_smc_params" where
  "do_arm_smc_call e params =
     (case smc_answer e params of (r0, r1, r2, r3) \<Rightarrow>
        params\<lparr>a0 := r0, a1 := r1, a2 := r2, a3 := r3\<rparr>)"

definition do_smc ::
  "('s, 'b) smc_env_scheme \<Rightarrow> nat \<Rightarrow> pnc_smc_params \<Rightarrow> 'a smc_state_scheme
     \<Rightarrow> pnc_smc_params \<times> 'a smc_state_scheme" where
  "do_smc e c params d =
     (do_arm_smc_call e params, d\<lparr>smc_log := smc_log d @ [(c, params)]\<rparr>)"

text \<open>
  \<open>pnc_sched_smc\<close> runs the call on CPU 0: directly, with preemption off, when the caller is there,
  and as a work item of the dedicated queue otherwise (a queue that was never allocated is an invalid
  pointer).
\<close>

definition pnc_sched_smc ::
  "('s, 'b) smc_env_scheme \<Rightarrow> pnc_smc_params \<Rightarrow> 'a smc_state_scheme
     \<Rightarrow> (pnc_smc_params \<times> 'a smc_state_scheme) option" where
  "pnc_sched_smc e params d =
     (let cpuid = cpu e (tick d)
      in if cpuid = 0 then Some (do_smc e cpuid params d)
         else if \<not> smc_wq d then None
         else Some (do_smc e 0 params d))"

text \<open>
  \<open>smc_wq\<close> says that the queue exists. \<open>ok\<close> says whether \<open>alloc_workqueue\<close> succeeds. The failure is reported with a positive
  number.
\<close>

definition pnc_smc_init :: "bool \<Rightarrow> 'a smc_state_scheme \<Rightarrow> int \<times> 'a smc_state_scheme" where
  "pnc_smc_init ok d =
     (let d = d\<lparr>smc_wq := ok\<rparr> in if \<not> smc_wq d then (ENOMEM, d) else (0, d))"

definition pnc_smc_exit :: "'a smc_state_scheme \<Rightarrow> 'a smc_state_scheme" where
  "pnc_smc_exit d = (if smc_wq d then d\<lparr>smc_wq := False\<rparr> else d)"

lemma pnc_sched_smc_Some:
  assumes "smc_wq d"
  shows "pnc_sched_smc e params d = Some (do_smc e 0 params d)"
  using assms by (simp add: pnc_sched_smc_def Let_def)

text \<open>Everything runs on CPU 1, the monitor returns what it was given, and nobody else runs.\<close>

definition quiet_smc_env :: "'s smc_env" where
  "quiet_smc_env = env.extend quiet_env
     \<lparr>cpu = (\<lambda>n. 1), smc_answer = (\<lambda>p. (a0 p, a1 p, a2 p, a3 p))\<rparr>"

lemma quiet_smc_env_simps [simp]:
  "others quiet_smc_env n d = d" "intr quiet_smc_env n = False"
  "kmalloc quiet_smc_env n used = find (\<lambda>a. \<not> used a) [0..<64]"
  "cpu quiet_smc_env n = 1" "smc_answer quiet_smc_env p = (a0 p, a1 p, a2 p, a3 p)"
  by (simp_all add: quiet_smc_env_def quiet_env_def env.defs)

lemma quiet_smc_env_fresh [simp]: "kmalloc_fresh quiet_smc_env"
  by (auto simp: kmalloc_fresh_def find_Some_iff)

end
