(* ===== verification/PncShm.thy ===== *)
theory PncShm
  imports PncSmc
begin

text \<open>
  The shared memory and its page allocator (\<open>drivers/provencore/ree/shm.c\<close>). The blocks are a linked
  list in the heap of the kernel: \<open>heap\<close> maps the addresses that \<open>kmalloc\<close> returned to the blocks
  there, \<open>blocks\<close> is the head of the list. \<open>shm\<close> is the content of the reserved pages at
  \<open>shm_base\<close>, of which the allocator only uses the header.
\<close>

record pnc_shm_block =
  blk_free :: bool
  blk_offset :: u32
  blk_nr_pages :: u32
  blk_next :: "nat option"

type_synonym block_heap = "nat \<rightharpoonup> pnc_shm_block"

record shm_state = smc_state +
  shm_base :: u64
  shm_pbase :: u64
  shm_nr_pages :: u32
  shm_sem :: nat
  heap :: block_heap
  blocks :: "nat option"
  shm :: pnc_shm

subsection \<open>Initialisation\<close>

definition pnc_shm_init ::
  "('s, 'b) smc_env_scheme \<Rightarrow> u64 \<Rightarrow> u64 \<Rightarrow> u32 \<Rightarrow> 'a shm_state_scheme \<Rightarrow> int \<times> 'a shm_state_scheme" where
  "pnc_shm_init e vbase pbase nr_pages d =
     (let d = d\<lparr>shm_base := vbase, shm_pbase := pbase, shm_nr_pages := nr_pages, shm_sem := 1\<rparr>
      in case kmalloc e (tick d) (\<lambda>a. heap d a \<noteq> None) of
           None \<Rightarrow> (- ENOMEM, d)
         | Some b \<Rightarrow>
             (0, d\<lparr>heap := (heap d)(b \<mapsto>
                     \<lparr>blk_free = True, blk_offset = of_nat REE_RESERVED_PAGES,
                      blk_nr_pages = nr_pages - of_nat REE_RESERVED_PAGES, blk_next = None\<rparr>),
                   blocks := Some b\<rparr>))"

text \<open>The loop of \<open>pnc_shm_exit\<close>; reading \<open>next\<close> from an address that holds no block is invalid.\<close>

partial_function (option) free_loop :: "block_heap \<Rightarrow> nat option \<Rightarrow> block_heap option" where
  "free_loop h b =
     (case b of None \<Rightarrow> Some h
      | Some p \<Rightarrow> (case h p of None \<Rightarrow> None | Some blk \<Rightarrow> free_loop (h(p := None)) (blk_next blk)))"

definition pnc_shm_exit :: "'a shm_state_scheme \<Rightarrow> 'a shm_state_scheme option" where
  "pnc_shm_exit d =
     map_option (\<lambda>h. d\<lparr>heap := h, blocks := None\<rparr>) (free_loop (heap d) (blocks d))"

subsection \<open>Allocation\<close>

text \<open>
  How the search loop of \<open>pnc_shm_alloc\<close> is left: to the label \<open>found\<close>, to the label \<open>split\<close> or by
  falling out of the loop.
\<close>

datatype alloc_exit = Found nat | Split nat | Nomem

partial_function (option) alloc_loop ::
  "u32 \<Rightarrow> block_heap \<Rightarrow> nat option \<Rightarrow> (alloc_exit \<times> block_heap) option" where
  "alloc_loop nr_pages h b =
     (case b of None \<Rightarrow> Some (Nomem, h)
      | Some p \<Rightarrow> (case h p of None \<Rightarrow> None
        | Some blk \<Rightarrow>
            if \<not> blk_free blk then alloc_loop nr_pages h (blk_next blk)
            else if blk_nr_pages blk = nr_pages then Some (Found p, h)
            else if blk_nr_pages blk < nr_pages then
              (case blk_next blk of None \<Rightarrow> Some (Nomem, h)
               | Some n \<Rightarrow> (case h n of None \<Rightarrow> None
                 | Some nb \<Rightarrow>
                     if blk_free nb then
                       alloc_loop nr_pages
                         ((h(p \<mapsto> blk\<lparr>blk_nr_pages := blk_nr_pages blk + blk_nr_pages nb,
                                       blk_next := blk_next nb\<rparr>)) (n := None)) b
                     else alloc_loop nr_pages h (blk_next nb)))
            else
              (case blk_next blk of None \<Rightarrow> Some (Split p, h)
               | Some n \<Rightarrow> (case h n of None \<Rightarrow> None
                 | Some nb \<Rightarrow>
                     if blk_free nb then
                       Some (Found p,
                         h(n \<mapsto> nb\<lparr>blk_nr_pages := blk_nr_pages nb + (blk_nr_pages blk - nr_pages),
                                     blk_offset := blk_offset blk + nr_pages\<rparr>,
                           p \<mapsto> blk\<lparr>blk_nr_pages := nr_pages\<rparr>))
                     else Some (Split p, h)))))"

text \<open>The code at the label \<open>split\<close>, for an address \<open>n\<close> from \<open>kmalloc\<close>, and at the label \<open>found\<close>.\<close>

definition split_block :: "u32 \<Rightarrow> nat \<Rightarrow> nat \<Rightarrow> block_heap \<Rightarrow> block_heap" where
  "split_block nr_pages p n h =
     (case h p of None \<Rightarrow> h
      | Some blk \<Rightarrow>
          h(n \<mapsto> \<lparr>blk_free = True, blk_offset = blk_offset blk + nr_pages,
                   blk_nr_pages = blk_nr_pages blk - nr_pages, blk_next = blk_next blk\<rparr>,
            p \<mapsto> blk\<lparr>blk_next := Some n, blk_nr_pages := nr_pages\<rparr>))"

definition take_block :: "nat \<Rightarrow> block_heap \<Rightarrow> block_heap" where
  "take_block p h = h(p := map_option (blk_free_update (\<lambda>_. False)) (h p))"

text \<open>
  The part of \<open>pnc_shm_alloc\<close> under the semaphore. The result is the code to return and what is stored
  through \<open>block\<close> (\<open>None\<close>: nothing).
\<close>

definition shm_alloc_locked ::
  "('s, 'b) smc_env_scheme \<Rightarrow> u32 \<Rightarrow> nat option \<Rightarrow> 'a shm_state_scheme
     \<Rightarrow> (int \<times> nat option \<times> 'a shm_state_scheme) option" where
  "shm_alloc_locked e nr_pages b d =
     (case alloc_loop nr_pages (heap d) b of
        None \<Rightarrow> None
      | Some (Nomem, h) \<Rightarrow> Some (- ENOMEM, None, d\<lparr>heap := h\<rparr>)
      | Some (Split p, h) \<Rightarrow>
          (case kmalloc e (tick d) (\<lambda>a. h a \<noteq> None) of
             None \<Rightarrow> Some (- ENOMEM, None, d\<lparr>heap := h\<rparr>)
           | Some n \<Rightarrow> Some (0, Some p, d\<lparr>heap := take_block p (split_block nr_pages p n h)\<rparr>))
      | Some (Found p, h) \<Rightarrow> Some (0, Some p, d\<lparr>heap := take_block p h\<rparr>))"

text \<open>The head of the list is read before the semaphore is taken.\<close>

definition pnc_shm_alloc ::
  "('a shm_state_scheme, 'b) smc_env_scheme \<Rightarrow> u32 \<Rightarrow> 'a shm_state_scheme
     \<Rightarrow> (int \<times> nat option \<times> 'a shm_state_scheme) option" where
  "pnc_shm_alloc e nr_pages d =
     (let b = blocks d
      in do {
        (r, d) \<leftarrow> down_interruptible e shm_sem shm_sem_update d;
        if r \<noteq> 0 then Some (- ERESTARTSYS, None, d)
        else do {
          (ret, block, d) \<leftarrow> shm_alloc_locked e nr_pages b d;
          Some (ret, block, d\<lparr>shm_sem := shm_sem d + 1\<rparr>)
        }
      })"

subsection \<open>Release\<close>

definition shm_free_locked :: "nat \<Rightarrow> 'a shm_state_scheme \<Rightarrow> 'a shm_state_scheme option" where
  "shm_free_locked p d =
     (case heap d p of None \<Rightarrow> None
      | Some blk \<Rightarrow> Some (d\<lparr>heap := (heap d)(p \<mapsto> blk\<lparr>blk_free := True\<rparr>)\<rparr>))"

text \<open>The block is read for the debug message before the semaphore is taken.\<close>

definition pnc_shm_free ::
  "('a shm_state_scheme, 'b) smc_env_scheme \<Rightarrow> nat option \<Rightarrow> 'a shm_state_scheme
     \<Rightarrow> (int \<times> 'a shm_state_scheme) option" where
  "pnc_shm_free e b d =
     (case b of None \<Rightarrow> Some (0, d)
      | Some p \<Rightarrow>
          if heap d p = None then None
          else do {
            (r, d) \<leftarrow> down_interruptible e shm_sem shm_sem_update d;
            if r \<noteq> 0 then Some (- ERESTARTSYS, d)
            else do {
              d \<leftarrow> shm_free_locked p d;
              Some (0, d\<lparr>shm_sem := shm_sem d + 1\<rparr>)
            }
          })"

subsection \<open>Header and geometry\<close>

definition pnc_shm_ready :: "'a shm_state_scheme \<Rightarrow> bool" where
  "pnc_shm_ready d =
     (if shm_base d \<noteq> 0 then hdr_magic (shm_hdr (shm d)) = REE_MAGIC_2 else False)"

definition pnc_shm_base :: "'a shm_state_scheme \<Rightarrow> u64" where
  "pnc_shm_base d = shm_base d"

definition pnc_shm_init_header :: "'a shm_state_scheme \<Rightarrow> 'a shm_state_scheme option" where
  "pnc_shm_init_header d =
     (if shm_base d = 0 then None
      else Some (d\<lparr>shm := shm_hdr_update (\<lambda>h. h\<lparr>hdr_version := REE_VERSION,
             hdr_reserved_pages := of_nat REE_RESERVED_PAGES,
             hdr_max_sessions := of_nat REE_MAX_SESSIONS, hdr_magic := REE_MAGIC_1\<rparr>) (shm d)\<rparr>))"

text \<open>The parameters \<open>a5\<close> to \<open>a7\<close> are not set by the code: they are the argument \<open>stack\<close>.\<close>

definition pnc_shm_forward ::
  "('s, 'b) smc_env_scheme \<Rightarrow> pnc_smc_params \<Rightarrow> 'a shm_state_scheme \<Rightarrow> 'a shm_state_scheme option" where
  "pnc_shm_forward e stack d =
     (let params = stack\<lparr>a0 := SMC_CONFIG_SHAREDMEM, a1 := ucast (shm_pbase d),
                         a2 := ucast (drop_bit 32 (shm_pbase d)),
                         a3 := shm_nr_pages d * of_nat PAGE_SIZE, a4 := LINUX_SHARED_MEM_TAG\<rparr>
      in map_option snd (pnc_sched_smc e params d))"

end
