(* ===== verification/PncSession.thy ===== *)
theory PncSession
  imports PncShm
begin

text \<open>
  The state of the session framework (the globals of \<open>drivers/provencore/ree/session.c\<close>) and the
  functions through which the handlers and the API touch the rings and the registers shared with the
  secure world. A pointer into \<open>_sessions\<close> is an index into \<open>sessions\<close>; \<open>free\<close> and the semaphores are
  fields as in the source; a wait queue is the number of times it was woken. The work of the other threads
  and of the secure world is in the environment (see PncKernel); \<open>ring_peer\<close> is what the secure
  world does to a ring between the two reads of a checkout.
\<close>

record pnc_session =
  s_free :: bool
  s_index :: u32
  s_mem :: "nat option"
  s_global :: session_state
  s_server :: session_state
  s_client :: session_state
  s_server_message :: pnc_message
  s_client_message :: pnc_message
  s_sem :: nat
  s_event_pending :: u32
  s_event_wait :: nat

record drv = shm_state +
  session_ready :: bool
  session_waitq :: nat
  sessions :: "pnc_session list"
  ns_to_s_ring :: uni_producer
  s_to_ns_ring :: uni_consumer
  signal_session :: nat
  ree_version :: u32
  work_pending :: bool
  memory :: "nat \<Rightarrow> u8"

record 's drv_env = "'s smc_env" +
  ring_peer :: "nat \<Rightarrow> pnc_message uni_shared \<Rightarrow> pnc_message uni_shared"
  hz :: u32

subsection \<open>Session slots\<close>

definition sess :: "'a drv_scheme \<Rightarrow> nat \<Rightarrow> pnc_session" where
  "sess d i = sessions d ! i"

definition upd_sess :: "nat \<Rightarrow> (pnc_session \<Rightarrow> pnc_session) \<Rightarrow> 'a drv_scheme \<Rightarrow> 'a drv_scheme" where
  "upd_sess i f d = d\<lparr>sessions := (sessions d)[i := f (sess d i)]\<rparr>"

definition upd_sem :: "nat \<Rightarrow> (nat \<Rightarrow> nat) \<Rightarrow> 'a drv_scheme \<Rightarrow> 'a drv_scheme" where
  "upd_sem i f d = upd_sess i (s_sem_update f) d"

definition up_session :: "nat \<Rightarrow> 'a drv_scheme \<Rightarrow> 'a drv_scheme" where
  "up_session i d = upd_sem i Suc d"

definition down_session ::
  "('a drv_scheme, 'b) drv_env_scheme \<Rightarrow> nat \<Rightarrow> 'a drv_scheme \<Rightarrow> 'a drv_scheme option" where
  "down_session e i d = down e (\<lambda>d. s_sem (sess d i)) (upd_sem i) d"

definition down_session_interruptible ::
  "('a drv_scheme, 'b) drv_env_scheme \<Rightarrow> nat \<Rightarrow> 'a drv_scheme \<Rightarrow> (int \<times> 'a drv_scheme) option" where
  "down_session_interruptible e i d =
     down_interruptible e (\<lambda>d. s_sem (sess d i)) (upd_sem i) d"

text \<open>\<open>event_pending |= bits\<close> followed by \<open>wake_up_interruptible\<close>.\<close>

definition post_event :: "u32 \<Rightarrow> pnc_session \<Rightarrow> pnc_session" where
  "post_event bits s =
     s\<lparr>s_event_pending := s_event_pending s OR bits, s_event_wait := s_event_wait s + 1\<rparr>"

definition clear_event :: "u32 \<Rightarrow> pnc_session \<Rightarrow> pnc_session" where
  "clear_event bits s = s\<lparr>s_event_pending := s_event_pending s AND NOT bits\<rparr>"

text \<open>Waiting for \<open>_sessions_mutex\<close>: the other threads run until it is free.\<close>

definition lock_sessions :: "('a drv_scheme, 'b) drv_env_scheme \<Rightarrow> 'a drv_scheme \<Rightarrow> 'a drv_scheme" where
  "lock_sessions e d = yield e d"

subsection \<open>Notifying the secure world\<close>

definition notify_s :: "('a drv_scheme, 'b) drv_env_scheme \<Rightarrow> 'a drv_scheme \<Rightarrow> 'a drv_scheme option" where
  "notify_s e d = map_option snd (pnc_sched_smc e (zero_params\<lparr>a0 := SMC_ACTION_FROM_NS\<rparr>) d)"

text \<open>\<open>atomic_fetch_or\<close> on the NS-->S notification register, and \<open>notify_s\<close> if nothing was pending.\<close>

definition raise_notification ::
  "('a drv_scheme, 'b) drv_env_scheme \<Rightarrow> u32 \<Rightarrow> 'a drv_scheme \<Rightarrow> 'a drv_scheme option" where
  "raise_notification e bits d =
     (let ns_notifications = notif_ns_to_s (shm d);
          d = d\<lparr>shm := (shm d)\<lparr>notif_ns_to_s := ns_notifications OR bits\<rparr>\<rparr>
      in if ns_notifications = 0 then notify_s e d else Some d)"

definition notify_ns_message ::
  "('a drv_scheme, 'b) drv_env_scheme \<Rightarrow> 'a drv_scheme \<Rightarrow> 'a drv_scheme option" where
  "notify_ns_message e d =
     (let (ret, p, sh) = producer_commit (ns_to_s_ring d) (ring_ns_to_s (shm d));
          d = d\<lparr>ns_to_s_ring := p, shm := (shm d)\<lparr>ring_ns_to_s := sh\<rparr>\<rparr>
      in if ret then raise_notification e E_MESSAGE d else Some d)"

definition write_ns_message ::
  "('a drv_scheme, 'b) drv_env_scheme \<Rightarrow> pnc_message \<Rightarrow> 'a drv_scheme \<Rightarrow> 'a drv_scheme" where
  "write_ns_message e msg d =
     (let (_, p, sh) = producer_checkout (ring_peer e (tick d)) (ns_to_s_ring d) (ring_ns_to_s (shm d));
          (_, p, sh) = producer_produce p sh msg
      in d\<lparr>ns_to_s_ring := p, shm := (shm d)\<lparr>ring_ns_to_s := sh\<rparr>\<rparr>)"

definition invalidate_sessions :: "'a drv_scheme \<Rightarrow> 'a drv_scheme option" where
  "invalidate_sessions d = pnc_shm_init_header (d\<lparr>session_ready := False\<rparr>)"

text \<open>\<open>atomic_exchange\<close> with 0 on a signal register; the value read and the new registers.\<close>

definition clear_ns_to_s_signals :: "u32 \<Rightarrow> 'a drv_scheme \<Rightarrow> 'a drv_scheme" where
  "clear_ns_to_s_signals i d =
     d\<lparr>shm := (shm d)\<lparr>signals_ns_to_s := (signals_ns_to_s (shm d))[unat i := 0]\<rparr>\<rparr>"

definition take_s_to_ns_signals :: "u32 \<Rightarrow> 'a drv_scheme \<Rightarrow> u32 \<times> 'a drv_scheme" where
  "take_s_to_ns_signals i d =
     (signals_s_to_ns (shm d) ! unat i,
      d\<lparr>shm := (shm d)\<lparr>signals_s_to_ns := (signals_s_to_ns (shm d))[unat i := 0]\<rparr>\<rparr>)"

text \<open>A message with the index of a session and an action, everything else 0.\<close>

definition new_message :: "u32 \<Rightarrow> session_action \<Rightarrow> pnc_message" where
  "new_message i a = zero_message\<lparr>msg_index := ucast i, msg_action := action_code a\<rparr>"

subsection \<open>Checks and waiting, shared by the API\<close>

definition check_session_configured ::
  "('a drv_scheme, 'b) drv_env_scheme \<Rightarrow> nat \<Rightarrow> 'a drv_scheme \<Rightarrow> (int \<times> 'a drv_scheme) option" where
  "check_session_configured e i d =
     (if \<not> session_ready d then Some (- EAGAIN, d)
      else if \<not> pnc_shm_ready d then Some (- ENOENT, d)
      else do {
        (r, d) \<leftarrow> down_session_interruptible e i d;
        if r \<noteq> 0 then Some (- ERESTARTSYS, d)
        else
          let s = sess d i;
              ret = (if of_nat REE_MAX_SESSIONS \<le> s_index s then - EINVAL
                     else if s_free s then - EINVAL
                     else if s_global s \<noteq> S_CONFIGURED then - ENODEV
                     else 0)
          in Some (ret, up_session i d)
      })"

definition check_and_handle_terminated_session ::
  "('a drv_scheme, 'b) drv_env_scheme \<Rightarrow> nat \<Rightarrow> 'a drv_scheme \<Rightarrow> (int \<times> 'a drv_scheme) option" where
  "check_and_handle_terminated_session e i d =
     (if s_global (sess d i) = S_CONFIGURED then Some (0, d)
      else do {
        (r, d) \<leftarrow> down_session_interruptible e i d;
        if r \<noteq> 0 then Some (- ERESTARTSYS, d)
        else if s_global (sess d i) = S_TERM_WAITING then
          Some (0, up_session i (upd_sess i (s_global_update (\<lambda>_. S_NULL)) d))
        else do {
          let d = (if s_global (sess d i) \<noteq> S_NULL
                   then upd_sess i (s_global_update (\<lambda>_. S_NULL)) d else d);
          d \<leftarrow> (if s_mem (sess d i) \<noteq> None then do {
                  (_, d) \<leftarrow> pnc_shm_free e (s_mem (sess d i)) d;
                  Some (upd_sess i (s_mem_update (\<lambda>_. None)) d)
                } else Some d);
          let d = up_session i d;
          let d = lock_sessions e d;
          Some (- EPIPE, upd_sess i (s_free_update (\<lambda>_. True)) d)
        }
      })"

text \<open>
  The jiffies of a timeout in milliseconds, in 32-bit arithmetic. The result of \<open>wait_session_event\<close> is the
  code and what is stored through \<open>events\<close> when that is not \<open>NULL\<close>.
\<close>

definition timeout_jiffies :: "u32 \<Rightarrow> u32 \<Rightarrow> u32" where
  "timeout_jiffies HZ timeout = (timeout * HZ) div 1000"

definition wait_session_event ::
  "('a drv_scheme, 'b) drv_env_scheme \<Rightarrow> nat \<Rightarrow> u32 \<Rightarrow> u32 \<Rightarrow> 'a drv_scheme
     \<Rightarrow> (int \<times> u32 option \<times> 'a drv_scheme) option" where
  "wait_session_event e i evmask timeout d =
     (let evmask = evmask AND EVENT_PENDING_ALL;
          cond = (\<lambda>d. s_event_pending (sess d i) AND evmask \<noteq> 0)
      in do {
        (ret, d) \<leftarrow>
          (if timeout \<noteq> 0 then do {
             (ret, d) \<leftarrow> wait_event_interruptible e (Some (timeout_jiffies (hz e) timeout)) cond d;
             Some (if ret = 0 then - ETIMEDOUT else if 1 \<le> ret then 0 else ret, d)
           } else wait_event_interruptible e None cond d);
        (r, d) \<leftarrow> down_session_interruptible e i d;
        if r \<noteq> 0 then Some (- ERESTARTSYS, None, d)
        else do {
          let (events, d) =
            (if ret = 0
             then (Some (s_event_pending (sess d i) AND evmask), upd_sess i (clear_event evmask) d)
             else (None, d));
          let d = up_session i d;
          (ret2, d) \<leftarrow> check_and_handle_terminated_session e i d;
          Some (if ret2 = 0 then ret else ret2, events, d)
        }
      })"

definition TERMINATION_TIMEOUT :: u32 where [proto_consts]: "TERMINATION_TIMEOUT = 500"

definition send_term ::
  "('a drv_scheme, 'b) drv_env_scheme \<Rightarrow> nat \<Rightarrow> 'a drv_scheme \<Rightarrow> 'a drv_scheme option" where
  "send_term e i d =
     do {
       let d = clear_ns_to_s_signals (s_index (sess d i)) d;
       (r, d) \<leftarrow> down_session_interruptible e i d;
       if r \<noteq> 0 then Some d
       else do {
         let d = write_ns_message e (new_message (s_index (sess d i)) A_TERM) d;
         let d = upd_sess i (s_global_update (\<lambda>_. S_TERM_WAITING)) d;
         let d = up_session i d;
         d \<leftarrow> notify_ns_message e d;
         (_, _, d) \<leftarrow> wait_session_event e i EVENT_PENDING_RESPONSE TERMINATION_TIMEOUT d;
         Some d
       }
     }"

text \<open>
  \<open>pnc_session_close\<close>: \<open>None\<close> is the null pointer. A failed wait for the semaphore does not stop it; it is
  remembered so that the semaphore is only given back when it was taken.
\<close>

definition pnc_session_close ::
  "('a drv_scheme, 'b) drv_env_scheme \<Rightarrow> nat option \<Rightarrow> 'a drv_scheme \<Rightarrow> 'a drv_scheme option" where
  "pnc_session_close e session d =
     (case session of None \<Rightarrow> Some d
      | Some i \<Rightarrow> do {
          (ret, d) \<leftarrow> check_session_configured e i d;
          d \<leftarrow> (if ret = 0 then send_term e i d else Some d);
          (ret, d) \<leftarrow> down_session_interruptible e i d;
          let d = upd_sess i (s_global_update (\<lambda>_. S_NULL)) d;
          (_, d) \<leftarrow> pnc_shm_free e (s_mem (sess d i)) d;
          let d = upd_sess i (\<lambda>s. s\<lparr>s_mem := None, s_event_pending := EVENT_PENDING_ALL,
                                       s_event_wait := s_event_wait s + 1\<rparr>) d;
          let d = (if ret = 0 then up_session i d else d);
          let d = lock_sessions e d;
          Some (upd_sess i (s_free_update (\<lambda>_. True)) d)
        })"

end
