(* ===== verification/PncHandlers.thy ===== *)
theory PncHandlers
  imports PncSession
begin

text \<open>
  The non-secure side of the protocol that the secure world drives (\<open>session.c\<close>): one handler per
  action, the notification worker, the interrupt handler, and the start and the end of the session
  framework.
\<close>

subsection \<open>Messages\<close>

definition handle_s_request :: "pnc_message \<Rightarrow> 'a drv_scheme \<Rightarrow> 'a drv_scheme" where
  "handle_s_request m d =
     (let i = unat (msg_index m); s = sess d i
      in if s_global s = S_CONFIGURED then
           (case s_server s of
              S_IDLE \<Rightarrow>
                upd_sess i (\<lambda>s. (post_event EVENT_PENDING_REQUEST (s\<lparr>s_server_message := m\<rparr>))
                                  \<lparr>s_server := S_NOTIFIED\<rparr>) d
            | _ \<Rightarrow> d)
         else d)"

definition handle_s_response :: "pnc_message \<Rightarrow> 'a drv_scheme \<Rightarrow> 'a drv_scheme" where
  "handle_s_response m d =
     (let i = unat (msg_index m); s = sess d i
      in if s_global s = S_CONFIGURED then
           (if s_client s = S_WAITING \<or> s_client s = S_CANCEL_WAITING then
              upd_sess i (\<lambda>s. (post_event EVENT_PENDING_RESPONSE (s\<lparr>s_client_message := m\<rparr>))
                                \<lparr>s_client := S_NOTIFIED\<rparr>) d
            else d)
         else d)"

definition handle_s_config_ack :: "pnc_message \<Rightarrow> 'a drv_scheme \<Rightarrow> 'a drv_scheme" where
  "handle_s_config_ack m d =
     (let i = unat (msg_index m); s = sess d i
      in if s_global s = S_CONFIG_WAITING then
           upd_sess i (\<lambda>s. post_event EVENT_PENDING_RESPONSE
             (if msg_p1 m = 0
              then s\<lparr>s_global := S_CONFIGURED, s_server := S_IDLE, s_client := S_IDLE\<rparr>
              else s\<lparr>s_global := S_NULL, s_client_message := m\<rparr>)) d
         else d)"

definition handle_s_cancel ::
  "('a drv_scheme, 'b) drv_env_scheme \<Rightarrow> pnc_message \<Rightarrow> 'a drv_scheme \<Rightarrow> 'a drv_scheme" where
  "handle_s_cancel e m d =
     (let i = unat (msg_index m); s = sess d i
      in if s_global s = S_CONFIGURED then
           (case s_server s of
              S_NOTIFIED \<Rightarrow>
                (let d = upd_sess i (s_server_message_update (\<lambda>_. zero_message)) d;
                     d = write_ns_message e (new_message (s_index s) A_CANCEL_ACK) d
                 in upd_sess i (s_server_update (\<lambda>_. S_IDLE)) d)
            | _ \<Rightarrow> d)
         else d)"

definition handle_s_cancel_ack :: "pnc_message \<Rightarrow> 'a drv_scheme \<Rightarrow> 'a drv_scheme" where
  "handle_s_cancel_ack m d =
     (let i = unat (msg_index m); s = sess d i
      in if s_global s = S_CONFIGURED then
           (case s_client s of
              S_CANCEL_WAITING \<Rightarrow>
                upd_sess i (\<lambda>s. (post_event EVENT_PENDING_RESPONSE (s\<lparr>s_client_message := m\<rparr>))
                                  \<lparr>s_client := S_NOTIFIED\<rparr>) d
            | _ \<Rightarrow> d)
         else d)"

definition handle_s_term ::
  "('a drv_scheme, 'b) drv_env_scheme \<Rightarrow> pnc_message \<Rightarrow> 'a drv_scheme \<Rightarrow> 'a drv_scheme" where
  "handle_s_term e m d =
     (let i = unat (msg_index m); s = sess d i;
          d = (if s_global s = S_CONFIGURED then
                 upd_sess i (\<lambda>s. s\<lparr>s_event_pending := EVENT_PENDING_ALL,
                                      s_event_wait := s_event_wait s + 1\<rparr>)
                   (clear_ns_to_s_signals (s_index s) d)
               else d);
          d = write_ns_message e (new_message (s_index s) A_TERM_ACK) d
      in upd_sess i (s_global_update (\<lambda>_. S_NULL)) d)"

definition handle_s_term_ack :: "pnc_message \<Rightarrow> 'a drv_scheme \<Rightarrow> 'a drv_scheme" where
  "handle_s_term_ack m d =
     (let i = unat (msg_index m); s = sess d i
      in if s_global s = S_TERM_WAITING then upd_sess i (post_event EVENT_PENDING_RESPONSE) d else d)"

text \<open>The switch of \<open>handle_s_message\<close>, under the semaphore of the session.\<close>

definition dispatch_message ::
  "('a drv_scheme, 'b) drv_env_scheme \<Rightarrow> pnc_message \<Rightarrow> 'a drv_scheme \<Rightarrow> 'a drv_scheme" where
  "dispatch_message e m d =
     (case action_of_code (msg_action m) of
        Some A_REQUEST \<Rightarrow> handle_s_request m d
      | Some A_RESPONSE \<Rightarrow> handle_s_response m d
      | Some A_CONFIG \<Rightarrow> d
      | Some A_CONFIG_ACK \<Rightarrow> handle_s_config_ack m d
      | Some A_CANCEL \<Rightarrow> handle_s_cancel e m d
      | Some A_CANCEL_ACK \<Rightarrow> handle_s_cancel_ack m d
      | Some A_TERM \<Rightarrow> handle_s_term e m d
      | Some A_TERM_ACK \<Rightarrow> handle_s_term_ack m d
      | None \<Rightarrow> d)"

definition handle_s_message ::
  "('a drv_scheme, 'b) drv_env_scheme \<Rightarrow> pnc_message \<Rightarrow> 'a drv_scheme \<Rightarrow> 'a drv_scheme option" where
  "handle_s_message e m d =
     (if REE_MAX_SESSIONS \<le> unat (msg_index m) \<or> s_free (sess d (unat (msg_index m))) then Some d
      else do {
        d \<leftarrow> down_session e (unat (msg_index m)) d;
        Some (up_session (unat (msg_index m)) (dispatch_message e m d))
      })"

definition handle_s_signal ::
  "('a drv_scheme, 'b) drv_env_scheme \<Rightarrow> nat \<Rightarrow> 'a drv_scheme \<Rightarrow> 'a drv_scheme option" where
  "handle_s_signal e i d =
     do {
       d \<leftarrow> down_session e i d;
       Some (up_session i (upd_sess i (post_event EVENT_PENDING_SIGNAL) d))
     }"

text \<open>Closing every session in use, from index \<open>i\<close> on.\<close>

function close_sessions ::
  "('a drv_scheme, 'b) drv_env_scheme \<Rightarrow> nat \<Rightarrow> 'a drv_scheme \<Rightarrow> 'a drv_scheme option" where
  "close_sessions e i d =
     (if i < REE_MAX_SESSIONS then do {
        d \<leftarrow> (if \<not> s_free (sess d i) then pnc_session_close e (Some i) d else Some d);
        close_sessions e (Suc i) d
      } else Some d)"
  by pat_completeness auto
termination by (relation "measure (\<lambda>(e, i, d). REE_MAX_SESSIONS - i)") auto

text \<open>\<open>a5\<close> to \<open>a7\<close> of the call in \<open>pnc_shm_forward\<close> are whatever the stack holds.\<close>

definition handle_s_reset ::
  "('a drv_scheme, 'b) drv_env_scheme \<Rightarrow> pnc_smc_params \<Rightarrow> 'a drv_scheme \<Rightarrow> 'a drv_scheme option" where
  "handle_s_reset e stack d =
     do {
       d \<leftarrow> close_sessions e 0 d;
       d \<leftarrow> invalidate_sessions d;
       d \<leftarrow> pnc_shm_forward e stack d;
       notify_s e d
     }"

subsection \<open>The notification worker\<close>

text \<open>The index of the session after the one in slot \<open>i\<close>.\<close>

definition next_session :: "nat \<Rightarrow> 'a drv_scheme \<Rightarrow> nat" where
  "next_session i d = unat ((s_index (sess d i) + 1) mod of_nat REE_MAX_SESSIONS)"

partial_function (option) signal_loop ::
  "('a drv_scheme, 'b) drv_env_scheme \<Rightarrow> u32 \<Rightarrow> nat \<Rightarrow> 'a drv_scheme \<Rightarrow> 'a drv_scheme option" where
  "signal_loop e signals i d =
     do {
       d \<leftarrow> (if signals AND push_bit (unat (s_index (sess d i))) 1 \<noteq> 0 then handle_s_signal e i d
             else Some d);
       if next_session i d \<noteq> signal_session d then signal_loop e signals (next_session i d) d
       else Some d
     }"

partial_function (option) consume_loop ::
  "('a drv_scheme, 'b) drv_env_scheme \<Rightarrow> 'a drv_scheme \<Rightarrow> 'a drv_scheme option" where
  "consume_loop e d =
     (let (m, c) = consumer_consume (s_to_ns_ring d) (ring_s_to_ns (shm d));
          d = d\<lparr>s_to_ns_ring := c\<rparr>
      in case m of None \<Rightarrow> Some d
         | Some m \<Rightarrow> do { d \<leftarrow> handle_s_message e m d; consume_loop e d })"

partial_function (option) message_loop ::
  "('a drv_scheme, 'b) drv_env_scheme \<Rightarrow> 'a drv_scheme \<Rightarrow> 'a drv_scheme option" where
  "message_loop e d =
     (let (ok, c, sh) = consumer_checkout (ring_peer e (tick d)) (s_to_ns_ring d) (ring_s_to_ns (shm d));
          d = d\<lparr>s_to_ns_ring := c, shm := (shm d)\<lparr>ring_s_to_ns := sh\<rparr>\<rparr>
      in if ok then do { d \<leftarrow> consume_loop e d; message_loop e d } else Some d)"

definition commit_messages :: "'a drv_scheme \<Rightarrow> 'a drv_scheme" where
  "commit_messages d =
     (let (_, c, sh) = consumer_commit (s_to_ns_ring d) (ring_s_to_ns (shm d))
      in d\<lparr>s_to_ns_ring := c, shm := (shm d)\<lparr>ring_s_to_ns := sh\<rparr>\<rparr>)"

definition handle_signals ::
  "('a drv_scheme, 'b) drv_env_scheme \<Rightarrow> u32 \<Rightarrow> 'a drv_scheme \<Rightarrow> 'a drv_scheme option" where
  "handle_signals e signals d =
     (if signals \<noteq> 0 then do {
        d \<leftarrow> signal_loop e signals (signal_session d) d;
        Some (d\<lparr>signal_session := next_session (signal_session d) d\<rparr>)
      } else Some d)"

definition handle_messages ::
  "('a drv_scheme, 'b) drv_env_scheme \<Rightarrow> 'a drv_scheme \<Rightarrow> 'a drv_scheme option" where
  "handle_messages e d =
     do {
       d \<leftarrow> message_loop e d;
       notify_ns_message e (commit_messages d)
     }"

definition handle_s_notification ::
  "('a drv_scheme, 'b) drv_env_scheme \<Rightarrow> pnc_smc_params \<Rightarrow> 'a drv_scheme \<Rightarrow> 'a drv_scheme option" where
  "handle_s_notification e stack d =
     (let d = d\<lparr>work_pending := False\<rparr>
      in if \<not> pnc_shm_ready d then Some d
      else
        let s_notifications = notif_s_to_ns (shm d);
            d = d\<lparr>shm := (shm d)\<lparr>notif_s_to_ns := 0\<rparr>\<rparr>
        in if s_notifications AND E_RESET \<noteq> 0 then handle_s_reset e stack d
           else do {
             d \<leftarrow> handle_signals e (s_notifications AND SESSIONS_SIGNAL_MASK) d;
             if s_notifications AND E_MESSAGE \<noteq> 0 then handle_messages e d else Some d
           })"

subsection \<open>The interrupt handler\<close>

definition pnc_session_interrupt_handler :: "'a drv_scheme \<Rightarrow> 'a drv_scheme" where
  "pnc_session_interrupt_handler d =
     (if \<not> session_ready d then
        (if pnc_shm_ready d then
           d\<lparr>ree_version := hdr_version (shm_hdr (shm d)), session_ready := True,
             session_waitq := session_waitq d + 1, work_pending := True\<rparr>
         else d)
      else d\<lparr>work_pending := True\<rparr>)"

subsection \<open>Start and end of the framework\<close>

definition initial_session :: "nat \<Rightarrow> pnc_session" where
  "initial_session index =
     \<lparr>s_free = True, s_index = of_nat index, s_mem = None, s_global = S_NULL, s_server = S_NULL,
      s_client = S_NULL, s_server_message = zero_message, s_client_message = zero_message, s_sem = 1,
      s_event_pending = 0, s_event_wait = 0\<rparr>"

definition pnc_sessions_init :: "'a drv_scheme \<Rightarrow> (int \<times> 'a drv_scheme) option" where
  "pnc_sessions_init d =
     (if shm_base d = 0 then Some (- ENOMEM, d)
      else do {
        d \<leftarrow> pnc_shm_init_header (d\<lparr>shm := zero_shm\<rparr>);
        let rings_size = 2 * sizeof_pnc_message_ring;
        let ns_to_s_ring_size = rings_size div 2;
        let s_to_ns_ring_size = rings_size - ns_to_s_ring_size;
        let d = d\<lparr>shm := (shm d)\<lparr>ring_ns_to_s := uni_shared_init (ring_ns_to_s (shm d))\<rparr>\<rparr>;
        let (_, p) = producer_init (of_nat sizeof_ring_shared) (of_nat sizeof_pnc_message)
                       (of_nat ns_to_s_ring_size);
        let d = d\<lparr>shm := (shm d)\<lparr>ring_s_to_ns := uni_shared_init (ring_s_to_ns (shm d))\<rparr>\<rparr>;
        let (_, c) = consumer_init (of_nat sizeof_ring_shared) (of_nat sizeof_pnc_message)
                       (of_nat s_to_ns_ring_size);
        let d = d\<lparr>ns_to_s_ring := p, s_to_ns_ring := c,
                  sessions := map initial_session [0..<REE_MAX_SESSIONS], signal_session := 0\<rparr>;
        Some (0, d)
      })"

text \<open>
  \<open>flush_work\<close> runs the pending notification work to its end before the sessions are closed.
\<close>

definition pnc_sessions_exit ::
  "('a drv_scheme, 'b) drv_env_scheme \<Rightarrow> pnc_smc_params \<Rightarrow> 'a drv_scheme \<Rightarrow> 'a drv_scheme option" where
  "pnc_sessions_exit e stack d =
     do {
       d \<leftarrow> (if work_pending d then handle_s_notification e stack d else Some d);
       d \<leftarrow> close_sessions e 0 d;
       d \<leftarrow> invalidate_sessions d;
       raise_notification e E_RESET d
     }"

definition pnc_sessions_sync ::
  "('a drv_scheme, 'b) drv_env_scheme \<Rightarrow> 'a drv_scheme \<Rightarrow> 'a drv_scheme option" where
  "pnc_sessions_sync e d = wait_event e session_ready d"

end
