(* ===== verification/PncApi.thy ===== *)
theory PncApi
  imports PncHandlers
begin

text \<open>
  The kernel API of the session framework (the exported functions of \<open>session.c\<close>). A session is the index
  of its slot. A function that stores through a pointer returns the stored value as an \<open>option\<close>; whether
  the caller's pointer is \<open>NULL\<close> is the argument \<open>buf\<close>, where the function tests it.
\<close>

subsection \<open>Open, allocate, configure\<close>

text \<open>The first slot in use by nobody, from index \<open>i\<close> on.\<close>

function find_free :: "nat \<Rightarrow> 'a drv_scheme \<Rightarrow> nat option" where
  "find_free i d =
     (if i < REE_MAX_SESSIONS then if s_free (sess d i) then Some i else find_free (Suc i) d else None)"
  by pat_completeness auto
termination by (relation "measure (\<lambda>(i, d). REE_MAX_SESSIONS - i)") auto

definition pnc_session_open ::
  "('a drv_scheme, 'b) drv_env_scheme \<Rightarrow> 'a drv_scheme \<Rightarrow> (int \<times> nat option \<times> 'a drv_scheme) option" where
  "pnc_session_open e d =
     do {
       d \<leftarrow> wait_event e session_ready d;
       let d = lock_sessions e d;
       (case find_free 0 d of
          None \<Rightarrow> Some (- ENOMEM, None, d)
        | Some i \<Rightarrow>
            Some (0, Some i,
              upd_sess i (\<lambda>s. s\<lparr>s_free := False, s_event_pending := 0,
                s_client_message := zero_message, s_server_message := zero_message\<rparr>) d))
     }"

definition pnc_session_get_version ::
  "nat option \<Rightarrow> bool \<Rightarrow> 'a drv_scheme \<Rightarrow> int \<times> u32 option" where
  "pnc_session_get_version session buf d =
     (if session = None \<or> \<not> buf then (- EBADF, None) else (0, Some (ree_version d)))"

text \<open>
  \<open>sz\<close> is 64 bits wide, the number of pages 32. On success the address of the block goes to the field
  \<open>mem\<close> of the session.
\<close>

definition pnc_session_alloc ::
  "('a drv_scheme, 'b) drv_env_scheme \<Rightarrow> nat \<Rightarrow> u64 \<Rightarrow> 'a drv_scheme
     \<Rightarrow> (int \<times> 'a drv_scheme) option" where
  "pnc_session_alloc e i sz d =
     (if s_mem (sess d i) \<noteq> None then Some (- EEXIST, d)
      else if sz = 0 then Some (- EINVAL, d)
      else do {
        let sz = sz + of_nat (PAGE_SIZE - 1);
        (ret, block, d) \<leftarrow> pnc_shm_alloc e (ucast (drop_bit PAGE_SHIFT sz)) d;
        Some (ret, if block \<noteq> None then upd_sess i (s_mem_update (\<lambda>_. block)) d else d)
      })"

definition TZ_CONFIG_ARG_GETSYSPROC_SID :: u64 where
  "TZ_CONFIG_ARG_GETSYSPROC_SID = 0xFFFFFFFF"

text \<open>The value the file gives \<open>CONFIG_PROVENCORE_REE_SERVICE_TIMEOUT\<close> when it is not configured.\<close>

definition SERVICE_TIMEOUT :: u32 where [proto_consts]: "SERVICE_TIMEOUT = 0"

text \<open>\<open>strcpy\<close>: the characters and the final 0.\<close>

fun write_bytes :: "nat \<Rightarrow> u8 list \<Rightarrow> (nat \<Rightarrow> u8) \<Rightarrow> (nat \<Rightarrow> u8)" where
  "write_bytes a [] m = m"
| "write_bytes a (b # bs) m = write_bytes (Suc a) bs (m(a := b))"

text \<open>
  The checks and the copy of the service name; the result is an error to return at once, without giving
  back the semaphore, or the state after the copy. A missing block is an invalid pointer.
\<close>

definition config_name ::
  "nat \<Rightarrow> u8 list option \<Rightarrow> u64 \<Rightarrow> 'a drv_scheme \<Rightarrow> (int \<times> 'a drv_scheme) option" where
  "config_name i name base d =
     (case name of None \<Rightarrow> Some (0, d)
      | Some str \<Rightarrow>
          if ree_version d < 0x303 then Some (- ENOTSUPP, d)
          else if base = 0 then Some (- ENOMEM, d)
          else do {
            p \<leftarrow> s_mem (sess d i);
            blk \<leftarrow> heap d p;
            if unat (blk_nr_pages blk) * PAGE_SIZE \<le> length str then Some (- EOVERFLOW, d)
            else Some (0, d\<lparr>memory :=
              write_bytes (unat (blk_offset blk) * PAGE_SIZE) (str @ [0]) (memory d)\<rparr>)
          })"

text \<open>The \<open>A_CONFIG\<close> message: the marked identifier of the service and the memory of the session.\<close>

definition config_message :: "nat \<Rightarrow> u64 \<Rightarrow> 'a drv_scheme \<Rightarrow> pnc_message option" where
  "config_message i sid d =
     (let msg = (new_message (s_index (sess d i)) A_CONFIG)
            \<lparr>msg_p0 := sid OR push_bit 62 1 OR push_bit 63 1\<rparr>
      in case s_mem (sess d i) of None \<Rightarrow> Some msg
         | Some p \<Rightarrow> do {
             blk \<leftarrow> heap d p;
             Some (msg\<lparr>msg_p1 := blk_offset blk, msg_p2 := ucast (blk_nr_pages blk)\<rparr>)
           })"

text \<open>What follows the wait for \<open>A_CONFIG_ACK\<close>.\<close>

definition config_result ::
  "('a drv_scheme, 'b) drv_env_scheme \<Rightarrow> nat \<Rightarrow> int \<Rightarrow> 'a drv_scheme
     \<Rightarrow> (int \<times> 'a drv_scheme) option" where
  "config_result e i ret d =
     (if ret = - EPIPE then do {
        (r, d) \<leftarrow> down_session_interruptible e i d;
        if r \<noteq> 0 then Some (- ERESTARTSYS, d)
        else
          let ret = int_of_u32 (msg_p1 (s_client_message (sess d i)));
              d = upd_sess i (s_client_message_update (\<lambda>_. zero_message)) d
          in Some (if ret = 0 then - ENODEV else ret, up_session i d)
      } else Some (ret, d))"

definition configure_session ::
  "('a drv_scheme, 'b) drv_env_scheme \<Rightarrow> nat \<Rightarrow> u64 \<Rightarrow> u8 list option \<Rightarrow> 'a drv_scheme
     \<Rightarrow> (int \<times> 'a drv_scheme) option" where
  "configure_session e i sid name d =
     (let base = pnc_shm_base d
      in if \<not> session_ready d then Some (- EAGAIN, d)
      else if \<not> pnc_shm_ready d then Some (- ENOENT, d)
      else do {
        (r, d) \<leftarrow> down_session_interruptible e i d;
        if r \<noteq> 0 then Some (- ERESTARTSYS, d)
        else if of_nat REE_MAX_SESSIONS \<le> s_index (sess d i) then Some (- EINVAL, up_session i d)
        else if s_free (sess d i) then Some (- EINVAL, up_session i d)
        else if s_global (sess d i) \<noteq> S_NULL then Some (- EBADF, up_session i d)
        else do {
          (r, d) \<leftarrow> config_name i name base d;
          if r \<noteq> 0 then Some (r, d)
          else do {
            msg \<leftarrow> config_message i sid d;
            let d = write_ns_message e msg d;
            let d = upd_sess i (s_global_update (\<lambda>_. S_CONFIG_WAITING)) d;
            let d = up_session i d;
            d \<leftarrow> notify_ns_message e d;
            (ret, _, d) \<leftarrow> wait_session_event e i EVENT_PENDING_RESPONSE SERVICE_TIMEOUT d;
            config_result e i ret d
          }
        }
      })"

definition pnc_session_config_by_name ::
  "('a drv_scheme, 'b) drv_env_scheme \<Rightarrow> nat \<Rightarrow> u8 list option \<Rightarrow> 'a drv_scheme
     \<Rightarrow> (int \<times> 'a drv_scheme) option" where
  "pnc_session_config_by_name e i name d = configure_session e i TZ_CONFIG_ARG_GETSYSPROC_SID name d"

definition pnc_session_config ::
  "('a drv_scheme, 'b) drv_env_scheme \<Rightarrow> nat \<Rightarrow> u64 \<Rightarrow> 'a drv_scheme
     \<Rightarrow> (int \<times> 'a drv_scheme) option" where
  "pnc_session_config e i sid d = configure_session e i sid None d"

definition pnc_session_get_mem_offset ::
  "nat option \<Rightarrow> 'a drv_scheme \<Rightarrow> (int \<times> (u32 \<times> u32) option) option" where
  "pnc_session_get_mem_offset session d =
     (case session of None \<Rightarrow> Some (- EINVAL, None)
      | Some i \<Rightarrow>
          (case s_mem (sess d i) of None \<Rightarrow> Some (- ENOMEM, None)
           | Some p \<Rightarrow> do {
               blk \<leftarrow> heap d p;
               Some (0, Some (blk_offset blk, blk_nr_pages blk))
             }))"

text \<open>The address and the size, in the 64-bit arithmetic of \<open>unsigned long\<close>.\<close>

definition pnc_session_get_mem ::
  "nat option \<Rightarrow> 'a drv_scheme \<Rightarrow> (int \<times> (u64 \<times> u64) option) option" where
  "pnc_session_get_mem session d =
     (let base = pnc_shm_base d
      in if base = 0 then Some (- ENODEV, None)
      else do {
        (ret, r) \<leftarrow> pnc_session_get_mem_offset session d;
        Some (if ret \<noteq> 0 then (ret, None)
              else (0, map_option (\<lambda>(offset, nr_pages).
                (base + ucast offset * of_nat PAGE_SIZE, ucast nr_pages * of_nat PAGE_SIZE)) r))
      })"

subsection \<open>Requests and responses\<close>

definition send_request ::
  "('a drv_scheme, 'b) drv_env_scheme \<Rightarrow> nat \<Rightarrow> u32 \<Rightarrow> 'a drv_scheme
     \<Rightarrow> (int \<times> 'a drv_scheme) option" where
  "send_request e i request d =
     do {
       (r, d) \<leftarrow> down_session_interruptible e i d;
       if r \<noteq> 0 then Some (- ERESTARTSYS, d)
       else if s_client (sess d i) \<noteq> S_IDLE then Some (- EPROTO, up_session i d)
       else do {
         let d = write_ns_message e ((new_message (s_index (sess d i)) A_REQUEST)\<lparr>msg_p1 := request\<rparr>) d;
         let d = upd_sess i (s_client_update (\<lambda>_. S_WAITING)) d;
         d \<leftarrow> notify_ns_message e (up_session i d);
         Some (0, d)
       }
     }"

text \<open>\<open>buf\<close>: the pointer \<open>response\<close> is not \<open>NULL\<close>.\<close>

definition get_response ::
  "('a drv_scheme, 'b) drv_env_scheme \<Rightarrow> nat \<Rightarrow> bool \<Rightarrow> 'a drv_scheme
     \<Rightarrow> (int \<times> u32 option \<times> 'a drv_scheme) option" where
  "get_response e i buf d =
     do {
       (r, d) \<leftarrow> down_session_interruptible e i d;
       if r \<noteq> 0 then Some (- ERESTARTSYS, None, d)
       else if s_client (sess d i) \<noteq> S_NOTIFIED then Some (- EAGAIN, None, up_session i d)
       else do {
         let (response, d) =
           (if buf then (Some (msg_p1 (s_client_message (sess d i))),
                         upd_sess i (s_client_message_update (\<lambda>_. zero_message)) d)
            else (None, d));
         let d = upd_sess i (\<lambda>s. clear_event EVENT_PENDING_RESPONSE (s\<lparr>s_client := S_IDLE\<rparr>)) d;
         Some (0, response, up_session i d)
       }
     }"

definition pnc_session_send_response ::
  "('a drv_scheme, 'b) drv_env_scheme \<Rightarrow> nat \<Rightarrow> u32 \<Rightarrow> 'a drv_scheme
     \<Rightarrow> (int \<times> 'a drv_scheme) option" where
  "pnc_session_send_response e i response d =
     do {
       (ret, d) \<leftarrow> check_session_configured e i d;
       if ret \<noteq> 0 then Some (ret, d)
       else do {
         (r, d) \<leftarrow> down_session_interruptible e i d;
         if r \<noteq> 0 then Some (- ERESTARTSYS, d)
         else if s_server (sess d i) \<noteq> S_BUSY then Some (- EPROTO, up_session i d)
         else do {
           let d = write_ns_message e
                     ((new_message (s_index (sess d i)) A_RESPONSE)\<lparr>msg_p1 := response\<rparr>) d;
           let d = upd_sess i (s_server_update (\<lambda>_. S_IDLE)) d;
           d \<leftarrow> notify_ns_message e (up_session i d);
           Some (ret, d)
         }
       }
     }"

definition pnc_session_get_response ::
  "('a drv_scheme, 'b) drv_env_scheme \<Rightarrow> nat \<Rightarrow> bool \<Rightarrow> 'a drv_scheme
     \<Rightarrow> (int \<times> u32 option \<times> 'a drv_scheme) option" where
  "pnc_session_get_response e i buf d =
     (if \<not> buf then Some (- EBADF, None, d)
      else do {
        (ret, d) \<leftarrow> check_session_configured e i d;
        if ret \<noteq> 0 then Some (ret, None, d) else get_response e i buf d
      })"

definition pnc_session_wait_response ::
  "('a drv_scheme, 'b) drv_env_scheme \<Rightarrow> nat \<Rightarrow> bool \<Rightarrow> u32 \<Rightarrow> 'a drv_scheme
     \<Rightarrow> (int \<times> u32 option \<times> 'a drv_scheme) option" where
  "pnc_session_wait_response e i buf timeout d =
     (if \<not> buf then Some (- EBADF, None, d)
      else do {
        (ret, d) \<leftarrow> check_session_configured e i d;
        if ret \<noteq> 0 then Some (ret, None, d)
        else do {
          (ret, _, d) \<leftarrow> wait_session_event e i EVENT_PENDING_RESPONSE timeout d;
          if ret = 0 then get_response e i buf d else Some (ret, None, d)
        }
      })"

definition pnc_session_send_request ::
  "('a drv_scheme, 'b) drv_env_scheme \<Rightarrow> nat \<Rightarrow> u32 \<Rightarrow> 'a drv_scheme
     \<Rightarrow> (int \<times> 'a drv_scheme) option" where
  "pnc_session_send_request e i request d =
     do {
       (ret, d) \<leftarrow> check_session_configured e i d;
       if ret \<noteq> 0 then Some (ret, d) else send_request e i request d
     }"

definition pnc_session_get_request ::
  "('a drv_scheme, 'b) drv_env_scheme \<Rightarrow> nat \<Rightarrow> bool \<Rightarrow> 'a drv_scheme
     \<Rightarrow> (int \<times> u32 option \<times> 'a drv_scheme) option" where
  "pnc_session_get_request e i buf d =
     (if \<not> buf then Some (- EBADF, None, d)
      else do {
        (ret, d) \<leftarrow> check_session_configured e i d;
        if ret \<noteq> 0 then Some (ret, None, d)
        else do {
          (r, d) \<leftarrow> down_session_interruptible e i d;
          if r \<noteq> 0 then Some (- ERESTARTSYS, None, d)
          else if s_server (sess d i) \<noteq> S_NOTIFIED then Some (- EAGAIN, None, up_session i d)
          else do {
            let request = msg_p1 (s_server_message (sess d i));
            let d = upd_sess i (\<lambda>s. clear_event EVENT_PENDING_REQUEST
                      (s\<lparr>s_server_message := zero_message, s_server := S_BUSY\<rparr>)) d;
            Some (0, Some request, up_session i d)
          }
        }
      })"

definition pnc_session_wait_request ::
  "('a drv_scheme, 'b) drv_env_scheme \<Rightarrow> nat \<Rightarrow> bool \<Rightarrow> u32 \<Rightarrow> 'a drv_scheme
     \<Rightarrow> (int \<times> u32 option \<times> 'a drv_scheme) option" where
  "pnc_session_wait_request e i buf timeout d =
     (if \<not> buf then Some (- EBADF, None, d)
      else do {
        (ret, d) \<leftarrow> check_session_configured e i d;
        if ret \<noteq> 0 then Some (ret, None, d)
        else do {
          (r, d) \<leftarrow> down_session_interruptible e i d;
          if r \<noteq> 0 then Some (- ERESTARTSYS, None, d)
          else if s_server (sess d i) \<noteq> S_IDLE \<and> s_server (sess d i) \<noteq> S_NOTIFIED
          then Some (- EPROTO, None, up_session i d)
          else do {
            let d = up_session i d;
            (ret, _, d) \<leftarrow> wait_session_event e i EVENT_PENDING_REQUEST timeout d;
            if ret = 0 then pnc_session_get_request e i buf d else Some (ret, None, d)
          }
        }
      })"

subsection \<open>Cancellation\<close>

text \<open>The wait for \<open>A_CANCEL_ACK\<close> or \<open>A_RESPONSE\<close> after \<open>A_CANCEL\<close> was sent.\<close>

definition cancel_wait ::
  "('a drv_scheme, 'b) drv_env_scheme \<Rightarrow> nat \<Rightarrow> u32 \<Rightarrow> 'a drv_scheme
     \<Rightarrow> (int \<times> u32 option \<times> 'a drv_scheme) option" where
  "cancel_wait e i timeout d =
     do {
       (ret, _, d) \<leftarrow> wait_session_event e i EVENT_PENDING_RESPONSE timeout d;
       if ret \<noteq> 0 then Some (ret, None, d)
       else do {
         (r, d) \<leftarrow> down_session_interruptible e i d;
         if r \<noteq> 0 then Some (- ERESTARTSYS, None, d)
         else if s_client (sess d i) = S_NOTIFIED then
           let m = s_client_message (sess d i);
               (ret, response) =
                 (if msg_action m = action_code A_CANCEL_ACK then (int_of_u32 REQUEST_CANCEL_OK, None)
                  else (int_of_u32 REQUEST_CANCEL_RESPONSE, Some (msg_p1 m)));
               d = upd_sess i (\<lambda>s. s\<lparr>s_client_message := zero_message, s_client := S_IDLE\<rparr>) d
           in Some (ret, response, up_session i d)
         else Some (- EFAULT, None, up_session i d)
       }
     }"

text \<open>
  The \<open>switch\<close> runs with the semaphore of the session held, also during the notification. Whether to wait
  is read back from the state of the client.
\<close>

definition pnc_session_cancel_request ::
  "('a drv_scheme, 'b) drv_env_scheme \<Rightarrow> nat \<Rightarrow> bool \<Rightarrow> u32 \<Rightarrow> 'a drv_scheme
     \<Rightarrow> (int \<times> u32 option \<times> 'a drv_scheme) option" where
  "pnc_session_cancel_request e i buf timeout d =
     (if \<not> buf then Some (- EBADF, None, d)
      else do {
        (ret, d) \<leftarrow> check_session_configured e i d;
        if ret \<noteq> 0 then Some (ret, None, d)
        else do {
          (r, d) \<leftarrow> down_session_interruptible e i d;
          if r \<noteq> 0 then Some (- ERESTARTSYS, None, d)
          else do {
            (ret, response, d) \<leftarrow>
              (case s_client (sess d i) of
                 S_WAITING \<Rightarrow> do {
                   let d = write_ns_message e (new_message (s_index (sess d i)) A_CANCEL) d;
                   let d = upd_sess i (s_client_update (\<lambda>_. S_CANCEL_WAITING)) d;
                   d \<leftarrow> notify_ns_message e d;
                   Some (ret, None, d)
                 }
               | S_NOTIFIED \<Rightarrow>
                   Some (int_of_u32 REQUEST_CANCEL_RESPONSE, Some (msg_p1 (s_client_message (sess d i))),
                     upd_sess i (\<lambda>s. (clear_event EVENT_PENDING_RESPONSE (s\<lparr>s_client_message := zero_message\<rparr>))
                       \<lparr>s_client := S_IDLE\<rparr>) d)
               | _ \<Rightarrow> Some (- EPROTO, None, d));
            if s_client (sess d i) = S_CANCEL_WAITING then cancel_wait e i timeout (up_session i d)
            else Some (ret, response, up_session i d)
          }
        }
      })"

subsection \<open>Request and response in one call\<close>

definition pnc_session_send_request_and_wait_response ::
  "('a drv_scheme, 'b) drv_env_scheme \<Rightarrow> nat \<Rightarrow> u32 \<Rightarrow> u32 \<Rightarrow> bool \<Rightarrow> 'a drv_scheme
     \<Rightarrow> (int \<times> u32 option \<times> 'a drv_scheme) option" where
  "pnc_session_send_request_and_wait_response e i request timeout buf d =
     (if \<not> buf then Some (- EBADF, None, d)
      else do {
        (ret, d) \<leftarrow> check_session_configured e i d;
        if ret \<noteq> 0 then Some (ret, None, d)
        else do {
          (ret, d) \<leftarrow> send_request e i request d;
          if ret \<noteq> 0 then Some (ret, None, d)
          else do {
            (ret, _, d) \<leftarrow> wait_session_event e i EVENT_PENDING_RESPONSE timeout d;
            if ret \<noteq> 0 then Some (ret, None, d) else get_response e i buf d
          }
        }
      })"

text \<open>The obsolete call: without a buffer of the caller it uses one of its own, whose value is dropped.\<close>

definition pnc_session_request ::
  "('a drv_scheme, 'b) drv_env_scheme \<Rightarrow> nat \<Rightarrow> u32 \<Rightarrow> u32 \<Rightarrow> bool \<Rightarrow> 'a drv_scheme
     \<Rightarrow> (int \<times> u32 option \<times> 'a drv_scheme) option" where
  "pnc_session_request e i request timeout buf d =
     map_option (\<lambda>(ret, response, d). (ret, if buf then response else None, d))
       (pnc_session_send_request_and_wait_response e i request timeout True d)"

subsection \<open>Signals\<close>

definition pnc_session_send_signal ::
  "('a drv_scheme, 'b) drv_env_scheme \<Rightarrow> nat \<Rightarrow> u32 \<Rightarrow> 'a drv_scheme
     \<Rightarrow> (int \<times> 'a drv_scheme) option" where
  "pnc_session_send_signal e i bits d =
     do {
       (ret, d) \<leftarrow> check_session_configured e i d;
       if ret \<noteq> 0 then Some (ret, d)
       else do {
         let idx = unat (s_index (sess d i));
         let signals = signals_ns_to_s (shm d) ! idx;
         let d = d\<lparr>shm := (shm d)\<lparr>signals_ns_to_s := (signals_ns_to_s (shm d))[idx := signals OR bits]\<rparr>\<rparr>;
         d \<leftarrow> (if signals = 0 then raise_notification e (E_SIGNAL idx) d else Some d);
         Some (0, d)
       }
     }"

definition pnc_session_get_signal ::
  "('a drv_scheme, 'b) drv_env_scheme \<Rightarrow> nat \<Rightarrow> bool \<Rightarrow> 'a drv_scheme
     \<Rightarrow> (int \<times> u32 option \<times> 'a drv_scheme) option" where
  "pnc_session_get_signal e i buf d =
     (if \<not> buf then Some (- EBADF, None, d)
      else do {
        (ret, d) \<leftarrow> check_session_configured e i d;
        if ret \<noteq> 0 then Some (ret, None, d)
        else do {
          (r, d) \<leftarrow> down_session_interruptible e i d;
          if r \<noteq> 0 then Some (- ERESTARTSYS, None, d)
          else
            let d = up_session i (upd_sess i (clear_event EVENT_PENDING_SIGNAL) d);
                (signals, d) = take_s_to_ns_signals (s_index (sess d i)) d
            in Some (0, Some signals, d)
        }
      })"

definition pnc_session_wait_signal ::
  "('a drv_scheme, 'b) drv_env_scheme \<Rightarrow> nat \<Rightarrow> bool \<Rightarrow> u32 \<Rightarrow> 'a drv_scheme
     \<Rightarrow> (int \<times> u32 option \<times> 'a drv_scheme) option" where
  "pnc_session_wait_signal e i buf timeout d =
     (if \<not> buf then Some (- EBADF, None, d)
      else do {
        (ret, d) \<leftarrow> check_session_configured e i d;
        if ret \<noteq> 0 then Some (ret, None, d)
        else do {
          (ret, _, d) \<leftarrow> wait_session_event e i EVENT_PENDING_SIGNAL timeout d;
          if ret = 0 then
            let (signals, d) = take_s_to_ns_signals (s_index (sess d i)) d
            in Some (0, Some signals, d)
          else Some (ret, None, d)
        }
      })"

subsection \<open>Events\<close>

definition pnc_session_wait_event ::
  "('a drv_scheme, 'b) drv_env_scheme \<Rightarrow> nat \<Rightarrow> bool \<Rightarrow> u32 \<Rightarrow> u32 \<Rightarrow> 'a drv_scheme
     \<Rightarrow> (int \<times> u32 option \<times> 'a drv_scheme) option" where
  "pnc_session_wait_event e i buf evmask timeout d =
     (if \<not> buf then Some (- EBADF, None, d)
      else do {
        (ret, d) \<leftarrow> check_session_configured e i d;
        if ret \<noteq> 0 then Some (ret, None, d) else wait_session_event e i evmask timeout d
      })"

definition EPOLLIN :: u32 where "EPOLLIN = 0x1"
definition EPOLLERR :: u32 where "EPOLLERR = 0x8"
definition EPOLLHUP :: u32 where "EPOLLHUP = 0x10"
definition EPOLLRDNORM :: u32 where "EPOLLRDNORM = 0x40"

text \<open>\<open>args\<close>: neither \<open>wait\<close> nor \<open>file\<close> is \<open>NULL\<close>. \<open>poll_wait\<close> registers the wait queue and does not sleep.\<close>

definition pnc_session_poll_wait ::
  "('a drv_scheme, 'b) drv_env_scheme \<Rightarrow> nat option \<Rightarrow> bool \<Rightarrow> 'a drv_scheme
     \<Rightarrow> (u32 \<times> 'a drv_scheme) option" where
  "pnc_session_poll_wait e session args d =
     (case session of None \<Rightarrow> Some (EPOLLERR, d)
      | Some i \<Rightarrow>
          if \<not> args then Some (EPOLLERR, d)
          else do {
            (ret, d) \<leftarrow> check_session_configured e i d;
            if ret \<noteq> 0 then Some (EPOLLERR, d)
            else if s_event_pending (sess d i) \<noteq> 0 then Some (EPOLLIN OR EPOLLRDNORM, d)
            else do {
              (ret, d) \<leftarrow> check_and_handle_terminated_session e i d;
              if ret = - EPIPE then Some (EPOLLHUP, d)
              else if ret \<noteq> 0 then Some (EPOLLERR, d)
              else Some (if s_event_pending (sess d i) = 0 then 0 else EPOLLIN OR EPOLLRDNORM, d)
            }
          })"

definition pnc_session_get_pending_events ::
  "('a drv_scheme, 'b) drv_env_scheme \<Rightarrow> nat \<Rightarrow> bool \<Rightarrow> 'a drv_scheme
     \<Rightarrow> (int \<times> u32 option \<times> 'a drv_scheme) option" where
  "pnc_session_get_pending_events e i buf d =
     (if \<not> buf then Some (- EBADF, None, d)
      else do {
        (ret, d) \<leftarrow> check_session_configured e i d;
        if ret \<noteq> 0 then Some (ret, None, d) else Some (0, Some (s_event_pending (sess d i)), d)
      })"

end
