(* ===== verification/PncShm_Alloc.thy ===== *)
theory PncShm_Alloc
  imports PncShm
begin

text \<open>
  The page allocator is correct: \<open>block_list\<close> says that a list of addresses is the linked list of the
  blocks and that the blocks tile the allocatable pages; the search loop ends, keeps the tiling and
  the allocated blocks, and fails only when no run of free blocks is large enough.
\<close>

subsection \<open>The list of blocks\<close>

fun block_list :: "block_heap \<Rightarrow> nat \<Rightarrow> nat \<Rightarrow> nat option \<Rightarrow> nat list \<Rightarrow> bool" where
  "block_list h s t b [] \<longleftrightarrow> b = None \<and> s = t"
| "block_list h s t b (p # ps) \<longleftrightarrow>
     b = Some p \<and> p \<notin> set ps \<and>
     (case h p of None \<Rightarrow> False
      | Some blk \<Rightarrow> unat (blk_offset blk) = s \<and>
          block_list h (s + unat (blk_nr_pages blk)) t (blk_next blk) ps)"

lemma block_list_None [simp]: "block_list h s t None ps \<longleftrightarrow> ps = [] \<and> s = t"
  by (cases ps) auto

lemma block_list_Some:
  "block_list h s t (Some p) ps \<longleftrightarrow>
     (\<exists>qs blk. ps = p # qs \<and> p \<notin> set qs \<and> h p = Some blk \<and> unat (blk_offset blk) = s \<and>
        block_list h (s + unat (blk_nr_pages blk)) t (blk_next blk) qs)"
  by (cases ps) (auto split: option.splits)

lemma block_list_frame:
  assumes "\<And>q. q \<in> set ps \<Longrightarrow> h' q = h q"
  shows "block_list h' s t b ps = block_list h s t b ps"
  using assms by (induction ps arbitrary: s b) (auto split: option.splits)

lemma block_list_le: "block_list h s t b ps \<Longrightarrow> s \<le> t"
  by (induction ps arbitrary: s b) (force split: option.splits)+

lemma block_list_upd_other [simp]:
  "q \<notin> set ps \<Longrightarrow> block_list (h(q := x)) s t b ps = block_list h s t b ps"
  by (rule block_list_frame) auto

lemma block_list_heap: "block_list h s t b ps \<Longrightarrow> p \<in> set ps \<Longrightarrow> \<exists>blk. h p = Some blk"
  by (induction ps arbitrary: s b) (auto split: option.splits)

text \<open>The pages of a block, and the blocks of a heap that are allocated.\<close>

definition block_pages :: "pnc_shm_block \<Rightarrow> nat set" where
  "block_pages blk = {unat (blk_offset blk) ..< unat (blk_offset blk) + unat (blk_nr_pages blk)}"

definition allocated :: "block_heap \<Rightarrow> nat list \<Rightarrow> nat \<rightharpoonup> u32 \<times> u32" where
  "allocated h ps p =
     (if p \<in> set ps then
        (case h p of None \<Rightarrow> None
         | Some blk \<Rightarrow> if blk_free blk then None else Some (blk_offset blk, blk_nr_pages blk))
      else None)"

text \<open>A run of consecutive free blocks holds \<open>n\<close> pages.\<close>

fun lead :: "block_heap \<Rightarrow> nat list \<Rightarrow> nat" where
  "lead h [] = 0"
| "lead h (p # ps) =
     (case h p of None \<Rightarrow> 0
      | Some blk \<Rightarrow> if blk_free blk then unat (blk_nr_pages blk) + lead h ps else 0)"

fun fits :: "block_heap \<Rightarrow> nat \<Rightarrow> nat list \<Rightarrow> bool" where
  "fits h n [] = False"
| "fits h n (p # ps) =
     ((case h p of None \<Rightarrow> False | Some blk \<Rightarrow> blk_free blk \<and> n \<le> lead h (p # ps)) \<or> fits h n ps)"

lemma lead_frame: "(\<And>q. q \<in> set ps \<Longrightarrow> h' q = h q) \<Longrightarrow> lead h' ps = lead h ps"
  by (induction ps) (auto split: option.splits)

lemma fits_frame: "(\<And>q. q \<in> set ps \<Longrightarrow> h' q = h q) \<Longrightarrow> fits h' n ps = fits h n ps"
proof (induction ps)
  case (Cons p ps)
  then have "lead h' (p # ps) = lead h (p # ps)" by (intro lead_frame) auto
  then show ?case using Cons by (auto simp del: lead.simps split: option.splits)
qed simp

lemma lead_upd_other [simp]: "q \<notin> set ps \<Longrightarrow> lead (h(q := x)) ps = lead h ps"
  by (rule lead_frame) auto

lemma fits_upd_other [simp]: "q \<notin> set ps \<Longrightarrow> fits (h(q := x)) n ps = fits h n ps"
  by (rule fits_frame) auto

lemma allocated_frame:
  "(\<And>q. q \<in> set ps \<Longrightarrow> h' q = h q) \<Longrightarrow> allocated h' ps = allocated h ps"
  by (auto simp: allocated_def fun_eq_iff)

lemma allocated_upd_other [simp]: "q \<notin> set ps \<Longrightarrow> allocated (h(q := x)) ps = allocated h ps"
  by (rule allocated_frame) auto

lemma allocated_Cons:
  "allocated h (p # ps) =
     (\<lambda>q. if q = p then
            (case h p of None \<Rightarrow> None
             | Some blk \<Rightarrow> if blk_free blk then None else Some (blk_offset blk, blk_nr_pages blk))
          else allocated h ps q)"
  by (auto simp: allocated_def fun_eq_iff)

lemma allocated_Nil [simp]: "allocated h [] = Map.empty"
  by (auto simp: allocated_def fun_eq_iff)

text \<open>What the exit of the search loop means.\<close>

definition alloc_exit_ok :: "u32 \<Rightarrow> block_heap \<Rightarrow> nat list \<Rightarrow> alloc_exit \<Rightarrow> bool" where
  "alloc_exit_ok n h ps r =
     (case r of Nomem \<Rightarrow> \<not> fits h (unat n) ps
      | Found p \<Rightarrow> p \<in> set ps \<and> (case h p of None \<Rightarrow> False
          | Some blk \<Rightarrow> blk_free blk \<and> blk_nr_pages blk = n)
      | Split p \<Rightarrow> p \<in> set ps \<and> (case h p of None \<Rightarrow> False
          | Some blk \<Rightarrow> blk_free blk \<and> n < blk_nr_pages blk))"

lemma fits_upd_free: 
  assumes "h p = Some blk" "\<not> blk_free blk"
  shows "fits h n (p # ps) = fits h n ps" "lead h (p # ps) = 0"
  using assms by auto

definition search_ok ::
  "u32 \<Rightarrow> block_heap \<Rightarrow> nat \<Rightarrow> nat \<Rightarrow> nat option \<Rightarrow> nat list \<Rightarrow> alloc_exit \<Rightarrow> block_heap \<Rightarrow> nat list
     \<Rightarrow> bool" where
  "search_ok n h s t b ps r h' ps' \<longleftrightarrow>
     block_list h' s t b ps' \<and> set ps' \<subseteq> set ps \<and>
     allocated h' ps' = allocated h ps \<and>
     (\<forall>q. q \<notin> set ps \<longrightarrow> h' q = h q) \<and> (\<forall>q. q \<in> set ps - set ps' \<longrightarrow> h' q = None) \<and>
     alloc_exit_ok n h' ps' r \<and> (r = Nomem \<longleftrightarrow> \<not> fits h (unat n) ps)"

lemma search_skip:
  assumes "h p = Some blk" "\<not> blk_free blk" "unat (blk_offset blk) = s" "p \<notin> set ps"
    and "search_ok n h (s + unat (blk_nr_pages blk)) t (blk_next blk) ps r h' ps'"
  shows "search_ok n h s t (Some p) (p # ps) r h' (p # ps')"
  using assms
  by (auto simp: search_ok_def allocated_Cons alloc_exit_ok_def split: alloc_exit.splits)

text \<open>A free block followed by an allocated one.\<close>

lemma search_skip_small:
  assumes "h p = Some blk" "blk_free blk" "blk_nr_pages blk < n" "unat (blk_offset blk) = s"
    and "p \<notin> set (q # ps)" "blk_next blk = Some q" "h q = Some nb" "\<not> blk_free nb"
    and "search_ok n h (s + unat (blk_nr_pages blk)) t (Some q) (q # ps) r h' ps'"
  shows "search_ok n h s t (Some p) (p # q # ps) r h' (p # ps')"
proof -
  have not_fit: "fits h (unat n) (p # q # ps) = fits h (unat n) (q # ps)"
    using assms by (auto simp: word_less_nat_alt)
  have *: "block_list h' (s + unat (blk_nr_pages blk)) t (Some q) ps'"
    "set ps' \<subseteq> set (q # ps)" "allocated h' ps' = allocated h (q # ps)"
    "\<forall>x. x \<notin> set (q # ps) \<longrightarrow> h' x = h x" "\<forall>x. x \<in> set (q # ps) - set ps' \<longrightarrow> h' x = None"
    "alloc_exit_ok n h' ps' r" "r = Nomem \<longleftrightarrow> \<not> fits h (unat n) (q # ps)"
    using assms(9) by (simp_all add: search_ok_def)
  have hp: "h' p = Some blk" using *(4) assms(1,5) by simp
  obtain qs nb' where qs: "ps' = q # qs" "h' q = Some nb'"
    using *(1) by (auto simp: block_list_Some)
  have "allocated h (q # ps) q = Some (blk_offset nb, blk_nr_pages nb)"
    using assms by (simp add: allocated_def)
  then have "\<not> blk_free nb'"
    using fun_cong [OF *(3), of q] qs by (simp add: allocated_def split: if_splits)
  then have nf: "fits h' (unat n) (p # ps') = fits h' (unat n) ps'"
    using qs hp assms by (auto simp: word_less_nat_alt)
  have ex: "alloc_exit_ok n h' (p # ps') r"
    using *(6) nf by (auto simp: alloc_exit_ok_def simp del: fits.simps split: alloc_exit.splits)
  have bl: "block_list h' s t (Some p) (p # ps')"
    using hp assms *(1,2) by auto
  have al: "allocated h' (p # ps') = allocated h (p # q # ps)"
    using hp assms(1,2) *(3) by (simp add: allocated_Cons [of _ p] fun_eq_iff)
  have sets: "set (p # ps') \<subseteq> set (p # q # ps)" "\<forall>x. x \<notin> set (p # q # ps) \<longrightarrow> h' x = h x"
    "\<forall>x. x \<in> set (p # q # ps) - set (p # ps') \<longrightarrow> h' x = None"
    using *(2,4,5) by auto
  show ?thesis
    unfolding search_ok_def not_fit by (intro conjI bl sets al ex *(7))
qed

text \<open>Two consecutive free blocks merged into one.\<close>

definition merged :: "pnc_shm_block \<Rightarrow> pnc_shm_block \<Rightarrow> pnc_shm_block" where
  "merged blk nb =
     blk\<lparr>blk_nr_pages := blk_nr_pages blk + blk_nr_pages nb, blk_next := blk_next nb\<rparr>"

lemma merge_fits:
  assumes "h p = Some blk" "blk_free blk" "h q = Some nb" "blk_free nb"
    and "p \<notin> set (q # ps)" "q \<notin> set ps"
    and "unat (blk_nr_pages blk + blk_nr_pages nb) = unat (blk_nr_pages blk) + unat (blk_nr_pages nb)"
    and "unat (blk_nr_pages blk) < n"
  shows "fits ((h(p \<mapsto> merged blk nb))(q := None)) n (p # ps) = fits h n (p # q # ps)"
  using assms by (auto simp: merged_def)

lemma unat_add_le:
  assumes "unat (a::u32) + unat b \<le> unat (c::u32)"
  shows "unat (a + b) = unat a + unat b"
  using assms unat_u32_less [of c] by (simp add: unat_word_ariths)

lemma search_merge:
  assumes "block_list h s (unat (t::u32)) (Some p) (p # q # ps)"
    and "h p = Some blk" "blk_free blk" "blk_nr_pages blk < n"
    and "h q = Some nb" "blk_free nb"
  defines "h1 \<equiv> (h(p \<mapsto> merged blk nb))(q := None)"
  shows "block_list h1 s (unat t) (Some p) (p # ps)"
    and "search_ok n h1 s (unat t) (Some p) (p # ps) r h' ps' \<Longrightarrow>
         search_ok n h s (unat t) (Some p) (p # q # ps) r h' ps'"
proof -
  have l: "p \<noteq> q" "p \<notin> set ps" "q \<notin> set ps" "blk_next blk = Some q" "unat (blk_offset blk) = s"
    "block_list h (s + unat (blk_nr_pages blk) + unat (blk_nr_pages nb)) (unat t) (blk_next nb) ps"
    using assms by auto
  have "s + unat (blk_nr_pages blk) + unat (blk_nr_pages nb) \<le> unat t"
    using block_list_le [OF l(6)] .
  then have sum: "unat (blk_nr_pages blk + blk_nr_pages nb) =
      unat (blk_nr_pages blk) + unat (blk_nr_pages nb)"
    by (intro unat_add_le [of _ _ t]) simp
  show "block_list h1 s (unat t) (Some p) (p # ps)"
    using l sum by (simp add: h1_def merged_def add.assoc)
  assume a: "search_ok n h1 s (unat t) (Some p) (p # ps) r h' ps'"
  have f: "fits h1 (unat n) (p # ps) = fits h (unat n) (p # q # ps)"
    unfolding h1_def using assms l sum by (intro merge_fits) (auto simp: word_less_nat_alt)
  have al: "allocated h1 (p # ps) = allocated h (p # q # ps)"
    using assms l by (auto simp: h1_def allocated_Cons fun_eq_iff merged_def allocated_def)
  have q: "h1 q = None" by (simp add: h1_def)
  have out: "x \<notin> set (p # q # ps) \<Longrightarrow> h1 x = h x" for x by (simp add: h1_def)
  have "q \<notin> set (p # ps)" using l by auto
  then have "h' q = None" using a q by (simp add: search_ok_def)
  then show "search_ok n h s (unat t) (Some p) (p # q # ps) r h' ps'"
    using a f al out unfolding search_ok_def by (auto simp del: fits.simps)
qed

lemma unat_rest:
  assumes "(n::u32) < m"
  shows "unat (m - n) = unat m - unat n"
  by (rule unat_sub) (use assms in simp)

text \<open>The tail of a large free block given to the free block after it.\<close>

lemma search_give:
  assumes "block_list h s (unat (t::u32)) (Some p) (p # q # ps)"
    and "h p = Some blk" "blk_free blk" "n < blk_nr_pages blk"
    and "h q = Some nb" "blk_free nb"
  shows "search_ok n h s (unat t) (Some p) (p # q # ps) (Found p)
     (h(q \<mapsto> nb\<lparr>blk_nr_pages := blk_nr_pages nb + (blk_nr_pages blk - n),
                  blk_offset := blk_offset blk + n\<rparr>,
        p \<mapsto> blk\<lparr>blk_nr_pages := n\<rparr>)) (p # q # ps)"
proof -
  have l: "p \<noteq> q" "p \<notin> set ps" "q \<notin> set ps" "blk_next blk = Some q" "unat (blk_offset blk) = s"
    "block_list h (s + unat (blk_nr_pages blk) + unat (blk_nr_pages nb)) (unat t) (blk_next nb) ps"
    using assms by auto
  have le: "s + unat (blk_nr_pages blk) + unat (blk_nr_pages nb) \<le> unat t"
    using block_list_le [OF l(6)] .
  have n: "unat n < unat (blk_nr_pages blk)" using assms by (simp add: word_less_nat_alt)
  have d: "unat (blk_nr_pages blk - n) = unat (blk_nr_pages blk) - unat n"
    using assms by (intro unat_rest)
  have sum: "unat (blk_nr_pages nb + (blk_nr_pages blk - n)) =
      unat (blk_nr_pages nb) + unat (blk_nr_pages blk - n)"
    using le by (intro unat_add_le [of _ _ t]) (simp add: d)
  have off: "unat (blk_offset blk + n) = unat (blk_offset blk) + unat n"
    using le n l by (intro unat_add_le [of _ _ t]) simp
  have "s + unat n + (unat (blk_nr_pages nb) + (unat (blk_nr_pages blk) - unat n)) =
      s + unat (blk_nr_pages blk) + unat (blk_nr_pages nb)"
    using n by simp
  then have "block_list (h(q \<mapsto> nb\<lparr>blk_nr_pages := blk_nr_pages nb + (blk_nr_pages blk - n),
                  blk_offset := blk_offset blk + n\<rparr>,
        p \<mapsto> blk\<lparr>blk_nr_pages := n\<rparr>)) s (unat t) (Some p) (p # q # ps)"
    using l off sum d by (simp add: ac_simps)
  moreover have "fits h (unat n) (p # q # ps)"
    using assms n by simp
  ultimately show ?thesis
    using assms l by (auto simp: search_ok_def alloc_exit_ok_def allocated_Cons fun_eq_iff)
qed

lemma search_here:
  assumes "block_list h s t (Some p) (p # ps)" and "h p = Some blk" "blk_free blk"
  shows "n = blk_nr_pages blk \<Longrightarrow> search_ok n h s t (Some p) (p # ps) (Found p) h (p # ps)"
    and "n < blk_nr_pages blk \<Longrightarrow> search_ok n h s t (Some p) (p # ps) (Split p) h (p # ps)"
    and "blk_nr_pages blk < n \<Longrightarrow> ps = [] \<Longrightarrow>
         search_ok n h s t (Some p) (p # ps) Nomem h (p # ps)"
  using assms by (auto simp: search_ok_def alloc_exit_ok_def word_less_nat_alt)

text \<open>The search ends, and what it did to the list. First a list whose first block is free and too large.\<close>

definition search_ends :: "u32 \<Rightarrow> block_heap \<Rightarrow> nat \<Rightarrow> nat \<Rightarrow> nat option \<Rightarrow> nat list \<Rightarrow> bool" where
  "search_ends n h s t b ps \<longleftrightarrow> (\<exists>r h' ps'. alloc_loop n h b = Some (r, h') \<and> search_ok n h s t b ps r h' ps')"

lemma search_endsI: "alloc_loop n h b = Some (r, h') \<Longrightarrow> search_ok n h s t b ps r h' ps' \<Longrightarrow> search_ends n h s t b ps"
  by (auto simp: search_ends_def)

lemma search_ends_large:
  assumes "block_list h s (unat (t::u32)) (Some p) (p # qs)" "h p = Some blk" "blk_free blk" "n < blk_nr_pages blk"
  shows "search_ends n h s (unat t) (Some p) (p # qs)"
proof -
  have split: "search_ends n h s (unat t) (Some p) (p # qs)" if "alloc_loop n h (Some p) = Some (Split p, h)"
    using search_endsI [OF that search_here(2) [OF assms]] .
  show ?thesis
  proof (cases "blk_next blk")
    case None
    then show ?thesis using assms by (intro split, subst alloc_loop.simps) auto
  next
    case (Some q)
    then obtain rs nb where m: "qs = q # rs" "h q = Some nb" using assms(1,2) by (auto simp: block_list_Some)
    show ?thesis
    proof (cases "blk_free nb")
      case True
      let ?h = "h(q \<mapsto> nb\<lparr>blk_nr_pages := blk_nr_pages nb + (blk_nr_pages blk - n),
            blk_offset := blk_offset blk + n\<rparr>, p \<mapsto> blk\<lparr>blk_nr_pages := n\<rparr>)"
      have "alloc_loop n h (Some p) = Some (Found p, ?h)"
        using assms m Some True by (subst alloc_loop.simps) auto
      then show ?thesis
        using search_give [OF assms(1) [unfolded m(1)] assms(2-4) m(2) True] m(1) by (simp add: search_endsI)
    next
      case False
      then show ?thesis using assms m Some by (intro split, subst alloc_loop.simps) auto
    qed
  qed
qed

text \<open>Then a list whose first block is free and too small, and one whose first block is in use.\<close>

lemma search_ends_small:
  assumes "block_list h s (unat (t::u32)) (Some p) (p # qs)" "h p = Some blk" "blk_free blk" "blk_nr_pages blk < n"
    and ih: "\<And>h s b rs. length rs \<le> length qs \<Longrightarrow> block_list h s (unat t) b rs \<Longrightarrow> search_ends n h s (unat t) b rs"
  shows "search_ends n h s (unat t) (Some p) (p # qs)"
proof (cases "blk_next blk")
  case None
  then have "alloc_loop n h (Some p) = Some (Nomem, h)"
    using assms(1-4) by (subst alloc_loop.simps) auto
  moreover have "qs = []" using assms(1,2) None by simp
  ultimately show ?thesis using search_here(3) [OF assms(1-4)] by (simp add: search_endsI)
next
  case (Some q)
  then obtain rs nb where m: "qs = q # rs" "p \<notin> set qs" "q \<notin> set rs" "h q = Some nb" "unat (blk_offset blk) = s"
      "unat (blk_offset nb) = s + unat (blk_nr_pages blk)"
      "block_list h (s + unat (blk_nr_pages blk) + unat (blk_nr_pages nb)) (unat t) (blk_next nb) rs"
    using assms(1,2) by (auto simp: block_list_Some)
  show ?thesis
  proof (cases "blk_free nb")
    case True
    note mg = search_merge [OF assms(1) [unfolded m(1)] assms(2-4) m(4) True]
    obtain r h' ps' where r: "alloc_loop n ((h(p \<mapsto> merged blk nb))(q := None)) (Some p) = Some (r, h')"
      "search_ok n ((h(p \<mapsto> merged blk nb))(q := None)) s (unat t) (Some p) (p # rs) r h' ps'"
      using ih [OF _ mg(1)] m(1) by (auto simp: search_ends_def)
    have "alloc_loop n h (Some p) = Some (r, h')"
      using r(1) assms m Some True by (subst alloc_loop.simps) (auto simp: merged_def)
    then show ?thesis using mg(2) [OF r(2)] m(1) by (simp add: search_endsI)
  next
    case False
    obtain r h' ps' where r: "alloc_loop n h (blk_next nb) = Some (r, h')"
      "search_ok n h (s + unat (blk_nr_pages blk) + unat (blk_nr_pages nb)) (unat t) (blk_next nb) rs r h' ps'"
      using ih [OF _ m(7)] m(1) by (auto simp: search_ends_def)
    have "search_ok n h (s + unat (blk_nr_pages blk)) (unat t) (Some q) (q # rs) r h' (q # ps')"
      using search_skip [of h q nb _ rs] m False r by simp
    then have "search_ok n h s (unat t) (Some p) (p # qs) r h' (p # q # ps')"
      using search_skip_small [OF assms(2-4) m(5) _ Some m(4) False] m(1,2) by simp
    moreover have "alloc_loop n h (Some p) = Some (r, h')"
      using r(1) assms m Some False by (subst alloc_loop.simps) auto
    ultimately show ?thesis by (simp add: search_endsI)
  qed
qed

lemma search_ends_used:
  assumes "h p = Some blk" "\<not> blk_free blk" "unat (blk_offset blk) = s" "p \<notin> set qs"
    and "search_ends n h (s + unat (blk_nr_pages blk)) t (blk_next blk) qs"
  shows "search_ends n h s t (Some p) (p # qs)"
proof -
  obtain r h' ps' where r: "alloc_loop n h (blk_next blk) = Some (r, h')"
    "search_ok n h (s + unat (blk_nr_pages blk)) t (blk_next blk) qs r h' ps'"
    using assms(5) by (auto simp: search_ends_def)
  have "alloc_loop n h (Some p) = Some (r, h')"
    using r(1) assms(1,2) by (subst alloc_loop.simps) simp
  then show ?thesis using search_skip [OF assms(1-4) r(2)] by (simp add: search_endsI)
qed

lemma alloc_loop_ends:
  assumes "block_list h s (unat (t::u32)) b ps"
  shows "search_ends n h s (unat t) b ps"
  using assms
proof (induction "length ps" arbitrary: ps h s b rule: less_induct)
  case less
  show ?case
  proof (cases b)
    case None
    then have "search_ok n h s (unat t) b ps Nomem h ps"
      using less.prems by (simp add: search_ok_def alloc_exit_ok_def)
    then show ?thesis using None by (intro search_endsI, subst alloc_loop.simps) auto
  next
    case (Some p)
    then obtain qs blk where l: "ps = p # qs" "p \<notin> set qs" "h p = Some blk" "unat (blk_offset blk) = s"
        "block_list h (s + unat (blk_nr_pages blk)) (unat t) (blk_next blk) qs"
      using less.prems by (auto simp: block_list_Some)
    have bl: "block_list h s (unat t) (Some p) (p # qs)" using less.prems l Some by simp
    consider "\<not> blk_free blk" | "blk_free blk" "n = blk_nr_pages blk" | "blk_free blk" "blk_nr_pages blk < n"
      | "blk_free blk" "n < blk_nr_pages blk" by fastforce
    then show ?thesis
    proof cases
      case 1
      have "search_ends n h (s + unat (blk_nr_pages blk)) (unat t) (blk_next blk) qs"
        using less.hyps [OF _ l(5)] l(1) by simp
      from search_ends_used [OF l(3) 1 l(4,2) this] show ?thesis using l(1) Some by simp
    next
      case 2
      then have "alloc_loop n h (Some p) = Some (Found p, h)" using l by (subst alloc_loop.simps) simp
      then show ?thesis using search_here(1) [OF bl l(3) 2] l(1) Some by (simp add: search_endsI)
    next
      case 3
      then show ?thesis using search_ends_small [OF bl l(3) 3] less.hyps l(1) Some by simp
    next
      case 4
      then show ?thesis using search_ends_large [OF bl l(3) 4] l(1) Some by simp
    qed
  qed
qed

lemma alloc_loop_ok:
  assumes "block_list h s (unat (t::u32)) b ps"
  shows "\<exists>r h' ps'. alloc_loop n h b = Some (r, h') \<and> search_ok n h s (unat t) b ps r h' ps'"
  using alloc_loop_ends [OF assms] by (simp add: search_ends_def)

subsection \<open>Facts of a tiled list\<close>

lemma block_list_range:
  assumes "block_list h s t b ps" "p \<in> set ps" "h p = Some blk"
  shows "s \<le> unat (blk_offset blk) \<and> unat (blk_offset blk) + unat (blk_nr_pages blk) \<le> t"
  using assms
proof (induction ps arbitrary: s b)
  case (Cons q qs)
  then obtain nb where nb: "h q = Some nb" "unat (blk_offset nb) = s"
    "block_list h (s + unat (blk_nr_pages nb)) t (blk_next nb) qs"
    by (auto split: option.splits)
  show ?case
  proof (cases "p = q")
    case True
    then show ?thesis using nb block_list_le [OF nb(3)] Cons.prems by simp
  next
    case False
    then show ?thesis using Cons.IH [OF nb(3)] Cons.prems by simp
  qed
qed simp

lemma block_list_disjoint:
  assumes "block_list h s t b ps" "p \<in> set ps" "q \<in> set ps" "p \<noteq> q"
    and "h p = Some bp" "h q = Some bq"
  shows "block_pages bp \<inter> block_pages bq = {}"
  using assms
proof (induction ps arbitrary: s b)
  case (Cons r rs)
  then obtain nb where nb: "h r = Some nb" "unat (blk_offset nb) = s" "r \<notin> set rs"
    "block_list h (s + unat (blk_nr_pages nb)) t (blk_next nb) rs"
    by (auto split: option.splits)
  note range = block_list_range [OF nb(4)]
  show ?case
  proof (cases "p = r \<or> q = r")
    case True
    then show ?thesis
      using Cons.prems nb range [of p bp] range [of q bq] by (auto simp: block_pages_def)
  next
    case False
    then show ?thesis using Cons.IH [OF nb(4)] Cons.prems by simp
  qed
qed simp

text \<open>Updates that change neither the place, nor the size, nor the successor of a block.\<close>

definition same_layout :: "block_heap \<Rightarrow> block_heap \<Rightarrow> nat \<Rightarrow> bool" where
  "same_layout h h' p \<longleftrightarrow>
     (case (h p, h' p) of
        (Some b, Some b') \<Rightarrow> blk_offset b = blk_offset b' \<and> blk_nr_pages b = blk_nr_pages b' \<and>
          blk_next b = blk_next b'
      | (None, None) \<Rightarrow> True
      | _ \<Rightarrow> False)"

lemma block_list_same_layout:
  assumes "\<And>p. p \<in> set ps \<Longrightarrow> same_layout h h' p"
  shows "block_list h s t b ps \<longleftrightarrow> block_list h' s t b ps"
  using assms
proof (induction ps arbitrary: s b)
  case (Cons p ps)
  have "same_layout h h' p" using Cons.prems by simp
  moreover have "block_list h s' t b' ps \<longleftrightarrow> block_list h' s' t b' ps" for s' b'
    using Cons by simp
  ultimately show ?case
    by (auto simp: same_layout_def split: option.splits)
qed simp

lemma take_block_layout: "same_layout h (take_block p h) q"
  by (auto simp: same_layout_def take_block_def split: option.splits)

lemma allocated_take_block:
  assumes "p \<in> set ps" "h p = Some blk"
  shows "allocated (take_block p h) ps = (allocated h ps)(p \<mapsto> (blk_offset blk, blk_nr_pages blk))"
  using assms by (auto simp: allocated_def take_block_def fun_eq_iff)

lemma block_list_split_block:
  assumes "block_list h s (unat (t::u32)) b ps" "p \<in> set ps" "h p = Some blk"
    and "n < blk_nr_pages blk" "q \<notin> set ps"
  shows "\<exists>ps'. block_list (split_block n p q h) s (unat t) b ps' \<and> set ps' = insert q (set ps)"
  using assms(1,2,5)
proof (induction ps arbitrary: s b)
  case (Cons r rs)
  then obtain nb where nb: "b = Some r" "h r = Some nb" "unat (blk_offset nb) = s" "r \<notin> set rs"
    "block_list h (s + unat (blk_nr_pages nb)) (unat t) (blk_next nb) rs"
    by (auto split: option.splits)
  show ?case
  proof (cases "p = r")
    case True
    then have [simp]: "nb = blk" using nb assms(3) by simp
    have d: "unat (blk_nr_pages blk - n) = unat (blk_nr_pages blk) - unat n"
      "unat n < unat (blk_nr_pages blk)"
      using assms(4) by (simp_all add: unat_rest word_less_nat_alt)
    have "unat (blk_offset blk + n) = unat (blk_offset blk) + unat n"
      using block_list_le [OF nb(5)] nb d by (intro unat_add_le [of _ _ t]) simp
    moreover have "s + unat n + (unat (blk_nr_pages blk) - unat n) = s + unat (blk_nr_pages blk)"
      using d by simp
    ultimately have "block_list (split_block n p q h) s (unat t) b (p # q # rs)"
      using nb True Cons.prems d by (simp add: split_block_def add.assoc)
    then show ?thesis using True by (intro exI [of _ "p # q # rs"]) auto
  next
    case False
    obtain ps' where ps': "set ps' = insert q (set rs)"
      "block_list (split_block n p q h) (s + unat (blk_nr_pages nb)) (unat t) (blk_next nb) ps'"
      using Cons.IH [OF nb(5)] Cons.prems False by auto
    have "split_block n p q h r = Some nb"
      using nb False Cons.prems assms(3) by (simp add: split_block_def)
    then have "block_list (split_block n p q h) s (unat t) b (r # ps')"
      using nb ps' Cons.prems by simp
    then show ?thesis using ps' by (intro exI [of _ "r # ps'"]) auto
  qed
qed simp

lemma allocated_split_block:
  assumes "p \<in> set ps" "h p = Some blk" "blk_free blk" "q \<notin> set ps" "set ps' = insert q (set ps)"
  shows "allocated (take_block p (split_block n p q h)) ps' =
    (allocated h ps)(p \<mapsto> (blk_offset blk, n))"
  using assms by (auto simp: allocated_def take_block_def split_block_def fun_eq_iff)

subsection \<open>The state of the allocator\<close>

text \<open>The addresses of the blocks, by walking the list.\<close>

partial_function (option) addrs :: "block_heap \<Rightarrow> nat option \<Rightarrow> nat list option" where
  "addrs h b =
     (case b of None \<Rightarrow> Some []
      | Some p \<Rightarrow> (case h p of None \<Rightarrow> None
        | Some blk \<Rightarrow> do { ps \<leftarrow> addrs h (blk_next blk); Some (p # ps) }))"

lemma addrs_block_list: "block_list h s t b ps \<Longrightarrow> addrs h b = Some ps"
  by (induction ps arbitrary: s b) (subst addrs.simps, auto split: option.splits)+

definition shm_wf :: "'a shm_state_scheme \<Rightarrow> bool" where
  "shm_wf d =
     (case addrs (heap d) (blocks d) of None \<Rightarrow> False
      | Some ps \<Rightarrow> block_list (heap d) REE_RESERVED_PAGES (unat (shm_nr_pages d)) (blocks d) ps)"

text \<open>The blocks in use: where they start and how many pages they have.\<close>

definition live_blocks :: "'a shm_state_scheme \<Rightarrow> nat \<rightharpoonup> u32 \<times> u32" where
  "live_blocks d p =
     (case addrs (heap d) (blocks d) of None \<Rightarrow> None | Some ps \<Rightarrow> allocated (heap d) ps p)"

text \<open>Some run of consecutive free blocks has \<open>n\<close> pages.\<close>

definition shm_fits :: "'a shm_state_scheme \<Rightarrow> u32 \<Rightarrow> bool" where
  "shm_fits d n =
     (case addrs (heap d) (blocks d) of None \<Rightarrow> False | Some ps \<Rightarrow> fits (heap d) (unat n) ps)"

lemma shm_wfI:
  assumes "block_list (heap d) REE_RESERVED_PAGES (unat (shm_nr_pages d)) (blocks d) ps"
  shows "shm_wf d" "live_blocks d = allocated (heap d) ps" "shm_fits d n = fits (heap d) (unat n) ps"
  using addrs_block_list [OF assms] assms
  by (simp_all add: shm_wf_def live_blocks_def shm_fits_def fun_eq_iff)

lemma shm_wfE:
  assumes "shm_wf d"
  obtains ps where
    "block_list (heap d) REE_RESERVED_PAGES (unat (shm_nr_pages d)) (blocks d) ps"
    "live_blocks d = allocated (heap d) ps" "\<And>n. shm_fits d n = fits (heap d) (unat n) ps"
  using assms by (auto simp: shm_wf_def live_blocks_def shm_fits_def fun_eq_iff split: option.splits)

subsection \<open>The operations\<close>

definition alloc_outcome ::
  "u32 \<Rightarrow> 'a shm_state_scheme \<Rightarrow> int \<Rightarrow> nat option \<Rightarrow> 'b shm_state_scheme \<Rightarrow> bool" where
  "alloc_outcome n d r blk d' \<longleftrightarrow>
     shm_wf d' \<and>
     (case blk of
        None \<Rightarrow> r = - ENOMEM \<and> live_blocks d' = live_blocks d
      | Some p \<Rightarrow> r = 0 \<and> live_blocks d p = None \<and>
          (\<exists>off. live_blocks d' = (live_blocks d)(p \<mapsto> (off, n))))"

lemma take_block_at: "h p = Some blk \<Longrightarrow> take_block p h p = Some (blk\<lparr>blk_free := False\<rparr>)"
  by (simp add: take_block_def)

text \<open>The outcome once the search has found a block, of the right size or to be split.\<close>

lemma alloc_found_ok:
  assumes "block_list h' REE_RESERVED_PAGES (unat (shm_nr_pages d)) (blocks d) ps'" "allocated h' ps' = live_blocks d"
    and "alloc_exit_ok n h' ps' (Found p)"
  shows "alloc_outcome n d 0 (Some p) (d\<lparr>heap := take_block p h'\<rparr>)"
proof -
  obtain blk where p: "p \<in> set ps'" "h' p = Some blk" "blk_free blk" "blk_nr_pages blk = n"
    using assms(3) by (auto simp: alloc_exit_ok_def split: option.splits)
  let ?d = "d\<lparr>heap := take_block p h'\<rparr>"
  have "block_list (take_block p h') REE_RESERVED_PAGES (unat (shm_nr_pages d)) (blocks d) ps'"
    using assms(1) block_list_same_layout [OF take_block_layout] by blast
  then have "shm_wf ?d" "live_blocks ?d = (live_blocks d)(p \<mapsto> (blk_offset blk, n))"
    using shm_wfI [of ?d ps'] allocated_take_block [of p ps' h' blk] p assms(2) by simp_all
  moreover have "live_blocks d p = None" using fun_cong [OF assms(2), of p] p by (simp add: allocated_def)
  ultimately show ?thesis by (auto simp: alloc_outcome_def)
qed

lemma alloc_split_ok:
  assumes "block_list h' REE_RESERVED_PAGES (unat (shm_nr_pages d)) (blocks d) ps'" "allocated h' ps' = live_blocks d"
    and "alloc_exit_ok n h' ps' (Split p)" "h' q = None"
  shows "alloc_outcome n d 0 (Some p) (d\<lparr>heap := take_block p (split_block n p q h')\<rparr>)"
proof -
  obtain blk where p: "p \<in> set ps'" "h' p = Some blk" "blk_free blk" "n < blk_nr_pages blk"
    using assms(3) by (auto simp: alloc_exit_ok_def split: option.splits)
  have q: "q \<notin> set ps'" using block_list_heap [OF assms(1)] assms(4) by force
  let ?h = "split_block n p q h'"
  let ?d = "d\<lparr>heap := take_block p ?h\<rparr>"
  obtain qs where qs: "set qs = insert q (set ps')"
    "block_list ?h REE_RESERVED_PAGES (unat (shm_nr_pages d)) (blocks d) qs"
    using block_list_split_block [OF assms(1) p(1,2,4) q] by blast
  have "block_list (take_block p ?h) REE_RESERVED_PAGES (unat (shm_nr_pages d)) (blocks d) qs"
    using qs(2) block_list_same_layout [OF take_block_layout] by blast
  then have "shm_wf ?d" "live_blocks ?d = (live_blocks d)(p \<mapsto> (blk_offset blk, n))"
    using shm_wfI [of ?d qs] allocated_split_block [of p ps' h' blk q qs n] q qs(1) p assms(2) by simp_all
  moreover have "live_blocks d p = None" using fun_cong [OF assms(2), of p] p by (simp add: allocated_def)
  ultimately show ?thesis by (auto simp: alloc_outcome_def)
qed

lemma shm_alloc_locked_ok:
  assumes "shm_wf d" and "kmalloc_fresh e"
  shows "\<exists>r blk h. shm_alloc_locked e n (blocks d) d = Some (r, blk, d\<lparr>heap := h\<rparr>) \<and>
    alloc_outcome n d r blk (d\<lparr>heap := h\<rparr>) \<and>
    (kmalloc_works e \<and> finite (dom (heap d)) \<longrightarrow> (r = 0 \<longleftrightarrow> shm_fits d n))"
proof -
  obtain ps where ps: "block_list (heap d) REE_RESERVED_PAGES (unat (shm_nr_pages d)) (blocks d) ps"
    "live_blocks d = allocated (heap d) ps" "shm_fits d n = fits (heap d) (unat n) ps"
    using shm_wfE [OF assms(1)] by metis
  obtain x h' ps' where run: "alloc_loop n (heap d) (blocks d) = Some (x, h')"
    and s: "search_ok n (heap d) REE_RESERVED_PAGES (unat (shm_nr_pages d)) (blocks d) ps x h' ps'"
    using alloc_loop_ok [OF ps(1)] by blast
  have bl: "block_list h' REE_RESERVED_PAGES (unat (shm_nr_pages d)) (blocks d) ps'"
    and al: "allocated h' ps' = live_blocks d"
    and ex: "alloc_exit_ok n h' ps' x" and fit: "x = Nomem \<longleftrightarrow> \<not> shm_fits d n"
    using s ps by (simp_all add: search_ok_def)
  have same: "alloc_outcome n d (- ENOMEM) None (d\<lparr>heap := h'\<rparr>)"
    using shm_wfI [of "d\<lparr>heap := h'\<rparr>" ps'] bl al by (simp add: alloc_outcome_def)
  show ?thesis
  proof (cases x)
    case Nomem
    then show ?thesis using run same fit by (auto simp: shm_alloc_locked_def errno)
  next
    case (Found p)
    then show ?thesis using run fit alloc_found_ok [OF bl al] ex by (auto simp: shm_alloc_locked_def)
  next
    case (Split p)
    show ?thesis
    proof (cases "kmalloc e (tick d) (\<lambda>a. h' a \<noteq> None)")
      case None
      have "{a. h' a \<noteq> None} \<subseteq> dom (heap d)"
        using s block_list_heap [OF ps(1)] by (force simp: search_ok_def)
      then have "\<not> (kmalloc_works e \<and> finite (dom (heap d)))"
        using None finite_subset unfolding kmalloc_works_def by blast
      moreover have "shm_alloc_locked e n (blocks d) d = Some (- ENOMEM, None, d\<lparr>heap := h'\<rparr>)"
        using run Split None by (simp add: shm_alloc_locked_def)
      ultimately show ?thesis using same by blast
    next
      case (Some q)
      then have "h' q = None" using assms(2) unfolding kmalloc_fresh_def by blast
      then show ?thesis
        using run Split Some fit alloc_split_ok [OF bl al] ex by (auto simp: shm_alloc_locked_def)
    qed
  qed
qed

lemma shm_free_locked_ok:
  assumes "shm_wf d" and "live_blocks d p = Some x"
  shows "\<exists>h. shm_free_locked p d = Some (d\<lparr>heap := h\<rparr>) \<and> shm_wf (d\<lparr>heap := h\<rparr>) \<and>
    live_blocks (d\<lparr>heap := h\<rparr>) = (live_blocks d)(p := None)"
proof -
  obtain ps where ps: "block_list (heap d) REE_RESERVED_PAGES (unat (shm_nr_pages d)) (blocks d) ps"
    "live_blocks d = allocated (heap d) ps"
    using assms(1) by (rule shm_wfE)
  obtain blk where p: "p \<in> set ps" "heap d p = Some blk"
    using assms(2) ps(2) by (auto simp: allocated_def split: if_splits option.splits)
  let ?h = "(heap d)(p \<mapsto> blk\<lparr>blk_free := True\<rparr>)"
  have "same_layout (heap d) ?h q" for q
    using p by (auto simp: same_layout_def split: option.splits)
  then have "block_list ?h REE_RESERVED_PAGES (unat (shm_nr_pages d)) (blocks d) ps"
    using ps(1) block_list_same_layout by blast
  moreover have "allocated ?h ps = (allocated (heap d) ps)(p := None)"
    by (auto simp: allocated_def fun_eq_iff)
  ultimately show ?thesis
    using p ps(2) shm_wfI [of "d\<lparr>heap := ?h\<rparr>" ps] by (auto simp: shm_free_locked_def)
qed

lemma live_blocks_isolated:
  assumes "shm_wf d" and "live_blocks d p = Some (o1, n1)"
  shows "REE_RESERVED_PAGES \<le> unat o1" "unat o1 + unat n1 \<le> unat (shm_nr_pages d)"
    and "live_blocks d q = Some (o2, n2) \<Longrightarrow> p \<noteq> q \<Longrightarrow>
      {unat o1 ..< unat o1 + unat n1} \<inter> {unat o2 ..< unat o2 + unat n2} = {}"
proof -
  obtain ps where ps: "block_list (heap d) REE_RESERVED_PAGES (unat (shm_nr_pages d)) (blocks d) ps"
    "live_blocks d = allocated (heap d) ps"
    using assms(1) by (rule shm_wfE)
  have *: "\<exists>blk. x \<in> set ps \<and> heap d x = Some blk \<and> block_pages blk = {unat a ..< unat a + unat b} \<and>
     a = blk_offset blk \<and> b = blk_nr_pages blk"
    if "live_blocks d x = Some (a, b)" for x a b
    using that ps(2) by (auto simp: allocated_def block_pages_def split: if_splits option.splits)
  obtain bp where bp: "p \<in> set ps" "heap d p = Some bp"
    "block_pages bp = {unat o1 ..< unat o1 + unat n1}" "o1 = blk_offset bp" "n1 = blk_nr_pages bp"
    using * [OF assms(2)] by blast
  show "REE_RESERVED_PAGES \<le> unat o1" "unat o1 + unat n1 \<le> unat (shm_nr_pages d)"
    using block_list_range [OF ps(1) bp(1,2)] bp by simp_all
  assume "live_blocks d q = Some (o2, n2)" "p \<noteq> q"
  then show "{unat o1 ..< unat o1 + unat n1} \<inter> {unat o2 ..< unat o2 + unat n2} = {}"
    using block_list_disjoint [OF ps(1) bp(1)] bp * by blast
qed

lemma pnc_shm_init_wf:
  assumes "pnc_shm_init e vbase pbase nr d = (0, d')" and "REE_RESERVED_PAGES \<le> unat nr"
  shows "shm_wf d' \<and> live_blocks d' = Map.empty"
proof -
  obtain p where d': "d' = d\<lparr>shm_base := vbase, shm_pbase := pbase, shm_nr_pages := nr, shm_sem := 1,
      heap := (heap d)(p \<mapsto> \<lparr>blk_free = True, blk_offset = of_nat REE_RESERVED_PAGES,
         blk_nr_pages = nr - of_nat REE_RESERVED_PAGES, blk_next = None\<rparr>), blocks := Some p\<rparr>"
    using assms(1) by (auto simp: pnc_shm_init_def errno Let_def split: option.splits)
  have "(3::u32) \<le> nr" using assms(2) by (simp add: word_le_nat_alt proto_consts)
  then have "unat (nr - 3) = unat nr - 3" by (simp add: unat_sub)
  then have "block_list (heap d') REE_RESERVED_PAGES (unat (shm_nr_pages d')) (blocks d') [p]"
    using assms(2) by (simp add: d' proto_consts)
  from shm_wfI [OF this] show ?thesis by (auto simp: d' allocated_def fun_eq_iff)
qed

lemma free_loop_ok:
  "block_list h s t b ps \<Longrightarrow> free_loop h b = Some (\<lambda>a. if a \<in> set ps then None else h a)"
proof (induction ps arbitrary: h s b)
  case Nil
  then show ?case by (subst free_loop.simps) auto
next
  case (Cons p ps)
  then obtain blk where p: "b = Some p" "h p = Some blk" "p \<notin> set ps"
    "block_list h (s + unat (blk_nr_pages blk)) t (blk_next blk) ps"
    by (auto split: option.splits)
  then have "block_list (h(p := None)) (s + unat (blk_nr_pages blk)) t (blk_next blk) ps" by simp
  moreover have "(\<lambda>a. if a \<in> set ps then None else (h(p := None)) a) =
      (\<lambda>a. if a \<in> set (p # ps) then None else h a)"
    by (simp add: fun_eq_iff)
  ultimately have "free_loop (h(p := None)) (blk_next blk) =
      Some (\<lambda>a. if a \<in> set (p # ps) then None else h a)"
    using Cons.IH by metis
  then show ?case
    using p by (subst free_loop.simps) simp
qed

subsection \<open>The contract of a page allocator\<close>

text \<open>
  The clients of the allocator (the sessions) rely on the laws of this locale: an allocation adds one
  range, disjoint from all others, and a release removes one; nothing else changes.
\<close>

datatype ('n, 'p) shm_op = Op_alloc 'n "'p option" | Op_free 'p

locale page_allocator =
  fixes wf :: "'s \<Rightarrow> bool"
    and live :: "'s \<Rightarrow> 'p \<rightharpoonup> 'r"
    and pages :: "'r \<Rightarrow> nat set"
    and area :: "'s \<Rightarrow> nat set"
    and step :: "'s \<Rightarrow> ('n, 'p) shm_op \<Rightarrow> 's \<Rightarrow> bool"
  assumes in_area: "wf d \<Longrightarrow> live d p = Some r \<Longrightarrow> pages r \<subseteq> area d"
    and disjoint: "wf d \<Longrightarrow> live d p = Some r \<Longrightarrow> live d q = Some r' \<Longrightarrow> p \<noteq> q \<Longrightarrow> pages r \<inter> pages r' = {}"
    and step_wf: "wf d \<Longrightarrow> step d x d' \<Longrightarrow> wf d' \<and> area d' = area d"
    and step_failed: "wf d \<Longrightarrow> step d (Op_alloc n None) d' \<Longrightarrow> live d' = live d"
    and step_alloc: "wf d \<Longrightarrow> step d (Op_alloc n (Some p)) d' \<Longrightarrow>
      live d p = None \<and> (\<exists>r. live d' = (live d)(p \<mapsto> r))"
    and step_free: "wf d \<Longrightarrow> step d (Op_free p) d' \<Longrightarrow> live d' = (live d)(p := None)"
begin

lemma step_keeps:
  assumes "wf d" "step d x d'" "live d p = Some r" "x \<noteq> Op_free p"
  shows "live d' p = Some r"
proof (cases x)
  case (Op_alloc n b)
  show ?thesis
  proof (cases b)
    case None
    then show ?thesis using step_failed [of d n d'] Op_alloc assms by simp
  next
    case (Some q)
    then show ?thesis using step_alloc [of d n q d'] Op_alloc assms by auto
  qed
next
  case (Op_free q)
  then show ?thesis using step_free [of d q d'] assms by auto
qed

lemma history_wf: "history step d ops d' \<Longrightarrow> wf d \<Longrightarrow> wf d' \<and> area d' = area d"
  by (induction rule: history.induct) (use step_wf in fastforce)+

lemma history_keeps:
  assumes "history step d ops d'" "wf d" "live d p = Some r" "Op_free p \<notin> set ops"
  shows "live d' p = Some r"
  using assms by (induction rule: history.induct) (use step_wf step_keeps in auto)

text \<open>A range a client holds is its own, whatever the others allocate and release.\<close>

lemma history_isolated:
  assumes "history step d ops d'" "wf d" "live d p = Some r" "Op_free p \<notin> set ops"
    and "live d' q = Some r'" "q \<noteq> p"
  shows "pages r \<inter> pages r' = {} \<and> pages r' \<subseteq> area d"
  using assms history_wf history_keeps disjoint in_area by metis

end

text \<open>The steps of the driver's allocator: what \<open>pnc_shm_alloc\<close> and \<open>pnc_shm_free\<close> do under the semaphore.\<close>

inductive shm_step :: "'a shm_state_scheme \<Rightarrow> (u32, nat) shm_op \<Rightarrow> 'a shm_state_scheme \<Rightarrow> bool" where
  step_alloc: "kmalloc_fresh (e :: 'a shm_state_scheme smc_env) \<Longrightarrow>
     shm_alloc_locked e n (blocks d) d = Some (r, blk, d') \<Longrightarrow> shm_step d (Op_alloc n blk) d'"
| step_free: "live_blocks d p \<noteq> None \<Longrightarrow> shm_free_locked p d = Some d' \<Longrightarrow> shm_step d (Op_free p) d'"

inductive_cases shm_step_allocE: "shm_step d (Op_alloc n blk) d'"
inductive_cases shm_step_freeE: "shm_step d (Op_free p) d'"

definition range_pages :: "u32 \<times> u32 \<Rightarrow> nat set" where
  "range_pages r = {unat (fst r) ..< unat (fst r) + unat (snd r)}"

definition shm_area :: "'a shm_state_scheme \<Rightarrow> nat set" where
  "shm_area d = {REE_RESERVED_PAGES ..< unat (shm_nr_pages d)}"

lemma shm_step_alloc_ok:
  assumes "shm_wf d" "shm_step d (Op_alloc n blk) d'"
  shows "\<exists>r. alloc_outcome n d r blk d' \<and> shm_nr_pages d' = shm_nr_pages d"
proof -
  obtain r and e :: "'a shm_state_scheme smc_env" where e: "kmalloc_fresh e"
    and r: "shm_alloc_locked e n (blocks d) d = Some (r, blk, d')"
    using assms(2) by (elim shm_step_allocE)
  obtain r2 blk2 h where "shm_alloc_locked e n (blocks d) d = Some (r2, blk2, d\<lparr>heap := h\<rparr>)"
      "alloc_outcome n d r2 blk2 (d\<lparr>heap := h\<rparr>)"
    using shm_alloc_locked_ok [OF assms(1) e, of n] by blast
  then show ?thesis using r by auto
qed

lemma shm_step_free_ok:
  assumes "shm_wf d" "shm_step d (Op_free p) d'"
  shows "shm_wf d' \<and> shm_nr_pages d' = shm_nr_pages d \<and> live_blocks d' = (live_blocks d)(p := None)"
proof -
  obtain x where "live_blocks d p = Some x" and f: "shm_free_locked p d = Some d'"
    using assms(2) by (elim shm_step_freeE) auto
  from shm_free_locked_ok [OF assms(1) this(1)] show ?thesis using f by auto
qed

interpretation shmem: page_allocator shm_wf live_blocks range_pages shm_area shm_step
proof unfold_locales
  fix d :: "'a shm_state_scheme" and d' :: "'a shm_state_scheme" and p q r r' x n
  show "shm_wf d \<Longrightarrow> live_blocks d p = Some r \<Longrightarrow> range_pages r \<subseteq> shm_area d"
    using live_blocks_isolated(1,2) [of d p "fst r" "snd r"]
    by (auto simp: range_pages_def shm_area_def)
  show "shm_wf d \<Longrightarrow> live_blocks d p = Some r \<Longrightarrow> live_blocks d q = Some r' \<Longrightarrow> p \<noteq> q \<Longrightarrow>
      range_pages r \<inter> range_pages r' = {}"
    unfolding range_pages_def
    by (rule live_blocks_isolated(3) [of d p _ _ q]) simp_all
  show "shm_wf d \<Longrightarrow> shm_step d x d' \<Longrightarrow> shm_wf d' \<and> shm_area d' = shm_area d"
    using shm_step_alloc_ok [of d _ _ d'] shm_step_free_ok [of d _ d']
    by (cases x) (auto simp: alloc_outcome_def shm_area_def)
  show "shm_wf d \<Longrightarrow> shm_step d (Op_alloc n None) d' \<Longrightarrow> live_blocks d' = live_blocks d"
    using shm_step_alloc_ok [of d n None d'] by (auto simp: alloc_outcome_def)
  show "shm_wf d \<Longrightarrow> shm_step d (Op_alloc n (Some p)) d' \<Longrightarrow>
      live_blocks d p = None \<and> (\<exists>r. live_blocks d' = (live_blocks d)(p \<mapsto> r))"
    using shm_step_alloc_ok [of d n "Some p" d'] by (auto simp: alloc_outcome_def)
  show "shm_wf d \<Longrightarrow> shm_step d (Op_free p) d' \<Longrightarrow> live_blocks d' = (live_blocks d)(p := None)"
    using shm_step_free_ok by blast
qed

subsection \<open>The functions of the allocator\<close>

lemma shm_cong:
  assumes "heap d' = heap d" "blocks d' = blocks d" "shm_nr_pages d' = shm_nr_pages d"
  shows "shm_wf d' = shm_wf d" "live_blocks d' = live_blocks d" "shm_fits d' k = shm_fits d k"
  unfolding shm_wf_def live_blocks_def [abs_def] shm_fits_def by (simp_all only: assms)

lemma shm_update_simps [simp]:
  "shm_wf (d\<lparr>shm_sem := n\<rparr>) = shm_wf d"
  "live_blocks (d\<lparr>shm_sem := n\<rparr>) = live_blocks d"
  "shm_fits (d\<lparr>shm_sem := n\<rparr>) k = shm_fits d k"
  "shm_wf (d\<lparr>shm_sem := n, heap := h\<rparr>) = shm_wf (d\<lparr>heap := h\<rparr>)"
  "live_blocks (d\<lparr>shm_sem := n, heap := h\<rparr>) = live_blocks (d\<lparr>heap := h\<rparr>)"
  by (rule shm_cong; simp)+

lemma down_shm_sem:
  "down_interruptible e shm_sem shm_sem_update d =
     (if 0 < shm_sem (yield e d) then Some (0, (yield e d)\<lparr>shm_sem := shm_sem (yield e d) - 1\<rparr>)
      else if intr e (tick d) then Some (- EINTR, yield e d) else None)"
  by (simp add: down_interruptible_def Let_def)

text \<open>
  C4. An allocation that succeeds adds one range of exactly the pages asked for to the ranges in use;
  one that fails changes no range in use. Both keep the list of blocks a tiling of the shared
  memory and give the semaphore back.
\<close>

theorem shm_alloc_contract:
  assumes "kmalloc_fresh e" and "shm_wf (yield e d)" and "blocks (yield e d) = blocks d"
    and "pnc_shm_alloc e n d = Some (r, blk, d')"
  shows "shm_wf d' \<and> shm_sem d' = shm_sem (yield e d) \<and>
    (case blk of
       None \<Rightarrow> (r = - ENOMEM \<or> r = - ERESTARTSYS) \<and> live_blocks d' = live_blocks (yield e d)
     | Some p \<Rightarrow> r = 0 \<and> live_blocks (yield e d) p = None \<and>
         (\<exists>off. live_blocks d' = (live_blocks (yield e d))(p \<mapsto> (off, n))))"
proof (cases "0 < shm_sem (yield e d)")
  case False
  then show ?thesis
    using assms(2,4)
    by (auto simp: pnc_shm_alloc_def down_shm_sem errno Let_def split: if_splits)
next
  case True
  let ?d = "(yield e d)\<lparr>shm_sem := shm_sem (yield e d) - 1\<rparr>"
  have wf: "shm_wf ?d" and b: "blocks ?d = blocks d" using assms(2,3) by simp_all
  obtain r2 blk2 h where "shm_alloc_locked e n (blocks ?d) ?d = Some (r2, blk2, ?d\<lparr>heap := h\<rparr>)"
      "alloc_outcome n ?d r2 blk2 (?d\<lparr>heap := h\<rparr>)"
    using shm_alloc_locked_ok [OF wf assms(1), of n] by blast
  then show ?thesis
    using assms(4) True b
    by (auto simp: pnc_shm_alloc_def down_shm_sem alloc_outcome_def split: option.splits)
qed

text \<open>
  C20. Allocation is complete and always returns: with the semaphore available and \<open>kmalloc\<close> working, it
  succeeds exactly when some run of consecutive free blocks has the pages asked for.
\<close>

theorem shm_alloc_complete:
  assumes "kmalloc_fresh e" and "shm_wf (yield e d)" and "blocks (yield e d) = blocks d"
    and "0 < shm_sem (yield e d)" and "kmalloc_works e" and "finite (dom (heap (yield e d)))"
  shows "\<exists>r blk d'. pnc_shm_alloc e n d = Some (r, blk, d') \<and> (r = 0 \<longleftrightarrow> shm_fits (yield e d) n)"
proof -
  let ?d = "(yield e d)\<lparr>shm_sem := shm_sem (yield e d) - 1\<rparr>"
  have wf: "shm_wf ?d" and b: "blocks ?d = blocks d" using assms(2,3) by simp_all
  obtain r blk h where "shm_alloc_locked e n (blocks ?d) ?d = Some (r, blk, ?d\<lparr>heap := h\<rparr>)"
      "r = 0 \<longleftrightarrow> shm_fits ?d n"
    using shm_alloc_locked_ok [OF wf assms(1), of n] assms(5,6) by auto
  then show ?thesis
    using assms(4) b by (simp add: pnc_shm_alloc_def down_shm_sem)
qed

text \<open>
  Whatever blocks the clients allocate and release, a block that is not released keeps its range,
  and the range of any other block in use is disjoint from it, outside the reserved pages and inside the
  shared memory.
\<close>

theorem shm_history_isolated:
  assumes "shm_wf d" and "history shm_step d ops d'"
    and "live_blocks d p = Some r" and "Op_free p \<notin> set ops"
  shows "live_blocks d' p = Some r \<and>
    (\<forall>q r'. \<not> (live_blocks d' q = Some r' \<and> q \<noteq> p \<and>
       (range_pages r \<inter> range_pages r' \<noteq> {} \<or> \<not> range_pages r' \<subseteq> shm_area d)))"
  using shmem.history_keeps [OF assms(2,1,3,4)] shmem.history_isolated [OF assms(2,1,3,4)] by blast

text \<open>
  C22. Releasing a block in use returns and frees its range and no other: every other range stays as it is, the list of blocks still
  tiles the memory, and the semaphore is given back. When the semaphore is taken and a signal interrupts the wait for
  it, the call returns an error and nothing is released.
\<close>

theorem shm_free_contract:
  assumes "heap d p \<noteq> None" and "shm_wf (yield e d)" and "live_blocks (yield e d) p = Some x"
    and "0 < shm_sem (yield e d) \<or> intr e (tick d)"
  shows "\<exists>r d'. pnc_shm_free e (Some p) d = Some (r, d') \<and> shm_wf d' \<and> shm_sem d' = shm_sem (yield e d) \<and>
    (if 0 < shm_sem (yield e d)
     then r = 0 \<and> live_blocks d' = (live_blocks (yield e d))(p := None)
     else r = - ERESTARTSYS \<and> live_blocks d' = live_blocks (yield e d))"
proof (cases "0 < shm_sem (yield e d)")
  case False
  then show ?thesis
    using assms by (auto simp: pnc_shm_free_def down_shm_sem errno)
next
  case True
  let ?d = "(yield e d)\<lparr>shm_sem := shm_sem (yield e d) - 1\<rparr>"
  have "shm_wf ?d" "live_blocks ?d p = Some x" using assms(2,3) by simp_all
  from shm_free_locked_ok [OF this] show ?thesis
    using True assms(1) by (auto simp: pnc_shm_free_def down_shm_sem)
qed

text \<open>
  Shutting the allocator down frees the memory of every block of the list and of nothing else.
\<close>

theorem shm_exit_frees_all:
  assumes "shm_wf d" and "addrs (heap d) (blocks d) = Some ps"
  shows "pnc_shm_exit d =
    Some (d\<lparr>heap := (\<lambda>a. if a \<in> set ps then None else heap d a), blocks := None\<rparr>)"
proof -
  have "block_list (heap d) REE_RESERVED_PAGES (unat (shm_nr_pages d)) (blocks d) ps"
    using assms by (simp add: shm_wf_def)
  from free_loop_ok [OF this] show ?thesis by (simp add: pnc_shm_exit_def)
qed

text \<open>
  The geometry reaches the secure monitor intact, on CPU 0: the two halves of the physical base address
  recompose it, and the size in bytes is exact below 4 GB.
\<close>

theorem shm_forward_geometry:
  assumes "smc_wq d"
  shows "\<exists>p. pnc_shm_forward e stack d = Some (d\<lparr>smc_log := smc_log d @ [(0, p)]\<rparr>) \<and>
    a0 p = SMC_CONFIG_SHAREDMEM \<and> a4 p = LINUX_SHARED_MEM_TAG \<and>
    push_bit 32 (ucast (a2 p)) OR ucast (a1 p) = shm_pbase d \<and>
    unat (a3 p) = unat (shm_nr_pages d) * PAGE_SIZE mod 2 ^ 32"
proof -
  let ?p = "stack\<lparr>a0 := SMC_CONFIG_SHAREDMEM, a1 := ucast (shm_pbase d),
      a2 := ucast (drop_bit 32 (shm_pbase d)), a3 := shm_nr_pages d * of_nat PAGE_SIZE,
      a4 := LINUX_SHARED_MEM_TAG\<rparr>"
  have "push_bit 32 (ucast (ucast (drop_bit 32 x) :: u32)) OR ucast (ucast x :: u32) = (x :: u64)" for x
    by (rule bit_word_eqI) (auto simp: bit_simps)
  moreover have "unat (n * of_nat PAGE_SIZE :: u32) = unat n * PAGE_SIZE mod 2 ^ 32" for n :: u32
    by (simp add: unat_word_ariths proto_consts)
  ultimately show ?thesis
    using assms
    by (intro exI [of _ ?p]) (simp add: pnc_shm_forward_def pnc_sched_smc_Some do_smc_def Let_def)
qed

subsection \<open>A concrete allocator\<close>

text \<open>A shared memory of 100 pages with one block of 4 pages in use.\<close>

definition shm_example :: shm_state where
  "shm_example = \<lparr>tick = 0, smc_wq = True, smc_log = [], shm_base = 0x1000, shm_pbase = 0x880000000,
     shm_nr_pages = 100, shm_sem = 1,
     heap = [1 \<mapsto> \<lparr>blk_free = False, blk_offset = 3, blk_nr_pages = 4, blk_next = Some 2\<rparr>,
             2 \<mapsto> \<lparr>blk_free = True, blk_offset = 7, blk_nr_pages = 93, blk_next = None\<rparr>],
     blocks = Some 1, shm = zero_shm\<rparr>"

lemma shm_example_list: "block_list (heap shm_example) 3 100 (Some 1) [1, 2]"
  by (simp add: shm_example_def)

lemma shm_example_wf: "shm_wf shm_example"
  and shm_example_live: "live_blocks shm_example = [1 \<mapsto> (3, 4)]"
  using shm_wfI [of shm_example "[1, 2]"] shm_example_list
  by (auto simp: shm_example_def allocated_def fun_eq_iff proto_consts)

lemma yield_quiet: "yield quiet_smc_env d = d\<lparr>tick := Suc (tick d)\<rparr>"
  by (simp add: yield_def)

lemma shm_tick_simps [simp]:
  "shm_wf (d\<lparr>tick := n\<rparr>) = shm_wf d" "live_blocks (d\<lparr>tick := n\<rparr>) = live_blocks d"
  by (rule shm_cong; simp)+

definition shm_example_2 :: shm_state where
  "shm_example_2 = snd (snd (the (pnc_shm_alloc quiet_smc_env 5 shm_example)))"

lemma shm_example_alloc:
  "pnc_shm_alloc quiet_smc_env 5 shm_example = Some (0, Some 2, shm_example_2)"
proof -
  have "alloc_loop 5 (heap shm_example) (Some 1) = Some (Split 2, heap shm_example)"
    by (subst alloc_loop.simps, simp add: shm_example_def, subst alloc_loop.simps, simp)
  moreover have "find (\<lambda>a. heap shm_example a = None) [0..<64] = Some 0"
    by (simp add: shm_example_def upt_rec)
  ultimately have "\<exists>d. pnc_shm_alloc quiet_smc_env 5 shm_example = Some (0, Some 2, d)"
    by (simp add: pnc_shm_alloc_def down_shm_sem yield_quiet shm_alloc_locked_def shm_example_def)
  then show ?thesis by (auto simp: shm_example_2_def)
qed


lemma shm_example_yield:
  "shm_wf (yield quiet_smc_env shm_example)"
  "live_blocks (yield quiet_smc_env shm_example) = [1 \<mapsto> (3, 4)]"
  "blocks (yield quiet_smc_env shm_example) = blocks shm_example"
  "shm_sem (yield quiet_smc_env shm_example) = 1"
  by (simp_all add: yield_quiet shm_example_wf shm_example_live)
     (simp add: shm_example_def)

theorem shm_alloc_contract_witness:
  "\<exists>off. live_blocks shm_example_2 = [1 \<mapsto> (3, 4), 2 \<mapsto> (off, 5)]"
  using shm_alloc_contract [OF quiet_smc_env_fresh shm_example_yield(1,3) shm_example_alloc]
  by (simp add: shm_example_yield)

text \<open>\<open>kmalloc\<close> that never fails.\<close>

definition rich_env :: "shm_state smc_env" where
  "rich_env = quiet_smc_env\<lparr>kmalloc :=
     (\<lambda>n used. if finite {a. used a} then Some (Suc (Max (insert 0 {a. used a}))) else None)\<rparr>"

lemma rich_env_kmalloc: "kmalloc_fresh rich_env" "kmalloc_works rich_env"
proof -
  have "\<not> used (Suc (Max (insert 0 {a. used a})))" if "finite {a. used a}" for used :: "nat \<Rightarrow> bool"
  proof
    assume "used (Suc (Max (insert 0 {a. used a})))"
    then have "Suc (Max (insert 0 {a. used a})) \<le> Max (insert 0 {a. used a})"
      using that by (intro Max_ge) simp_all
    then show False by simp
  qed
  then show "kmalloc_fresh rich_env" by (auto simp: kmalloc_fresh_def rich_env_def)
  show "kmalloc_works rich_env" by (simp add: kmalloc_works_def rich_env_def)
qed

lemma rich_env_yield: "yield rich_env shm_example = yield quiet_smc_env shm_example"
  by (simp add: yield_def rich_env_def)

theorem shm_alloc_complete_witness:
  "\<exists>r blk d'. pnc_shm_alloc rich_env 5 shm_example = Some (r, blk, d') \<and>
     (r = 0 \<longleftrightarrow> shm_fits (yield rich_env shm_example) 5)"
proof (rule shm_alloc_complete [OF rich_env_kmalloc(1) _ _ _ rich_env_kmalloc(2)])
  show "finite (dom (heap (yield rich_env shm_example)))"
    by (simp add: rich_env_yield yield_quiet) (simp add: shm_example_def)
qed (simp_all add: rich_env_yield shm_example_yield)

lemma shm_step_pnc_shm_alloc:
  fixes d :: "'a shm_state_scheme"
  assumes "pnc_shm_alloc quiet_smc_env n d = Some (0, Some p, d')"
  shows "shm_step (d\<lparr>tick := Suc (tick d), shm_sem := shm_sem d - 1\<rparr>) (Op_alloc n (Some p))
    (d'\<lparr>shm_sem := shm_sem d' - 1\<rparr>)"
proof -
  let ?d = "d\<lparr>tick := Suc (tick d), shm_sem := shm_sem d - 1\<rparr>"
  let ?e = "quiet_smc_env :: 'a shm_state_scheme smc_env"
  have "shm_alloc_locked ?e n (blocks d) ?d = Some (0, Some p, d'\<lparr>shm_sem := shm_sem d' - 1\<rparr>)"
    using assms
    by (cases "shm_alloc_locked ?e n (blocks d) ?d")
       (auto simp: pnc_shm_alloc_def down_shm_sem yield_quiet split: if_splits)
  then show ?thesis
    by (intro step_alloc [OF quiet_smc_env_fresh]) simp_all
qed

theorem shm_history_isolated_witness:
  "\<exists>d'. live_blocks d' (1 :: nat) = Some (3, 4) \<and>
    (\<forall>q r'. \<not> (live_blocks (d' :: shm_state) q = Some r' \<and> q \<noteq> 1 \<and>
       (range_pages (3, 4) \<inter> range_pages r' \<noteq> {} \<or> \<not> range_pages r' \<subseteq> shm_area shm_example)))"
proof -
  let ?d = "shm_example\<lparr>tick := Suc (tick shm_example), shm_sem := shm_sem shm_example - 1\<rparr>"
  have wf: "shm_wf ?d" "live_blocks ?d 1 = Some (3, 4)"
    using shm_cong [of ?d shm_example] shm_example_wf shm_example_live by simp_all
  have "history shm_step ?d [Op_alloc 5 (Some 2)] (shm_example_2\<lparr>shm_sem := shm_sem shm_example_2 - 1\<rparr>)"
    by (rule history_cons, rule shm_step_pnc_shm_alloc [OF shm_example_alloc], rule history_nil)
  from shm_history_isolated [OF wf(1) this wf(2)] show ?thesis
    by (intro exI [of _ "shm_example_2\<lparr>shm_sem := shm_sem shm_example_2 - 1\<rparr>"])
       (simp add: shm_area_def)
qed

theorem shm_free_contract_witness:
  "\<exists>d'. pnc_shm_free quiet_smc_env (Some 1) shm_example = Some (0, d') \<and>
     shm_wf d' \<and> live_blocks d' 1 = None"
proof -
  have l: "live_blocks (yield quiet_smc_env shm_example) 1 = Some (3, 4)" by (simp add: shm_example_yield)
  have h: "heap shm_example 1 \<noteq> None" "0 < shm_sem (yield quiet_smc_env shm_example)"
    by (simp_all add: yield_quiet shm_example_def)
  from shm_free_contract [OF h(1) shm_example_yield(1) l] h(2) show ?thesis by (auto split: if_splits)
qed

theorem shm_exit_frees_all_witness:
  "pnc_shm_exit shm_example =
     Some (shm_example\<lparr>heap := (\<lambda>a. if a \<in> {1, 2} then None else heap shm_example a), blocks := None\<rparr>)"
proof -
  have "addrs (heap shm_example) (blocks shm_example) = Some [1, 2]"
    using addrs_block_list [OF shm_example_list] by (simp add: shm_example_def)
  from shm_exit_frees_all [OF shm_example_wf this] show ?thesis by simp
qed

theorem shm_forward_geometry_witness:
  "\<exists>p. pnc_shm_forward quiet_smc_env zero_params shm_example =
       Some (shm_example\<lparr>smc_log := smc_log shm_example @ [(0, p)]\<rparr>) \<and>
     push_bit 32 (ucast (a2 p)) OR ucast (a1 p) = (0x880000000 :: u64) \<and> unat (a3 p) = 409600"
proof -
  have "smc_wq shm_example" by (simp add: shm_example_def)
  from shm_forward_geometry [OF this, of quiet_smc_env zero_params] show ?thesis
    by (auto simp: shm_example_def proto_consts)
qed

end
