(* ===== verification/PncInv.thy ===== *)
theory PncInv
  imports PncApi PncRing_Fifo PncShm_Alloc
begin

text \<open>
  The invariant of the session framework, and that every handler and every function of the API keeps it:
  a rule for \<open>wlp\<close> per operation. The other threads and the secure world may do anything between two
  sleeping points that keeps the invariant (\<open>env_keeps drv_inv\<close>); what the secure world writes into the
  rings during a checkout is not restricted at all.
\<close>

subsection \<open>The invariant\<close>

definition session_ok :: "nat \<Rightarrow> pnc_session \<Rightarrow> bool" where
  "session_ok i s \<longleftrightarrow>
     s_index s = of_nat i \<and> s_event_pending s AND EVENT_PENDING_ALL = s_event_pending s \<and>
     s_global s \<in> {S_NULL, S_CONFIG_WAITING, S_CONFIGURED, S_TERM_WAITING} \<and>
     s_server s \<in> {S_NULL, S_IDLE, S_NOTIFIED, S_BUSY} \<and>
     s_client s \<in> {S_NULL, S_IDLE, S_WAITING, S_CANCEL_WAITING, S_NOTIFIED} \<and>
     (s_global s = S_CONFIGURED \<longrightarrow> s_server s \<noteq> S_NULL \<and> s_client s \<noteq> S_NULL)"

definition drv_inv :: "'a drv_scheme \<Rightarrow> bool" where
  "drv_inv d \<longleftrightarrow>
     length (sessions d) = REE_MAX_SESSIONS \<and> (\<forall>i < REE_MAX_SESSIONS. session_ok i (sessions d ! i)) \<and>
     signal_session d < REE_MAX_SESSIONS \<and>
     length (signals_ns_to_s (shm d)) = REE_MAX_SESSIONS \<and>
     length (signals_s_to_ns (shm d)) = REE_MAX_SESSIONS \<and>
     shm_base d \<noteq> 0 \<and> smc_wq d \<and>
     producer_safe 8 (ns_to_s_ring d) \<and> consumer_safe 8 (s_to_ns_ring d)"

lemma drv_inv_tick [simp]: "drv_inv (d\<lparr>tick := n\<rparr>) = drv_inv d"
  by (simp add: drv_inv_def)

lemma drv_inv_tick_free: "tick_free drv_inv"
  by (simp add: tick_free_def)

lemma drv_inv_cong:
  assumes "sessions d' = sessions d" "signal_session d' = signal_session d"
    "length (signals_ns_to_s (shm d')) = length (signals_ns_to_s (shm d))"
    "length (signals_s_to_ns (shm d')) = length (signals_s_to_ns (shm d))"
    "shm_base d' = shm_base d" "smc_wq d' = smc_wq d" "ns_to_s_ring d' = ns_to_s_ring d"
    "s_to_ns_ring d' = s_to_ns_ring d"
  shows "drv_inv d' = drv_inv d"
  by (simp add: drv_inv_def assms)

lemma drv_inv_simps [simp]:
  "drv_inv (shm_sem_update f d) = drv_inv d"
  "drv_inv (d\<lparr>heap := h\<rparr>) = drv_inv d"
  "drv_inv (d\<lparr>heap := h, shm_sem := n\<rparr>) = drv_inv d"
  "drv_inv (d\<lparr>smc_log := l\<rparr>) = drv_inv d"
  "drv_inv (d\<lparr>memory := m\<rparr>) = drv_inv d"
  "drv_inv (d\<lparr>work_pending := w\<rparr>) = drv_inv d"
  "drv_inv (d\<lparr>session_ready := w\<rparr>) = drv_inv d"
  "drv_inv (d\<lparr>shm := (shm d)\<lparr>notif_ns_to_s := x\<rparr>\<rparr>) = drv_inv d"
  "drv_inv (d\<lparr>shm := (shm d)\<lparr>notif_s_to_ns := x\<rparr>\<rparr>) = drv_inv d"
  "drv_inv (d\<lparr>shm := (shm d)\<lparr>ring_ns_to_s := sh\<rparr>\<rparr>) = drv_inv d"
  "drv_inv (d\<lparr>shm := (shm d)\<lparr>ring_s_to_ns := sh\<rparr>\<rparr>) = drv_inv d"
  "drv_inv (d\<lparr>shm := (shm d)\<lparr>signals_ns_to_s := (signals_ns_to_s (shm d))[j := x]\<rparr>\<rparr>) = drv_inv d"
  "drv_inv (d\<lparr>shm := (shm d)\<lparr>signals_s_to_ns := (signals_s_to_ns (shm d))[j := x]\<rparr>\<rparr>) = drv_inv d"
  by (rule drv_inv_cong; simp)+

lemma drv_inv_upd_sess [intro]:
  assumes "drv_inv d" "\<And>s. s = sess d i \<Longrightarrow> session_ok i s \<Longrightarrow> session_ok i (f s)"
  shows "drv_inv (upd_sess i f d)"
  using assms by (cases "i < REE_MAX_SESSIONS") (auto simp: drv_inv_def upd_sess_def sess_def nth_list_update)

lemma drv_inv_sess: "drv_inv d \<Longrightarrow> i < REE_MAX_SESSIONS \<Longrightarrow> session_ok i (sess d i)"
  by (simp add: drv_inv_def sess_def)

text \<open>Updates of a slot that keep it well-formed.\<close>

lemma session_ok_simps [simp]:
  "session_ok i (s_sem_update f1 s) = session_ok i s"
  "session_ok i (s_free_update f2 s) = session_ok i s"
  "session_ok i (s_mem_update f3 s) = session_ok i s"
  "session_ok i (s_server_message_update f4 s) = session_ok i s"
  "session_ok i (s_client_message_update f5 s) = session_ok i s"
  "session_ok i (s_event_wait_update f6 s) = session_ok i s"
  by (simp_all add: session_ok_def)

lemma session_ok_global:
  "session_ok i s \<Longrightarrow> g \<in> {S_NULL, S_CONFIG_WAITING, S_TERM_WAITING} \<Longrightarrow> session_ok i (s\<lparr>s_global := g\<rparr>)"
  by (auto simp: session_ok_def)

lemma session_ok_configured:
  "session_ok i s \<Longrightarrow> session_ok i (s\<lparr>s_global := S_CONFIGURED, s_server := S_IDLE, s_client := S_IDLE\<rparr>)"
  by (auto simp: session_ok_def)

lemma session_ok_server:
  "session_ok i s \<Longrightarrow> x \<in> {S_IDLE, S_NOTIFIED, S_BUSY} \<Longrightarrow> session_ok i (s\<lparr>s_server := x\<rparr>)"
  by (auto simp: session_ok_def)

lemma session_ok_client:
  "session_ok i s \<Longrightarrow> x \<in> {S_IDLE, S_WAITING, S_CANCEL_WAITING, S_NOTIFIED} \<Longrightarrow>
   session_ok i (s\<lparr>s_client := x\<rparr>)"
  by (auto simp: session_ok_def)

lemma event_bits:
  "(EVENT_PENDING_SIGNAL :: u32) AND EVENT_PENDING_ALL = EVENT_PENDING_SIGNAL"
  "EVENT_PENDING_REQUEST AND EVENT_PENDING_ALL = EVENT_PENDING_REQUEST"
  "EVENT_PENDING_RESPONSE AND EVENT_PENDING_ALL = EVENT_PENDING_RESPONSE"
  by (simp_all add: EVENT_PENDING_SIGNAL_def EVENT_PENDING_REQUEST_def EVENT_PENDING_RESPONSE_def
      EVENT_PENDING_ALL_def)

lemma and_or_sub: "(x :: u32) AND a = x \<Longrightarrow> y AND a = y \<Longrightarrow> (x OR y) AND a = x OR y"
  by (simp add: bit.conj_disj_distrib2)

lemma and_and_sub: "(x :: u32) AND a = x \<Longrightarrow> (x AND y) AND a = x AND y"
  by (metis and.assoc and.commute)

lemma session_ok_post:
  "session_ok i s \<Longrightarrow> b AND EVENT_PENDING_ALL = b \<Longrightarrow> session_ok i (post_event b s)"
  by (auto simp: session_ok_def post_event_def and_or_sub)

lemma session_ok_clear: "session_ok i s \<Longrightarrow> session_ok i (clear_event b s)"
  by (auto simp: session_ok_def clear_event_def and_and_sub)

lemma session_ok_events: "session_ok i s \<Longrightarrow> session_ok i (s\<lparr>s_event_pending := EVENT_PENDING_ALL\<rparr>)"
  "session_ok i s \<Longrightarrow> session_ok i (s\<lparr>s_event_pending := 0\<rparr>)"
  by (auto simp: session_ok_def)

lemmas slot_ok = session_ok_global session_ok_configured session_ok_server session_ok_client
  session_ok_post session_ok_clear session_ok_events

subsection \<open>Primitives\<close>

lemma drv_inv_up [simp]: "drv_inv d \<Longrightarrow> drv_inv (up_session i d)"
  by (auto simp: up_session_def upd_sem_def)

lemma drv_inv_upd_sem [simp]: "drv_inv d \<Longrightarrow> drv_inv (upd_sem i f d)"
  by (auto simp: upd_sem_def)

lemma drv_inv_yield [simp]: "env_keeps drv_inv e \<Longrightarrow> drv_inv d \<Longrightarrow> drv_inv (yield e d)"
  by (rule yield_keeps [OF _ drv_inv_tick_free])

lemma drv_inv_lock [simp]: "env_keeps drv_inv e \<Longrightarrow> drv_inv d \<Longrightarrow> drv_inv (lock_sessions e d)"
  by (simp add: lock_sessions_def)

lemma drv_inv_clear_signals [simp]: "drv_inv (clear_ns_to_s_signals j d) = drv_inv d"
  by (simp add: clear_ns_to_s_signals_def)

lemma drv_inv_take_signals: "drv_inv d \<Longrightarrow> take_s_to_ns_signals j d = (x, d') \<Longrightarrow> drv_inv d'"
  by (auto simp: take_s_to_ns_signals_def)

lemma wlp_down_session [wlp_rules]:
  assumes "env_keeps drv_inv e" "drv_inv d" "\<And>d. drv_inv d \<Longrightarrow> Q d"
  shows "wlp (down_session e i d) Q"
  unfolding down_session_def
  using assms by (intro wlp_down [where P = drv_inv] drv_inv_tick_free) auto

lemma wlp_down_session_interruptible [wlp_rules]:
  assumes "env_keeps drv_inv e" "drv_inv d" "\<And>r d. drv_inv d \<Longrightarrow> Q (r, d)"
  shows "wlp (down_session_interruptible e i d) Q"
  unfolding down_session_interruptible_def
  using assms by (intro wlp_down_interruptible [where P = drv_inv] drv_inv_tick_free) auto

lemma wlp_wait_event_interruptible_inv [wlp_rules]:
  assumes "env_keeps drv_inv e" "drv_inv d" "\<And>r d. drv_inv d \<Longrightarrow> Q (r, d)"
  shows "wlp (wait_event_interruptible e timeout cond d) Q"
  using assms by (intro wlp_wait_event_interruptible [where P = drv_inv] drv_inv_tick_free) auto

lemma wlp_wait_event_inv [wlp_rules]:
  assumes "env_keeps drv_inv e" "drv_inv d" "\<And>d. drv_inv d \<Longrightarrow> Q d"
  shows "wlp (wait_event e cond d) Q"
  using assms by (intro wlp_wait_event [where P = drv_inv] drv_inv_tick_free) auto

lemma drv_inv_write [simp]:
  assumes "drv_inv d"
  shows "drv_inv (write_ns_message e m d)"
proof -
  obtain ok p sh where c: "producer_checkout (ring_peer e (tick d)) (ns_to_s_ring d) (ring_ns_to_s (shm d)) = (ok, p, sh)"
    by (cases "producer_checkout (ring_peer e (tick d)) (ns_to_s_ring d) (ring_ns_to_s (shm d))") auto
  obtain ok2 p2 sh2 where p: "producer_produce p sh m = (ok2, p2, sh2)"
    by (cases "producer_produce p sh m") auto
  have "producer_safe 8 p2"
    using assms producer_produce_safe [OF producer_checkout_safe [OF _ c] p] by (simp add: drv_inv_def)
  then show ?thesis
    using assms c p by (simp add: write_ns_message_def drv_inv_def)
qed

lemma wlp_notify_s [wlp_rules]:
  assumes "drv_inv d" "\<And>d. drv_inv d \<Longrightarrow> Q d"
  shows "wlp (notify_s e d) Q"
  using assms pnc_sched_smc_Some [of d e]
  by (simp add: notify_s_def do_smc_def drv_inv_def)

lemma wlp_raise_notification [wlp_rules]:
  assumes "drv_inv d" "\<And>d. drv_inv d \<Longrightarrow> Q d"
  shows "wlp (raise_notification e bits d) Q"
  using assms by (auto simp: raise_notification_def Let_def intro!: wlp_notify_s)

lemma wlp_notify_ns_message [wlp_rules]:
  assumes "drv_inv d" "\<And>d. drv_inv d \<Longrightarrow> Q d"
  shows "wlp (notify_ns_message e d) Q"
proof -
  obtain ok p sh where c: "producer_commit (ns_to_s_ring d) (ring_ns_to_s (shm d)) = (ok, p, sh)"
    by (cases "producer_commit (ns_to_s_ring d) (ring_ns_to_s (shm d))") auto
  then have "producer_safe 8 p"
    using assms(1) producer_commit_safe [OF _ c] by (simp add: drv_inv_def)
  then have "drv_inv (d\<lparr>ns_to_s_ring := p, shm := (shm d)\<lparr>ring_ns_to_s := sh\<rparr>\<rparr>)"
    using assms(1) by (simp add: drv_inv_def)
  then show ?thesis
    using c assms(2) by (auto simp: notify_ns_message_def Let_def intro!: wlp_raise_notification)
qed

lemma drv_inv_init_header: "drv_inv d \<Longrightarrow> wlp (pnc_shm_init_header d) drv_inv"
  by (auto simp: pnc_shm_init_header_def drv_inv_def)

lemma wlp_invalidate_sessions [wlp_rules]:
  assumes "drv_inv d" "\<And>d. drv_inv d \<Longrightarrow> Q d"
  shows "wlp (invalidate_sessions d) Q"
  unfolding invalidate_sessions_def
  by (rule wlp_mono [OF drv_inv_init_header]) (use assms in auto)

lemma wlp_pnc_shm_forward [wlp_rules]:
  assumes "drv_inv d" "\<And>d. drv_inv d \<Longrightarrow> Q d"
  shows "wlp (pnc_shm_forward e stack d) Q"
  using assms by (simp add: pnc_shm_forward_def pnc_sched_smc_Some do_smc_def drv_inv_def)

lemma wlp_shm_locked:
  assumes "drv_inv d"
  shows "(\<And>r b d. drv_inv d \<Longrightarrow> Q (r, b, d)) \<Longrightarrow> wlp (shm_alloc_locked e n b d) Q"
    and "(\<And>d. drv_inv d \<Longrightarrow> Q' d) \<Longrightarrow> wlp (shm_free_locked p d) Q'"
  using assms
  by (auto simp: shm_alloc_locked_def shm_free_locked_def split: option.splits alloc_exit.splits)

lemma wlp_pnc_shm_free [wlp_rules]:
  assumes "env_keeps drv_inv e" "drv_inv d" "\<And>r d. drv_inv d \<Longrightarrow> Q (r, d)"
  shows "wlp (pnc_shm_free e b d) Q"
proof (cases b)
  case (Some p)
  show ?thesis
    unfolding Some pnc_shm_free_def
    by (simp del: split_paired_All)
       (intro impI wlp_down_interruptible [where P = drv_inv] drv_inv_tick_free assms;
        auto simp: split_beta assms intro!: wlp_shm_locked)
qed (use assms in \<open>simp add: pnc_shm_free_def\<close>)

lemma wlp_pnc_shm_alloc [wlp_rules]:
  assumes "env_keeps drv_inv e" "drv_inv d" "\<And>r b d. drv_inv d \<Longrightarrow> Q (r, b, d)"
  shows "wlp (pnc_shm_alloc e n d) Q"
  unfolding pnc_shm_alloc_def Let_def wlp_bind
  by (intro wlp_down_interruptible [where P = drv_inv] drv_inv_tick_free assms)
     (auto simp: assms intro!: wlp_shm_locked)

subsection \<open>Composite functions\<close>

lemma wlp_check_session_configured [wlp_rules]:
  assumes "env_keeps drv_inv e" "drv_inv d" "\<And>r d. drv_inv d \<Longrightarrow> Q (r, d)"
  shows "wlp (check_session_configured e i d) Q"
  unfolding check_session_configured_def Let_def
  using assms by (auto intro!: wlp_rules)

lemma drv_inv_set_global:
  "drv_inv d \<Longrightarrow> g \<in> {S_NULL, S_CONFIG_WAITING, S_TERM_WAITING} \<Longrightarrow>
   drv_inv (upd_sess i (s_global_update (\<lambda>_. g)) d)"
  by (rule drv_inv_upd_sess) (simp_all add: session_ok_global)

lemma drv_inv_set_global_simps [simp]:
  assumes "drv_inv d"
  shows "drv_inv (upd_sess i (s_global_update (\<lambda>_. S_NULL)) d)"
    and "drv_inv (upd_sess i (s_global_update (\<lambda>_. S_CONFIG_WAITING)) d)"
    and "drv_inv (upd_sess i (s_global_update (\<lambda>_. S_TERM_WAITING)) d)"
    and "drv_inv (upd_sess i (s_mem_update f1) d)"
    and "drv_inv (upd_sess i (s_free_update f2) d)"
    and "drv_inv (upd_sess i (s_client_message_update f3) d)"
    and "drv_inv (upd_sess i (s_server_message_update f4) d)"
    and "drv_inv (upd_sess i (clear_event b) d)"
  using assms by (auto intro!: drv_inv_set_global session_ok_clear)

lemma wlp_check_and_handle [wlp_rules]:
  assumes "env_keeps drv_inv e" "drv_inv d" "\<And>r d. drv_inv d \<Longrightarrow> Q (r, d)"
  shows "wlp (check_and_handle_terminated_session e i d) Q"
  unfolding check_and_handle_terminated_session_def Let_def
  using assms by (auto intro!: wlp_rules)

lemma wlp_wait_session_event [wlp_rules]:
  assumes "env_keeps drv_inv e" "drv_inv d" "\<And>r v d. drv_inv d \<Longrightarrow> Q (r, v, d)"
  shows "wlp (wait_session_event e i m t d) Q"
  unfolding wait_session_event_def Let_def
  using assms by (auto intro!: wlp_rules)

lemma wlp_send_term [wlp_rules]:
  assumes "env_keeps drv_inv e" "drv_inv d" "\<And>d. drv_inv d \<Longrightarrow> Q d"
  shows "wlp (send_term e i d) Q"
  unfolding send_term_def Let_def
  using assms by (auto intro!: wlp_rules)

lemma drv_inv_slot_simps [simp]:
  assumes "drv_inv d"
  shows "drv_inv (upd_sess i (\<lambda>s. s\<lparr>s_mem := None, s_event_pending := EVENT_PENDING_ALL,
             s_event_wait := Suc (s_event_wait s)\<rparr>) d)"
    and "drv_inv (upd_sess i (\<lambda>s. s\<lparr>s_event_pending := EVENT_PENDING_ALL,
             s_event_wait := Suc (s_event_wait s)\<rparr>) d)"
    and "drv_inv (upd_sess i (\<lambda>s. s\<lparr>s_free := False, s_event_pending := 0,
             s_client_message := zero_message, s_server_message := zero_message\<rparr>) d)"
    and "drv_inv (upd_sess i (\<lambda>s. (post_event EVENT_PENDING_REQUEST (s\<lparr>s_server_message := m\<rparr>))
             \<lparr>s_server := S_NOTIFIED\<rparr>) d)"
    and "drv_inv (upd_sess i (\<lambda>s. (post_event EVENT_PENDING_RESPONSE (s\<lparr>s_client_message := m\<rparr>))
             \<lparr>s_client := S_NOTIFIED\<rparr>) d)"
    and "drv_inv (upd_sess i (\<lambda>s. post_event EVENT_PENDING_RESPONSE
             (if b' then s\<lparr>s_global := S_CONFIGURED, s_server := S_IDLE, s_client := S_IDLE\<rparr>
              else s\<lparr>s_global := S_NULL, s_client_message := m\<rparr>)) d)"
    and "drv_inv (upd_sess i (s_server_update (\<lambda>_. S_IDLE)) d)"
    and "drv_inv (upd_sess i (s_client_update (\<lambda>_. S_WAITING)) d)"
    and "drv_inv (upd_sess i (s_client_update (\<lambda>_. S_CANCEL_WAITING)) d)"
    and "drv_inv (upd_sess i (post_event EVENT_PENDING_RESPONSE) d)"
    and "drv_inv (upd_sess i (post_event EVENT_PENDING_SIGNAL) d)"
    and "drv_inv (upd_sess i (\<lambda>s. clear_event b (s\<lparr>s_client := S_IDLE\<rparr>)) d)"
    and "drv_inv (upd_sess i (\<lambda>s. (clear_event b (s\<lparr>s_client_message := m\<rparr>))\<lparr>s_client := S_IDLE\<rparr>) d)"
    and "drv_inv (upd_sess i (\<lambda>s. clear_event b (s\<lparr>s_server_message := m, s_server := S_BUSY\<rparr>)) d)"
    and "drv_inv (upd_sess i (\<lambda>s. s\<lparr>s_client_message := m, s_client := S_IDLE\<rparr>) d)"
  by (rule drv_inv_upd_sess [OF assms]; simp add: slot_ok event_bits)+

lemma wlp_close [wlp_rules]:
  assumes "env_keeps drv_inv e" "drv_inv d" "\<And>d. drv_inv d \<Longrightarrow> Q d"
  shows "wlp (pnc_session_close e session d) Q"
  unfolding pnc_session_close_def Let_def
  using assms by (auto split: option.splits intro!: wlp_rules)

subsection \<open>Handlers\<close>

lemma drv_inv_handlers [simp]:
  assumes "drv_inv d"
  shows "drv_inv (handle_s_request m d)" "drv_inv (handle_s_response m d)"
    "drv_inv (handle_s_config_ack m d)" "drv_inv (handle_s_cancel_ack m d)"
    "drv_inv (handle_s_term_ack m d)"
  using assms
  by (auto simp: handle_s_request_def handle_s_response_def handle_s_config_ack_def
      handle_s_cancel_ack_def handle_s_term_ack_def Let_def split: session_state.splits)

lemma drv_inv_handlers_env [simp]:
  assumes "drv_inv d"
  shows "drv_inv (handle_s_cancel e m d)" "drv_inv (handle_s_term e m d)"
  using assms
  by (auto simp: handle_s_cancel_def handle_s_term_def Let_def split: session_state.splits)

lemma drv_inv_dispatch [simp]: "drv_inv d \<Longrightarrow> drv_inv (dispatch_message e m d)"
  by (simp add: dispatch_message_def split: option.splits session_action.splits)

lemma wlp_handle_s_message [wlp_rules]:
  assumes "env_keeps drv_inv e" "drv_inv d" "\<And>d. drv_inv d \<Longrightarrow> Q d"
  shows "wlp (handle_s_message e m d) Q"
  unfolding handle_s_message_def
  using assms by (auto intro!: wlp_rules)

lemma wlp_handle_s_signal [wlp_rules]:
  assumes "env_keeps drv_inv e" "drv_inv d" "\<And>d. drv_inv d \<Longrightarrow> Q d"
  shows "wlp (handle_s_signal e i d) Q"
  unfolding handle_s_signal_def
  using assms by (auto intro!: wlp_rules)

declare close_sessions.simps [simp del]

lemma wlp_close_sessions [wlp_rules]:
  assumes "env_keeps drv_inv e" "drv_inv d" "\<And>d. drv_inv d \<Longrightarrow> Q d"
  shows "wlp (close_sessions e i d) Q"
proof (cases "REE_MAX_SESSIONS \<le> i")
  case True
  then show ?thesis using assms by (subst close_sessions.simps) simp
next
  case False
  then have "i \<le> REE_MAX_SESSIONS" by simp
  then show ?thesis using assms(2)
  proof (induction i arbitrary: d rule: inc_induct)
    case base
    then show ?case using assms(3) by (subst close_sessions.simps) simp
  next
    case (step i)
    then show ?case
      using assms(1) by (subst close_sessions.simps) (auto intro!: wlp_close)
  qed
qed

lemma wlp_handle_s_reset [wlp_rules]:
  assumes "env_keeps drv_inv e" "drv_inv d" "\<And>d. drv_inv d \<Longrightarrow> Q d"
  shows "wlp (handle_s_reset e stack d) Q"
  unfolding handle_s_reset_def
  using assms by (auto intro!: wlp_rules)

subsection \<open>The worker\<close>

lemma signal_loop_inv:
  assumes "signal_loop e signals i d = Some d'" "env_keeps drv_inv e" "drv_inv d"
  shows "drv_inv d'"
  using assms(2,3)
proof (induction rule: signal_loop.raw_induct [OF _ assms(1), consumes 0])
  case (1 loop e signals i d d')
  have ih: "wlp (loop e signals j x) drv_inv" if "drv_inv x" for j x
    using 1(1) [OF _ 1(3) that] by (simp add: wlp_iff)
  have "wlp (do {
       d \<leftarrow> (if signals AND push_bit (unat (s_index (sess d i))) 1 \<noteq> 0 then handle_s_signal e i d
             else Some d);
       if next_session i d \<noteq> signal_session d then loop e signals (next_session i d) d
       else Some d}) drv_inv"
    using 1(3,4) by (auto intro!: wlp_rules ih)
  then show ?case using 1(2) by (simp add: wlp_iff)
qed

lemma consume_safe [simp]:
  assumes "drv_inv d" "consumer_consume (s_to_ns_ring d) sh = (m, c)"
  shows "drv_inv (d\<lparr>s_to_ns_ring := c\<rparr>)"
  using assms consumer_consume_safe [OF _ assms(2), of 8] by (simp add: drv_inv_def)

lemma consume_loop_inv:
  assumes "consume_loop e d = Some d'" "env_keeps drv_inv e" "drv_inv d"
  shows "drv_inv d'"
  using assms(2,3)
proof (induction rule: consume_loop.raw_induct [OF _ assms(1), consumes 0])
  case (1 loop e d d')
  obtain m c where c: "consumer_consume (s_to_ns_ring d) (ring_s_to_ns (shm d)) = (m, c)"
    by fastforce
  have i: "drv_inv (d\<lparr>s_to_ns_ring := c\<rparr>)" using consume_safe [OF 1(4) c] .
  show ?case
  proof (cases m)
    case None
    then show ?thesis using 1(2) c i by simp
  next
    case (Some x)
    have ih: "wlp (loop e y) drv_inv" if "drv_inv y" for y
      using 1(1) [OF _ 1(3) that] by (simp add: wlp_iff)
    have "wlp (handle_s_message e x (d\<lparr>s_to_ns_ring := c\<rparr>)) (\<lambda>d. wlp (loop e d) drv_inv)"
      using 1(3) i by (auto intro!: wlp_rules ih)
    then show ?thesis using 1(2) c Some by (auto simp: wlp_def split: option.splits bind_splits)
  qed
qed

lemma message_loop_inv:
  assumes "message_loop e d = Some d'" "env_keeps drv_inv e" "drv_inv d"
  shows "drv_inv d'"
  using assms(2,3)
proof (induction rule: message_loop.raw_induct [OF _ assms(1), consumes 0])
  case (1 loop e d d')
  obtain ok c sh where c: "consumer_checkout (ring_peer e (tick d)) (s_to_ns_ring d) (ring_s_to_ns (shm d)) = (ok, c, sh)"
    by (cases "consumer_checkout (ring_peer e (tick d)) (s_to_ns_ring d) (ring_s_to_ns (shm d))") auto
  have "consumer_safe 8 c" using 1(4) consumer_checkout_safe [OF _ c, of 8] by (simp add: drv_inv_def)
  then have i: "drv_inv (d\<lparr>s_to_ns_ring := c, shm := (shm d)\<lparr>ring_s_to_ns := sh\<rparr>\<rparr>)"
    using 1(4) by (simp add: drv_inv_def)
  show ?case
  proof (cases ok)
    case False
    then show ?thesis using 1(2) c i by simp
  next
    case True
    have "wlp (consume_loop e (d\<lparr>s_to_ns_ring := c, shm := (shm d)\<lparr>ring_s_to_ns := sh\<rparr>\<rparr>)) (\<lambda>d. wlp (loop e d) drv_inv)"
      using consume_loop_inv [OF _ 1(3) i] 1(1,3) by (auto simp: wlp_iff)
    then show ?thesis using 1(2) c True by (auto simp: wlp_def split: option.splits bind_splits)
  qed
qed

lemma wlp_loops [wlp_rules]:
  assumes "env_keeps drv_inv e" "drv_inv d" "\<And>d. drv_inv d \<Longrightarrow> Q d"
  shows "wlp (signal_loop e signals i d) Q" "wlp (message_loop e d) Q"
  unfolding wlp_iff by (blast intro: assms signal_loop_inv message_loop_inv)+

lemma drv_inv_commit_messages [simp]:
  assumes "drv_inv d"
  shows "drv_inv (commit_messages d)"
proof -
  obtain ok c sh where c: "consumer_commit (s_to_ns_ring d) (ring_s_to_ns (shm d)) = (ok, c, sh)"
    by (cases "consumer_commit (s_to_ns_ring d) (ring_s_to_ns (shm d))") auto
  then have "consumer_safe 8 c"
    using assms consumer_commit_safe [OF _ c, of 8] by (simp add: drv_inv_def)
  then show ?thesis using assms c by (simp add: commit_messages_def drv_inv_def)
qed

lemma next_session_lt: "next_session i d < REE_MAX_SESSIONS"
proof -
  have "unat (x mod 28 :: u32) < 28" for x by (simp add: unat_mod)
  then show ?thesis by (simp add: next_session_def proto_consts)
qed

lemma wlp_handle_signals [wlp_rules]:
  assumes "env_keeps drv_inv e" "drv_inv d" "\<And>d. drv_inv d \<Longrightarrow> Q d"
  shows "wlp (handle_signals e signals d) Q"
proof -
  have "drv_inv (d\<lparr>signal_session := next_session i d\<rparr>)" if "drv_inv d" for i d
    using that next_session_lt [of i d] by (simp add: drv_inv_def)
  then show ?thesis
    unfolding handle_signals_def using assms by (auto intro!: wlp_rules)
qed

lemma wlp_handle_messages [wlp_rules]:
  assumes "env_keeps drv_inv e" "drv_inv d" "\<And>d. drv_inv d \<Longrightarrow> Q d"
  shows "wlp (handle_messages e d) Q"
  unfolding handle_messages_def using assms by (auto intro!: wlp_rules)

lemma wlp_handle_s_notification [wlp_rules]:
  assumes "env_keeps drv_inv e" "drv_inv d" "\<And>d. drv_inv d \<Longrightarrow> Q d"
  shows "wlp (handle_s_notification e stack d) Q"
proof -
  have "drv_inv (d\<lparr>work_pending := False, shm := (shm d)\<lparr>notif_s_to_ns := 0\<rparr>\<rparr>)"
    using assms(2) by (simp add: drv_inv_def)
  then show ?thesis
    unfolding handle_s_notification_def Let_def using assms by (auto intro!: wlp_rules)
qed

lemma drv_inv_interrupt: "drv_inv d \<Longrightarrow> drv_inv (pnc_session_interrupt_handler d)"
  by (simp add: pnc_session_interrupt_handler_def drv_inv_def)

lemma wlp_sessions_exit [wlp_rules]:
  assumes "env_keeps drv_inv e" "drv_inv d" "\<And>d. drv_inv d \<Longrightarrow> Q d"
  shows "wlp (pnc_sessions_exit e stack d) Q"
  unfolding pnc_sessions_exit_def using assms by (auto intro!: wlp_rules)

subsection \<open>The API\<close>

declare find_free.simps [simp del]

lemma drv_inv_memory [simp]: "drv_inv (memory_update f d) = drv_inv d"
  by (rule drv_inv_cong; simp)

lemma wlp_pnc_session_open [wlp_rules]:
  assumes "env_keeps drv_inv e" "drv_inv d" "\<And>r i d. drv_inv d \<Longrightarrow> Q (r, i, d)"
  shows "wlp (pnc_session_open e d) Q"
  unfolding pnc_session_open_def Let_def
  using assms by (auto split: option.splits intro!: wlp_rules)

lemma wlp_pnc_session_alloc [wlp_rules]:
  assumes "env_keeps drv_inv e" "drv_inv d" "\<And>r d. drv_inv d \<Longrightarrow> Q (r, d)"
  shows "wlp (pnc_session_alloc e i sz d) Q"
  unfolding pnc_session_alloc_def Let_def
  using assms by (auto intro!: wlp_rules)

lemma wlp_config_name [wlp_rules]:
  assumes "drv_inv d" "\<And>r d. drv_inv d \<Longrightarrow> Q (r, d)"
  shows "wlp (config_name i name base d) Q"
  unfolding config_name_def
  using assms by (cases name) (auto simp: wlp_def split: option.splits bind_splits)

lemma wlp_config_result [wlp_rules]:
  assumes "env_keeps drv_inv e" "drv_inv d" "\<And>r d. drv_inv d \<Longrightarrow> Q (r, d)"
  shows "wlp (config_result e i ret d) Q"
  unfolding config_result_def Let_def
  using assms by (auto intro!: wlp_rules)

lemma wlp_any: "(\<And>x. Q x) \<Longrightarrow> wlp m Q"
  by (simp add: wlp_iff)

lemma wlp_configure_session [wlp_rules]:
  assumes "env_keeps drv_inv e" "drv_inv d" "\<And>r d. drv_inv d \<Longrightarrow> Q (r, d)"
  shows "wlp (configure_session e i sid name d) Q"
  unfolding configure_session_def Let_def
  using assms by (auto intro!: wlp_rules wlp_any [of _ "config_message _ _ _"])

lemma wlp_send_request [wlp_rules]:
  assumes "env_keeps drv_inv e" "drv_inv d" "\<And>r d. drv_inv d \<Longrightarrow> Q (r, d)"
  shows "wlp (send_request e i x d) Q" "wlp (pnc_session_send_request e i x d) Q"
proof -
  have *: "wlp (send_request e i x d) Q" if "drv_inv d" for d
    unfolding send_request_def Let_def using assms that by (auto intro!: wlp_rules)
  show "wlp (send_request e i x d) Q" by (rule * [OF assms(2)])
  show "wlp (pnc_session_send_request e i x d) Q"
    unfolding pnc_session_send_request_def using assms by (auto intro!: wlp_rules *)
qed

lemma wlp_get_response [wlp_rules]:
  assumes "env_keeps drv_inv e" "drv_inv d" "\<And>r v d. drv_inv d \<Longrightarrow> Q (r, v, d)"
  shows "wlp (get_response e i buf d) Q"
  unfolding get_response_def Let_def using assms by (auto intro!: wlp_rules)

lemma wlp_get_request [wlp_rules]:
  assumes "env_keeps drv_inv e" "drv_inv d" "\<And>r v d. drv_inv d \<Longrightarrow> Q (r, v, d)"
  shows "wlp (pnc_session_get_request e i buf d) Q"
  unfolding pnc_session_get_request_def Let_def using assms by (auto intro!: wlp_rules)

lemma wlp_cancel_wait [wlp_rules]:
  assumes "env_keeps drv_inv e" "drv_inv d" "\<And>r v d. drv_inv d \<Longrightarrow> Q (r, v, d)"
  shows "wlp (cancel_wait e i t d) Q"
  unfolding cancel_wait_def Let_def using assms by (auto intro!: wlp_rules)

lemma wlp_api_value [wlp_rules]:
  assumes "env_keeps drv_inv e" "drv_inv d" "\<And>r v d. drv_inv d \<Longrightarrow> Q (r, v, d)"
  shows "wlp (pnc_session_get_response e i buf d) Q"
    "wlp (pnc_session_wait_response e i buf t d) Q"
    "wlp (pnc_session_wait_request e i buf t d) Q"
    "wlp (pnc_session_send_request_and_wait_response e i x t buf d) Q"
    "wlp (pnc_session_get_signal e i buf d) Q"
    "wlp (pnc_session_wait_signal e i buf t d) Q"
    "wlp (pnc_session_wait_event e i buf x t d) Q"
    "wlp (pnc_session_get_pending_events e i buf d) Q"
  unfolding pnc_session_get_response_def pnc_session_wait_response_def pnc_session_wait_request_def
    pnc_session_send_request_and_wait_response_def pnc_session_get_signal_def pnc_session_wait_signal_def
    pnc_session_wait_event_def pnc_session_get_pending_events_def take_s_to_ns_signals_def Let_def
  using assms by (auto intro!: wlp_rules)

lemma wlp_cancel_request [wlp_rules]:
  assumes "env_keeps drv_inv e" "drv_inv d" "\<And>r v d. drv_inv d \<Longrightarrow> Q (r, v, d)"
  shows "wlp (pnc_session_cancel_request e i buf t d) Q"
  unfolding pnc_session_cancel_request_def Let_def
  using assms by (auto split: session_state.splits intro!: wlp_rules)

lemma wlp_api_code [wlp_rules]:
  assumes "env_keeps drv_inv e" "drv_inv d" "\<And>r d. drv_inv d \<Longrightarrow> Q (r, d)"
  shows "wlp (pnc_session_send_response e i x d) Q"
    "wlp (pnc_session_send_signal e i x d) Q"
  unfolding pnc_session_send_response_def pnc_session_send_signal_def Let_def
  using assms by (auto intro!: wlp_rules)

lemma wlp_poll_wait [wlp_rules]:
  assumes "env_keeps drv_inv e" "drv_inv d" "\<And>r d. drv_inv d \<Longrightarrow> Q (r, d)"
  shows "wlp (pnc_session_poll_wait e session args d) Q"
  unfolding pnc_session_poll_wait_def
  using assms by (auto split: option.splits intro!: wlp_rules)

end
