(* ===== verification/PncDriver.thy ===== *)
theory PncDriver
  imports PncInv
begin

text \<open>
  The session framework as a state machine: every way into it (the interrupt, the worker, the functions of the
  API, the end of the module) is a call, a history is a sequence of calls, each in an environment that
  keeps the invariant. The properties of the framework as a whole are here.
\<close>

datatype drv_call =
    Interrupt | Worker pnc_smc_params | Exit pnc_smc_params
  | Open | Close "nat option" | Alloc nat u64 | Config nat u64 | Config_by_name nat "u8 list option"
  | Send_request nat u32 | Get_response nat bool | Wait_response nat bool u32
  | Send_response nat u32 | Get_request nat bool | Wait_request nat bool u32
  | Cancel_request nat bool u32 | Request_response nat u32 u32 bool
  | Send_signal nat u32 | Get_signal nat bool | Wait_signal nat bool u32
  | Wait_event nat bool u32 u32 | Poll_wait "nat option" bool | Get_pending_events nat bool

fun drv_exec ::
  "('a drv_scheme, 'b) drv_env_scheme \<Rightarrow> drv_call \<Rightarrow> 'a drv_scheme \<Rightarrow> 'a drv_scheme option" where
  "drv_exec e Interrupt d = Some (pnc_session_interrupt_handler d)"
| "drv_exec e (Worker stack) d = handle_s_notification e stack d"
| "drv_exec e (Exit stack) d = pnc_sessions_exit e stack d"
| "drv_exec e Open d = map_option (snd \<circ> snd) (pnc_session_open e d)"
| "drv_exec e (Close s) d = pnc_session_close e s d"
| "drv_exec e (Alloc i n) d = map_option snd (pnc_session_alloc e i n d)"
| "drv_exec e (Config i sid) d = map_option snd (pnc_session_config e i sid d)"
| "drv_exec e (Config_by_name i n) d = map_option snd (pnc_session_config_by_name e i n d)"
| "drv_exec e (Send_request i x) d = map_option snd (pnc_session_send_request e i x d)"
| "drv_exec e (Get_response i b) d = map_option (snd \<circ> snd) (pnc_session_get_response e i b d)"
| "drv_exec e (Wait_response i b t) d = map_option (snd \<circ> snd) (pnc_session_wait_response e i b t d)"
| "drv_exec e (Send_response i x) d = map_option snd (pnc_session_send_response e i x d)"
| "drv_exec e (Get_request i b) d = map_option (snd \<circ> snd) (pnc_session_get_request e i b d)"
| "drv_exec e (Wait_request i b t) d = map_option (snd \<circ> snd) (pnc_session_wait_request e i b t d)"
| "drv_exec e (Cancel_request i b t) d =
     map_option (snd \<circ> snd) (pnc_session_cancel_request e i b t d)"
| "drv_exec e (Request_response i x t b) d =
     map_option (snd \<circ> snd) (pnc_session_send_request_and_wait_response e i x t b d)"
| "drv_exec e (Send_signal i x) d = map_option snd (pnc_session_send_signal e i x d)"
| "drv_exec e (Get_signal i b) d = map_option (snd \<circ> snd) (pnc_session_get_signal e i b d)"
| "drv_exec e (Wait_signal i b t) d = map_option (snd \<circ> snd) (pnc_session_wait_signal e i b t d)"
| "drv_exec e (Wait_event i b m t) d = map_option (snd \<circ> snd) (pnc_session_wait_event e i b m t d)"
| "drv_exec e (Poll_wait s b) d = map_option snd (pnc_session_poll_wait e s b d)"
| "drv_exec e (Get_pending_events i b) d =
     map_option (snd \<circ> snd) (pnc_session_get_pending_events e i b d)"

inductive drv_step :: "drv \<Rightarrow> drv_call \<Rightarrow> drv \<Rightarrow> bool" where
  drv_step: "env_keeps drv_inv (e :: drv drv_env) \<Longrightarrow> drv_exec e c d = Some d' \<Longrightarrow> drv_step d c d'"

inductive_cases drv_stepE: "drv_step d c d'"

lemma wlp_map_option [simp]: "wlp (map_option f m) Q = wlp m (\<lambda>x. Q (f x))"
  by (cases m) simp_all

lemma drv_exec_inv:
  assumes "env_keeps drv_inv e" "drv_inv d"
  shows "wlp (drv_exec e c d) drv_inv"
  using assms
  by (cases c) (auto simp: pnc_session_config_def pnc_session_config_by_name_def drv_inv_interrupt
      intro!: wlp_rules)

lemma drv_step_inv: "drv_step d c d' \<Longrightarrow> drv_inv d \<Longrightarrow> drv_inv d'"
  using drv_exec_inv by (fastforce elim!: drv_stepE simp: wlp_iff)

lemma ring_sizes:
  "producer_init (of_nat sizeof_ring_shared) (of_nat sizeof_pnc_message) (of_nat sizeof_pnc_message_ring) =
     (True, \<lparr>p_capacity = 256, p_prod = 0, p_last_published_prod = 0, p_prod_end = 256\<rparr>)"
  "consumer_init (of_nat sizeof_ring_shared) (of_nat sizeof_pnc_message) (of_nat sizeof_pnc_message_ring) =
     (True, \<lparr>c_capacity = 256, c_cons = 0, c_last_published_cons = 0, c_cons_end = 0\<rparr>)"
  by code_simp+

lemma pnc_sessions_init_inv:
  assumes "shm_base d \<noteq> 0" "smc_wq d"
  shows "\<exists>d'. pnc_sessions_init d = Some (0, d') \<and> drv_inv d' \<and>
    \<lparr>rg_producer = ns_to_s_ring d', rg_consumer = \<lparr>c_capacity = 256, c_cons = 0, c_last_published_cons = 0, c_cons_end = 0\<rparr>,
      rg_shared = ring_ns_to_s (shm d')\<rparr> = uni_initial 8 (replicate 256 zero_message) \<and>
    \<lparr>rg_producer = \<lparr>p_capacity = 256, p_prod = 0, p_last_published_prod = 0, p_prod_end = 256\<rparr>, rg_consumer = s_to_ns_ring d',
      rg_shared = ring_s_to_ns (shm d')\<rparr> = uni_initial 8 (replicate 256 zero_message)"
proof -
  have "session_ok i (map initial_session [0..<REE_MAX_SESSIONS] ! i)" if "i < REE_MAX_SESSIONS" for i
    using that by (simp add: session_ok_def initial_session_def)
  then show ?thesis
    using assms ring_sizes
    by (simp add: pnc_sessions_init_def pnc_shm_init_header_def Let_def drv_inv_def producer_safe_def
        consumer_safe_def uni_initial_def uni_shared_init_def zero_shm_def zero_ring_def) (simp add: proto_consts)
qed

subsection \<open>Every history keeps the invariant\<close>

text \<open>
  C5. From the start of the framework on, whatever sequence of interrupts, notifications and API calls
  runs, with whatever the other threads and the secure world do in between, every session slot keeps
  its index and a state of the protocol, its pending events stay within the three defined ones, and the
  private indices of both rings stay within the capacity.
\<close>

theorem drv_history_invariant:
  assumes "pnc_sessions_init d0 = Some (0, d)" and "smc_wq d0" and "history drv_step d calls d'"
  shows "drv_inv d' \<and>
    (\<forall>i. i < REE_MAX_SESSIONS \<longrightarrow> s_index (sess d' i) = of_nat i \<and>
       s_event_pending (sess d' i) AND NOT EVENT_PENDING_ALL = 0) \<and>
    unat (producer_free (ns_to_s_ring d')) \<le> 256 \<and> unat (consumer_unconsumed (s_to_ns_ring d')) \<le> 256"
proof -
  have "shm_base d0 \<noteq> 0" using assms(1) by (auto simp: pnc_sessions_init_def errno split: if_splits)
  then have "drv_inv d" using pnc_sessions_init_inv [of d0] assms(1,2) by auto
  then have inv: "drv_inv d'" by (rule history_invariant [OF assms(3)]) (rule drv_step_inv)
  have "s_index s = of_nat i \<and> s_event_pending s AND NOT EVENT_PENDING_ALL = 0"
    if "session_ok i s" for i s
  proof -
    have "s_event_pending s AND NOT EVENT_PENDING_ALL =
        (s_event_pending s AND EVENT_PENDING_ALL) AND NOT EVENT_PENDING_ALL"
      using that by (simp add: session_ok_def)
    also have "\<dots> = 0" by (simp add: and.assoc)
    finally show ?thesis using that by (simp add: session_ok_def)
  qed
  then show ?thesis
    using inv by (auto simp: drv_inv_def sess_def producer_safe_def consumer_safe_def producer_free_def
        consumer_unconsumed_def)
qed

subsection \<open>What a message can change\<close>

lemma sess_upd_same [simp]: "i < length (sessions d) \<Longrightarrow> sess (upd_sess i f d) i = f (sess d i)"
  by (simp add: sess_def upd_sess_def)

lemma sess_upd_other [simp]: "j \<noteq> i \<Longrightarrow> sess (upd_sess i f d) j = sess d j"
  by (simp add: sess_def upd_sess_def)

lemma length_upd_sess [simp]: "length (sessions (upd_sess i f d)) = length (sessions d)"
  by (simp add: upd_sess_def)

text \<open>Everything in the state that is neither a session slot nor the memory shared with the secure world.\<close>

definition same_driver :: "'a drv_scheme \<Rightarrow> 'a drv_scheme \<Rightarrow> bool" where
  "same_driver d d' \<longleftrightarrow>
     tick d' = tick d \<and> smc_wq d' = smc_wq d \<and> smc_log d' = smc_log d \<and> shm_base d' = shm_base d \<and>
     shm_pbase d' = shm_pbase d \<and> shm_nr_pages d' = shm_nr_pages d \<and> shm_sem d' = shm_sem d \<and>
     heap d' = heap d \<and> blocks d' = blocks d \<and> session_ready d' = session_ready d \<and>
     session_waitq d' = session_waitq d \<and> s_to_ns_ring d' = s_to_ns_ring d \<and>
     signal_session d' = signal_session d \<and> ree_version d' = ree_version d \<and>
     work_pending d' = work_pending d \<and> memory d' = memory d"

text \<open>Nothing but slot \<open>i\<close>, the producer's side of the NS-->S ring and the signals to slot \<open>i\<close> differ.\<close>

definition only_session :: "nat \<Rightarrow> 'a drv_scheme \<Rightarrow> 'a drv_scheme \<Rightarrow> bool" where
  "only_session i d d' \<longleftrightarrow>
     same_driver d d' \<and> length (sessions d') = length (sessions d) \<and>
     (\<forall>j. j \<noteq> i \<longrightarrow> sess d' j = sess d j) \<and>
     s_free (sess d' i) = s_free (sess d i) \<and> s_index (sess d' i) = s_index (sess d i) \<and>
     s_mem (sess d' i) = s_mem (sess d i) \<and>
     shm_hdr (shm d') = shm_hdr (shm d) \<and> notif_ns_to_s (shm d') = notif_ns_to_s (shm d) \<and>
     notif_s_to_ns (shm d') = notif_s_to_ns (shm d) \<and> ring_s_to_ns (shm d') = ring_s_to_ns (shm d) \<and>
     signals_s_to_ns (shm d') = signals_s_to_ns (shm d) \<and>
     (\<forall>j. j \<noteq> i \<longrightarrow> signals_ns_to_s (shm d') ! j = signals_ns_to_s (shm d) ! j)"

lemma only_session_refl [simp]: "only_session i d d"
  by (simp add: only_session_def same_driver_def)

lemma only_session_trans: "only_session i d d1 \<Longrightarrow> only_session i d1 d2 \<Longrightarrow> only_session i d d2"
  by (auto simp: only_session_def same_driver_def)

lemma only_session_upd [simp]:
  assumes "\<And>s. s_free (f s) = s_free s" "\<And>s. s_index (f s) = s_index s" "\<And>s. s_mem (f s) = s_mem s"
  shows "only_session i d (upd_sess i f d)"
proof (cases "i < length (sessions d)")
  case True
  then show ?thesis using assms
    by (simp add: only_session_def same_driver_def) (simp add: upd_sess_def)
next
  case False
  then have "upd_sess i f d = d" by (simp add: upd_sess_def list_update_beyond)
  then show ?thesis by simp
qed

lemma only_session_write [simp]: "only_session i d (write_ns_message e m d)"
  by (auto simp: only_session_def same_driver_def write_ns_message_def split_beta sess_def Let_def)

lemma only_session_clear [simp]: "unat j = i \<Longrightarrow> only_session i d (clear_ns_to_s_signals j d)"
  by (auto simp: only_session_def same_driver_def clear_ns_to_s_signals_def sess_def)

lemma only_session_dispatch:
  assumes "drv_inv d" "unat (msg_index m) < REE_MAX_SESSIONS"
  shows "only_session (unat (msg_index m)) d (dispatch_message e m d)"
proof -
  let ?i = "unat (msg_index m)"
  have idx: "s_index (sess d ?i) = of_nat ?i"
    using drv_inv_sess [OF assms] by (simp add: session_ok_def)
  have i: "unat (s_index (sess d ?i)) = ?i" 
    unfolding idx using assms(2) by (intro unat_of_nat_small) (simp add: proto_consts)
  note trans = only_session_trans [OF _ only_session_upd] only_session_trans [OF _ only_session_write]
  have [simp]: "only_session ?i d (handle_s_term e m d)"
    by (auto simp: handle_s_term_def Let_def i intro!: trans)
  have [simp]: "only_session ?i d (handle_s_cancel e m d)"
    by (auto simp: handle_s_cancel_def Let_def split: session_state.splits intro!: trans)
  show ?thesis
    by (simp add: dispatch_message_def handle_s_request_def handle_s_response_def handle_s_config_ack_def
        handle_s_cancel_ack_def handle_s_term_ack_def Let_def post_event_def
        split: option.splits session_action.splits session_state.splits)
qed

text \<open>
  C15. A message from the secure world is confined to its session: one with an index outside the table or of a
  slot nobody uses is ignored; any other changes only the protocol state, the messages and the events of
  its own slot, the signals to it and the NS-->S ring. No other session, no allocation, no semaphore and no
  data page is touched.
\<close>

theorem message_frame:
  assumes "handle_s_message e m d = Some d'" and "drv_inv (yield e d)"
  shows "if REE_MAX_SESSIONS \<le> unat (msg_index m) \<or> s_free (sess d (unat (msg_index m))) then d' = d
    else only_session (unat (msg_index m)) (yield e d) d'"
proof (cases "REE_MAX_SESSIONS \<le> unat (msg_index m) \<or> s_free (sess d (unat (msg_index m)))")
  case True
  then show ?thesis using assms(1) by (auto simp: handle_s_message_def)
next
  case False
  let ?i = "unat (msg_index m)"
  let ?d = "upd_sem ?i (\<lambda>n. n - 1) (yield e d)"
  have d': "d' = up_session ?i (dispatch_message e m ?d)"
    using assms(1) False
    by (auto simp: handle_s_message_def down_session_def down_def Let_def split: if_splits)
  have "only_session ?i (yield e d) ?d" by (simp add: upd_sem_def)
  moreover have "only_session ?i ?d (dispatch_message e m ?d)"
    using only_session_dispatch [of ?d m e] assms(2) False by simp
  moreover have "only_session ?i (dispatch_message e m ?d) d'"
    by (simp add: d' up_session_def upd_sem_def)
  ultimately have "only_session ?i (yield e d) d'" by (blast intro: only_session_trans)
  then show ?thesis using False by (simp only: if_False)
qed

subsection \<open>The protocol automaton\<close>

type_synonym protocol = "session_state \<times> session_state \<times> session_state"

definition protocol_of :: "pnc_session \<Rightarrow> protocol" where
  "protocol_of s = (s_global s, s_server s, s_client s)"

text \<open>
  What the reception of an action does to the global, the server and the client state of a session, the events it
  posts and the action it answers with. \<open>ok\<close>: the status in the message is 0. An action the state does not
  allow is ignored.
\<close>

definition receive ::
  "session_action option \<Rightarrow> bool \<Rightarrow> protocol \<Rightarrow> protocol \<times> u32 \<times> session_action option" where
  "receive a ok p =
     (case p of (g, s, c) \<Rightarrow>
       (case a of
          Some A_REQUEST \<Rightarrow>
            if g = S_CONFIGURED \<and> s = S_IDLE then ((g, S_NOTIFIED, c), EVENT_PENDING_REQUEST, None)
            else (p, 0, None)
        | Some A_RESPONSE \<Rightarrow>
            if g = S_CONFIGURED \<and> c \<in> {S_WAITING, S_CANCEL_WAITING}
            then ((g, s, S_NOTIFIED), EVENT_PENDING_RESPONSE, None) else (p, 0, None)
        | Some A_CONFIG_ACK \<Rightarrow>
            if g = S_CONFIG_WAITING
            then (if ok then (S_CONFIGURED, S_IDLE, S_IDLE) else (S_NULL, s, c), EVENT_PENDING_RESPONSE, None)
            else (p, 0, None)
        | Some A_CANCEL \<Rightarrow>
            if g = S_CONFIGURED \<and> s = S_NOTIFIED then ((g, S_IDLE, c), 0, Some A_CANCEL_ACK)
            else (p, 0, None)
        | Some A_CANCEL_ACK \<Rightarrow>
            if g = S_CONFIGURED \<and> c = S_CANCEL_WAITING
            then ((g, s, S_NOTIFIED), EVENT_PENDING_RESPONSE, None) else (p, 0, None)
        | Some A_TERM \<Rightarrow>
            ((S_NULL, s, c), if g = S_CONFIGURED then EVENT_PENDING_ALL else 0, Some A_TERM_ACK)
        | Some A_TERM_ACK \<Rightarrow> (p, if g = S_TERM_WAITING then EVENT_PENDING_RESPONSE else 0, None)
        | _ \<Rightarrow> (p, 0, None)))"

text \<open>The NS-->S ring: the driver's indices and the part shared with the secure world.\<close>

definition ns_ring :: "'a drv_scheme \<Rightarrow> uni_producer \<times> pnc_message uni_shared" where
  "ns_ring d = (ns_to_s_ring d, ring_ns_to_s (shm d))"

lemma ns_ring_simps [simp]:
  "ns_ring (upd_sess i f d) = ns_ring d" "ns_ring (clear_ns_to_s_signals j d) = ns_ring d"
  "ns_ring (write_ns_message e m (upd_sess i f d)) = ns_ring (write_ns_message e m d)"
  "ns_ring (write_ns_message e m (clear_ns_to_s_signals j d)) = ns_ring (write_ns_message e m d)"
  by (simp_all add: ns_ring_def upd_sess_def clear_ns_to_s_signals_def write_ns_message_def split_beta Let_def)

lemma sess_write [simp]: "sess (write_ns_message e m d) i = sess d i"
  "sess (clear_ns_to_s_signals j d) i = sess d i"
  "sessions (write_ns_message e m d) = sessions d"
  "sessions (clear_ns_to_s_signals j d) = sessions d"
  by (simp_all add: sess_def write_ns_message_def clear_ns_to_s_signals_def split_beta Let_def)

lemma pending_or_all:
  assumes "session_ok i s"
  shows "s_event_pending s OR EVENT_PENDING_ALL = EVENT_PENDING_ALL"
proof -
  have "s_event_pending s OR EVENT_PENDING_ALL =
      (s_event_pending s AND EVENT_PENDING_ALL) OR EVENT_PENDING_ALL"
    using assms by (simp add: session_ok_def)
  also have "\<dots> = EVENT_PENDING_ALL" by (rule bit_eqI) (auto simp: bit_simps)
  finally show ?thesis .
qed

text \<open>
  C2. The handlers implement the protocol automaton: on a session in use, a message takes the states of the
  session where the automaton says, posts the events it says, and puts the answer it says, and nothing
  else, into the NS-->S ring.
\<close>

theorem message_refines_protocol:
  assumes "drv_inv d" and "unat (msg_index m) < REE_MAX_SESSIONS"
    and "receive (action_of_code (msg_action m)) (msg_p1 m = 0) (protocol_of (sess d (unat (msg_index m)))) =
      (p, events, reply)"
  shows "protocol_of (sess (dispatch_message e m d) (unat (msg_index m))) = p \<and>
    s_event_pending (sess (dispatch_message e m d) (unat (msg_index m))) =
      s_event_pending (sess d (unat (msg_index m))) OR events \<and>
    ns_ring (dispatch_message e m d) =
      (case reply of None \<Rightarrow> ns_ring d
       | Some a \<Rightarrow> ns_ring (write_ns_message e (new_message (of_nat (unat (msg_index m))) a) d))"
proof -
  let ?i = "unat (msg_index m)"
  have ok: "session_ok ?i (sess d ?i)" by (rule drv_inv_sess [OF assms(1,2)])
  have i: "?i < length (sessions d)" using assms(1,2) by (simp add: drv_inv_def)
  have idx: "s_index (sess d ?i) = of_nat ?i" using ok by (simp add: session_ok_def)
  note [simp] = i dispatch_message_def receive_def protocol_of_def post_event_def Let_def pending_or_all [OF ok]
  show ?thesis
  proof (cases "action_of_code (msg_action m)")
    case None
    then show ?thesis using assms(3) by simp
  next
    case (Some a)
    then show ?thesis
      using assms(3) idx
      by (cases a)
        (auto simp: handle_s_request_def handle_s_response_def handle_s_config_ack_def handle_s_cancel_def
          handle_s_cancel_ack_def handle_s_term_def handle_s_term_ack_def split: if_splits session_state.splits)
  qed
qed

end
