(* ===== verification/PncCalls.thy ===== *)
theory PncCalls
  imports PncDriver
begin

text \<open>
  What the functions of the API do: messages reach the ring and the secure world is notified, requests get their
  responses, signals are not lost, a service name stays in the pages of its session, slots are given
  out once; and the cases where the code does not do what it should.
\<close>

subsection \<open>The NS-->S ring\<close>

text \<open>The ring with the consumer of the secure world.\<close>

definition ns_actors :: "'a drv_scheme \<Rightarrow> uni_consumer \<Rightarrow> pnc_message uni_ring" where
  "ns_actors d c =
     \<lparr>rg_producer = ns_to_s_ring d, rg_consumer = c, rg_shared = ring_ns_to_s (shm d)\<rparr>"

definition ns_full :: "'a drv_scheme \<Rightarrow> bool" where
  "ns_full d \<longleftrightarrow> p_prod (ns_to_s_ring d) - sh_cons (ring_ns_to_s (shm d)) = 256"

lemma write_ns_message_queue:
  assumes "uni_wf 8 (ns_actors d c)" and "ring_peer e (tick d) = id"
  shows "uni_wf 8 (ns_actors (write_ns_message e m d) c)"
    and "uni_content (ns_actors (write_ns_message e m d) c) =
      uni_content (ns_actors d c) @ (if ns_full d then [] else [m])"
proof -
  obtain ok p sh where c: "producer_checkout id (ns_to_s_ring d) (ring_ns_to_s (shm d)) = (ok, p, sh)"
    by (cases "producer_checkout id (ns_to_s_ring d) (ring_ns_to_s (shm d))") auto
  obtain ok2 p2 sh2 where p: "producer_produce p sh m = (ok2, p2, sh2)"
    by (cases "producer_produce p sh m") auto
  let ?r = "(ns_actors d c)\<lparr>rg_producer := p, rg_shared := sh\<rparr>"
  have w: "uni_wf 8 ?r" "uni_content ?r = uni_content (ns_actors d c)" "ok = (\<not> ns_full d)"
    using wf_producer_checkout [OF assms(1), of ok p sh] c by (simp_all add: ns_actors_def ns_full_def)
  have "ok = (p_prod p \<noteq> p_prod_end p)"
    using c by (auto simp: producer_checkout_def producer_checkout_helper_def Let_def split: if_splits)
  moreover have "ns_actors (write_ns_message e m d) c = ?r\<lparr>rg_producer := p2, rg_shared := sh2\<rparr>"
    using assms(2) c p by (simp add: write_ns_message_def ns_actors_def)
  ultimately show "uni_wf 8 (ns_actors (write_ns_message e m d) c)"
    and "uni_content (ns_actors (write_ns_message e m d) c) =
      uni_content (ns_actors d c) @ (if ns_full d then [] else [m])"
    using wf_produce [OF w(1), of m ok2 p2 sh2] p w by simp_all
qed

definition notify_smc :: "pnc_smc_params" where
  "notify_smc = zero_params\<lparr>a0 := SMC_ACTION_FROM_NS\<rparr>"

lemma raise_notification_Some:
  assumes "smc_wq d"
  shows "raise_notification e bits d =
    Some (d\<lparr>shm := (shm d)\<lparr>notif_ns_to_s := notif_ns_to_s (shm d) OR bits\<rparr>,
            smc_log := smc_log d @ (if notif_ns_to_s (shm d) = 0 then [(0, notify_smc)] else [])\<rparr>)"
  using assms
  by (simp add: raise_notification_def notify_s_def pnc_sched_smc_def do_smc_def notify_smc_def Let_def)

lemma notify_ns_message_queue:
  assumes "uni_wf 8 (ns_actors d c)" and "smc_wq d"
  shows "\<exists>d'. notify_ns_message e d = Some d' \<and> uni_wf 8 (ns_actors d' c) \<and>
    uni_content (ns_actors d' c) = uni_content (ns_actors d c) \<and>
    uni_visible (ns_actors d' c) = uni_content (ns_actors d c) \<and>
    sessions d' = sessions d \<and> same_driver d (d'\<lparr>smc_log := smc_log d\<rparr>) \<and>
    shm_hdr (shm d') = shm_hdr (shm d)"
proof -
  obtain ok p sh where c: "producer_commit (ns_to_s_ring d) (ring_ns_to_s (shm d)) = (ok, p, sh)"
    by (cases "producer_commit (ns_to_s_ring d) (ring_ns_to_s (shm d))") auto
  let ?r = "(ns_actors d c)\<lparr>rg_producer := p, rg_shared := sh\<rparr>"
  have w: "uni_wf 8 ?r" "uni_content ?r = uni_content (ns_actors d c)" "uni_visible ?r = uni_content (ns_actors d c)"
    using wf_producer_commit [OF assms(1), of ok p sh] c by (simp_all add: ns_actors_def)
  show ?thesis
    using w c assms(2)
    by (cases ok) (simp_all add: notify_ns_message_def ns_actors_def same_driver_def raise_notification_Some)
qed

subsection \<open>Calls without interference\<close>

text \<open>No other thread runs and the secure world leaves the ring alone while the driver writes to it.\<close>

definition calm :: "('a drv_scheme, 'b) drv_env_scheme \<Rightarrow> bool" where
  "calm e \<longleftrightarrow> (\<forall>n d. others e n d = d) \<and> (\<forall>n. ring_peer e n = id)"

text \<open>Session \<open>i\<close> is open and configured, and nobody holds its semaphore.\<close>

definition configured :: "'a drv_scheme \<Rightarrow> nat \<Rightarrow> bool" where
  "configured d i \<longleftrightarrow>
     i < REE_MAX_SESSIONS \<and> session_ready d \<and> pnc_shm_ready d \<and> 0 < s_sem (sess d i) \<and>
     \<not> s_free (sess d i) \<and> s_global (sess d i) = S_CONFIGURED"

lemma yield_calm: "calm e \<Longrightarrow> yield e d = d\<lparr>tick := Suc (tick d)\<rparr>"
  by (simp add: yield_def calm_def)

lemma calm_peer: "calm e \<Longrightarrow> ring_peer e n = id"
  by (simp add: calm_def)

lemma sess_tick [simp]: "sess (d\<lparr>tick := n\<rparr>) i = sess d i"
  "upd_sess i f (d\<lparr>tick := n\<rparr>) = (upd_sess i f d)\<lparr>tick := n\<rparr>"
  by (simp_all add: sess_def upd_sess_def)

lemma upd_sess_compose [simp]: "upd_sess i f (upd_sess i g d) = upd_sess i (f \<circ> g) d"
  by (cases "i < length (sessions d)")
     (simp_all add: upd_sess_def sess_def list_update_beyond)

lemma upd_sess_id: "f (sess d i) = sess d i \<Longrightarrow> upd_sess i f d = d"
  by (simp add: upd_sess_def sess_def)

lemma upd_sess_cong: "f (sess d i) = g (sess d i) \<Longrightarrow> upd_sess i f d = upd_sess i g d"
  by (simp add: upd_sess_def)

lemma up_down [simp]:
  assumes "0 < s_sem (sess d i)"
  shows "up_session i (upd_sem i (\<lambda>n. n - Suc 0) d) = d"
  using assms by (simp add: up_session_def upd_sem_def upd_sess_id)

lemma down_calm:
  assumes "calm e" "0 < s_sem (sess d i)"
  shows "down_session_interruptible e i d = Some (0, (upd_sem i (\<lambda>n. n - 1) d)\<lparr>tick := Suc (tick d)\<rparr>)"
    and "down_session e i d = Some ((upd_sem i (\<lambda>n. n - 1) d)\<lparr>tick := Suc (tick d)\<rparr>)"
  using assms
  by (simp_all add: down_session_interruptible_def down_session_def down_interruptible_def down_def
      yield_calm upd_sem_def Let_def)

lemma up_tick [simp]: "up_session i (d\<lparr>tick := n\<rparr>) = (up_session i d)\<lparr>tick := n\<rparr>"
  by (simp add: up_session_def upd_sem_def)

lemma check_calm:
  assumes "calm e" "drv_inv d" "configured d i"
  shows "check_session_configured e i d = Some (0, d\<lparr>tick := Suc (tick d)\<rparr>)"
proof -
  have "s_index (sess d i) = of_nat i" "i < 28" "i < length (sessions d)"
    using assms drv_inv_sess [of d i]
    by (simp_all add: configured_def session_ok_def drv_inv_def proto_consts)
  moreover from this have "\<not> (28 :: u32) \<le> of_nat i" by (simp add: word_le_nat_alt)
  ultimately show ?thesis
    using assms
    by (simp add: check_session_configured_def down_calm configured_def upd_sem_def Let_def proto_consts)
       (simp add: up_session_def upd_sem_def upd_sess_id)
qed

lemma write_upd_sess [simp]:
  "write_ns_message e m (upd_sess i f d) = upd_sess i f (write_ns_message e m d)"
  by (simp add: write_ns_message_def upd_sess_def split_beta Let_def sess_def)

lemma write_upd_sem [simp]:
  "write_ns_message e m (upd_sem i f d) = upd_sem i f (write_ns_message e m d)"
  by (simp add: upd_sem_def)

lemma configured_cong:
  assumes "session_ready d' = session_ready d" "shm_base d' = shm_base d" "shm_hdr (shm d') = shm_hdr (shm d)"
    "s_sem (sess d' i) = s_sem (sess d i)" "s_free (sess d' i) = s_free (sess d i)"
    "s_global (sess d' i) = s_global (sess d i)"
  shows "configured d' i = configured d i"
  by (simp add: configured_def pnc_shm_ready_def assms)

lemma configured_tick [simp]: "configured (d\<lparr>tick := n\<rparr>) i = configured d i"
  by (rule configured_cong; simp)

lemma ns_actors_simps [simp]:
  "ns_actors (d\<lparr>tick := n\<rparr>) c = ns_actors d c"
  "ns_actors (upd_sess i f d) c = ns_actors d c"
  by (simp_all add: ns_actors_def upd_sess_def)

text \<open>Sending a message with the semaphore held, giving it back and notifying.\<close>

lemma send_calm:
  assumes "calm e" "drv_inv d" "0 < s_sem (sess d i)" "i < REE_MAX_SESSIONS"
    and "uni_wf 8 (ns_actors d c)"
    and f: "\<And>s g. f (s_sem_update g s) = s_sem_update g (f s)"
  shows "\<exists>d'. notify_ns_message e (up_session i (upd_sess i f
        (write_ns_message e m ((upd_sem i (\<lambda>n. n - 1) d)\<lparr>tick := t\<rparr>)))) = Some d' \<and>
    sess d' i = f (sess d i) \<and> (\<forall>j. j \<noteq> i \<longrightarrow> sess d' j = sess d j) \<and>
    same_driver (d\<lparr>tick := t\<rparr>) (d'\<lparr>smc_log := smc_log d\<rparr>) \<and> shm_hdr (shm d') = shm_hdr (shm d) \<and>
    uni_wf 8 (ns_actors d' c) \<and>
    uni_visible (ns_actors d' c) = uni_content (ns_actors d c) @ (if ns_full d then [] else [m])"
proof -
  let ?w = "write_ns_message e m (d\<lparr>tick := t\<rparr>)"
  let ?d = "upd_sess i f ?w"
  have len: "i < length (sessions d)" using assms by (simp add: drv_inv_def)
  have "up_session i (upd_sess i f (write_ns_message e m ((upd_sem i (\<lambda>n. n - 1) d)\<lparr>tick := t\<rparr>))) =
      upd_sess i (s_sem_update Suc \<circ> f \<circ> s_sem_update (\<lambda>n. n - 1)) ?w"
    by (simp add: up_session_def upd_sem_def comp_def flip: sess_tick(2))
  also have "\<dots> = ?d"
  proof (rule upd_sess_cong)
    have "s_sem_update Suc (f (s_sem_update (\<lambda>n. n - 1) (sess d i))) =
        f (s_sem_update Suc (s_sem_update (\<lambda>n. n - 1) (sess d i)))" by (simp only: f)
    also have "s_sem_update Suc (s_sem_update (\<lambda>n. n - 1) (sess d i)) = sess d i"
      using assms(3) by (cases "sess d i") simp
    finally show "(s_sem_update Suc \<circ> f \<circ> s_sem_update (\<lambda>n. n - 1)) (sess ?w i) = f (sess ?w i)"
      by simp
  qed
  finally have eq: "up_session i (upd_sess i f (write_ns_message e m ((upd_sem i (\<lambda>n. n - 1) d)\<lparr>tick := t\<rparr>))) = ?d" .
  have q: "uni_wf 8 (ns_actors ?w c)"
    "uni_content (ns_actors ?w c) = uni_content (ns_actors d c) @ (if ns_full d then [] else [m])"
    using write_ns_message_queue [of "d\<lparr>tick := t\<rparr>" c e m] assms(5) calm_peer [OF assms(1)]
    by (simp_all add: ns_full_def)
  have wq: "smc_wq ?d" using drv_inv_write [of "d\<lparr>tick := t\<rparr>" e m] assms(2)
    by (simp add: drv_inv_def upd_sess_def)
  obtain d' where d': "notify_ns_message e ?d = Some d'" "uni_wf 8 (ns_actors d' c)"
    "uni_visible (ns_actors d' c) = uni_content (ns_actors ?d c)" "sessions d' = sessions ?d"
    "same_driver ?d (d'\<lparr>smc_log := smc_log ?d\<rparr>)" "shm_hdr (shm d') = shm_hdr (shm ?d)"
    using notify_ns_message_queue [of ?d c e] q wq by auto
  have w: "only_session i (d\<lparr>tick := t\<rparr>) ?w" by simp
  have "sess d' = sess ?d" by (simp add: d'(4) sess_def fun_eq_iff)
  moreover have "same_driver (d\<lparr>tick := t\<rparr>) (d'\<lparr>smc_log := smc_log d\<rparr>)" "shm_hdr (shm d') = shm_hdr (shm d)"
    using d'(5,6) w by (simp_all add: same_driver_def only_session_def upd_sess_def)
  ultimately show ?thesis
    using d' q eq len by (simp add: d'(4))
qed

subsection \<open>Requests and responses\<close>

lemma ucast_index: "i < 256 \<Longrightarrow> (ucast (of_nat i :: u32) :: u8) = of_nat i"
  by (simp add: word_unat_eq_iff unsigned_ucast_eq take_bit_word_eq_self unsigned_of_nat
      take_bit_nat_eq_self)

lemma new_message_index: "i < REE_MAX_SESSIONS \<Longrightarrow> s_index s = of_nat i \<Longrightarrow>
    new_message (s_index s) a = zero_message\<lparr>msg_index := of_nat i, msg_action := action_code a\<rparr>"
  by (simp add: new_message_def proto_consts ucast_index)

definition request_message :: "nat \<Rightarrow> u32 \<Rightarrow> pnc_message" where
  "request_message i x =
     \<lparr>msg_p0 = 0, msg_p1 = x, msg_p2 = 0, msg_index = of_nat i, msg_action = action_code A_REQUEST\<rparr>"

lemma send_request_calm:
  assumes "calm e" "drv_inv d" "configured d i" "s_client (sess d i) = S_IDLE"
    and "uni_wf 8 (ns_actors d c)"
  shows "\<exists>d'. pnc_session_send_request e i x d = Some (0, d') \<and>
    sess d' i = (sess d i)\<lparr>s_client := S_WAITING\<rparr> \<and> (\<forall>j. j \<noteq> i \<longrightarrow> sess d' j = sess d j) \<and>
    configured d' i \<and> drv_inv d' \<and> uni_wf 8 (ns_actors d' c) \<and>
    uni_visible (ns_actors d' c) =
      uni_content (ns_actors d c) @ (if ns_full d then [] else [request_message i x])"
proof -
  have i: "i < REE_MAX_SESSIONS" and sem: "0 < s_sem (sess d i)" using assms(3) by (simp_all add: configured_def)
  have idx: "s_index (sess d i) = of_nat i" using drv_inv_sess [OF assms(2) i] by (simp add: session_ok_def)
  have len: "i < length (sessions d)" using assms(2) i by (simp add: drv_inv_def)
  have msg: "(new_message (s_index (sess (upd_sem i g d') i)) A_REQUEST)\<lparr>msg_p1 := x\<rparr> = request_message i x"
    if "sess d' i = sess d i" "i < length (sessions d')" for g and d' :: "'a drv_scheme"
    using new_message_index [OF i idx, of A_REQUEST] that
    by (simp add: upd_sem_def request_message_def zero_message_def)
  let ?d1 = "d\<lparr>tick := Suc (tick d)\<rparr>"
  let ?u = "upd_sem i (\<lambda>n. n - 1) ?d1"
  have client: "s_client (sess ?u i) = S_IDLE" using assms(4) len by (simp add: upd_sem_def)
  have run: "pnc_session_send_request e i x d =
      do { d \<leftarrow> notify_ns_message e (up_session i (upd_sess i (s_client_update (\<lambda>_. S_WAITING))
             (write_ns_message e (request_message i x) (?u\<lparr>tick := Suc (Suc (tick d))\<rparr>))));
           Some (0, d) }"
    using assms sem client len msg [of ?d1 "\<lambda>n. n - 1"]
    by (simp add: pnc_session_send_request_def check_calm send_request_def down_calm Let_def)
  obtain d' where d': "notify_ns_message e (up_session i (upd_sess i (s_client_update (\<lambda>_. S_WAITING))
        (write_ns_message e (request_message i x) (?u\<lparr>tick := Suc (Suc (tick d))\<rparr>)))) = Some d'"
    "sess d' i = (sess d i)\<lparr>s_client := S_WAITING\<rparr>" "\<forall>j. j \<noteq> i \<longrightarrow> sess d' j = sess d j"
    "same_driver (d\<lparr>tick := Suc (Suc (tick d))\<rparr>) (d'\<lparr>smc_log := smc_log d\<rparr>)"
    "shm_hdr (shm d') = shm_hdr (shm d)" "uni_wf 8 (ns_actors d' c)"
    "uni_visible (ns_actors d' c) =
      uni_content (ns_actors d c) @ (if ns_full d then [] else [request_message i x])"
    using send_calm [of e ?d1 i c "s_client_update (\<lambda>_. S_WAITING)" "request_message i x" "Suc (Suc (tick d))"]
      assms sem i by (auto simp: ns_full_def)
  have "wlp (pnc_session_send_request e i x d) (\<lambda>(r, d). drv_inv d)"
    using assms by (intro wlp_send_request) (auto simp: calm_def env_keeps_def)
  then have "drv_inv d'" using run d'(1) by simp
  moreover have "configured d' i"
    using assms(3) d'(2,4,5) configured_cong [of d' d i] by (simp add: same_driver_def)
  ultimately show ?thesis using run d' by auto
qed

text \<open>An update made with the semaphore held.\<close>

lemma locked_upd:
  assumes "0 < s_sem (sess d i)" "\<And>s g. f (s_sem_update g s) = s_sem_update g (f s)"
  shows "up_session i (upd_sess i f (upd_sem i (\<lambda>n. n - Suc 0) d)) = upd_sess i f d"
proof -
  have "s_sem_update Suc (f (s_sem_update (\<lambda>n. n - Suc 0) (sess d i))) =
      f (s_sem_update Suc (s_sem_update (\<lambda>n. n - Suc 0) (sess d i)))"
    by (simp only: assms(2))
  also have "s_sem_update Suc (s_sem_update (\<lambda>n. n - Suc 0) (sess d i)) = sess d i"
    using assms(1) by (cases "sess d i") simp
  finally show ?thesis
    by (simp add: up_session_def upd_sem_def) (rule upd_sess_cong, simp)
qed

lemma sem_tick [simp]: "upd_sem i f (d\<lparr>tick := n\<rparr>) = (upd_sem i f d)\<lparr>tick := n\<rparr>"
  by (simp add: upd_sem_def)

lemma sess_sem [simp]: "j \<noteq> i \<Longrightarrow> sess (upd_sem i f d) j = sess d j"
  "i < length (sessions d) \<Longrightarrow> sess (upd_sem i f d) i = s_sem_update f (sess d i)"
  "length (sessions (upd_sem i f d)) = length (sessions d)"
  by (simp_all add: upd_sem_def)

lemma handle_response_calm:
  assumes "calm e" "drv_inv d" "configured d i" "s_client (sess d i) \<in> {S_WAITING, S_CANCEL_WAITING}"
    and "msg_index m = of_nat i" "msg_action m = action_code A_RESPONSE"
  shows "handle_s_message e m d =
    Some ((upd_sess i (\<lambda>s. (post_event EVENT_PENDING_RESPONSE (s\<lparr>s_client_message := m\<rparr>))
      \<lparr>s_client := S_NOTIFIED\<rparr>) d)\<lparr>tick := Suc (tick d)\<rparr>)"
proof -
  have i: "i < REE_MAX_SESSIONS" "unat (msg_index m) = i" "i < length (sessions d)"
    using assms(2,3,5) by (simp_all add: configured_def drv_inv_def proto_consts unsigned_of_nat take_bit_nat_eq_self)
  have lk: "0 < s_sem (sess d i)" using assms(3) by (simp add: configured_def)
  have act: "action_of_code (msg_action m) = Some A_RESPONSE"
    unfolding assms(6) by (rule action_roundtrip)
  show ?thesis
    using assms(1-5) act i lk locked_upd [OF lk, of "\<lambda>s. (post_event EVENT_PENDING_RESPONSE (s\<lparr>s_client_message := m\<rparr>))
      \<lparr>s_client := S_NOTIFIED\<rparr>"]
    by (auto simp: handle_s_message_def down_calm dispatch_message_def handle_s_response_def configured_def
        post_event_def Let_def)
qed

lemma get_response_calm:
  assumes "calm e" "drv_inv d" "configured d i" "s_client (sess d i) = S_NOTIFIED"
  shows "pnc_session_get_response e i True d =
    Some (0, Some (msg_p1 (s_client_message (sess d i))),
      (upd_sess i (\<lambda>s. clear_event EVENT_PENDING_RESPONSE (s\<lparr>s_client_message := zero_message, s_client := S_IDLE\<rparr>)) d)
        \<lparr>tick := Suc (Suc (tick d))\<rparr>)"
proof -
  have i: "i < length (sessions d)" and lk: "0 < s_sem (sess d i)"
    using assms(2,3) by (simp_all add: configured_def drv_inv_def)
  have "(\<lambda>s. clear_event EVENT_PENDING_RESPONSE (s\<lparr>s_client := S_IDLE\<rparr>)) \<circ> s_client_message_update (\<lambda>_. zero_message) =
      (\<lambda>s. clear_event EVENT_PENDING_RESPONSE (s\<lparr>s_client_message := zero_message, s_client := S_IDLE\<rparr>))"
    by (simp add: fun_eq_iff clear_event_def)
  then show ?thesis
    using assms i lk locked_upd [OF lk, of "\<lambda>s. clear_event EVENT_PENDING_RESPONSE (s\<lparr>s_client_message := zero_message, s_client := S_IDLE\<rparr>)"]
    by (simp add: pnc_session_get_response_def check_calm get_response_def down_calm Let_def)
       (simp add: clear_event_def)
qed

text \<open>
  A request reaches the secure world: on an idle client the call succeeds, the consumer of the secure world
  sees exactly the request appended to what it had not consumed, and no other session changes.
\<close>

theorem request_reaches_secure_world:
  assumes "calm e" "drv_inv d" "configured d i" "s_client (sess d i) = S_IDLE"
    and "uni_wf 8 (ns_actors d c)" "\<not> ns_full d"
  shows "\<exists>d'. pnc_session_send_request e i x d = Some (0, d') \<and>
    uni_visible (ns_actors d' c) = uni_content (ns_actors d c) @ [request_message i x] \<and>
    s_client (sess d' i) = S_WAITING \<and> (\<forall>j. j \<noteq> i \<longrightarrow> sess d' j = sess d j)"
  using send_request_calm [OF assms(1-5), of x] assms(6) by auto

text \<open>
  A full ring loses the request: the code writes without checking that there is room, so the call still
  succeeds and the client waits for a response to a message that the secure world never sees.
\<close>

theorem request_lost_when_full:
  assumes "calm e" "drv_inv d" "configured d i" "s_client (sess d i) = S_IDLE"
    and "uni_wf 8 (ns_actors d c)" "ns_full d"
  shows "\<exists>d'. pnc_session_send_request e i x d = Some (0, d') \<and> s_client (sess d' i) = S_WAITING \<and>
    uni_visible (ns_actors d' c) = uni_content (ns_actors d c)"
  using send_request_calm [OF assms(1-5), of x] assms(6) by auto

text \<open>
  C12. The exchange of a request and its response: the secure world finds exactly the request appended to what it
  had not consumed; after the response is handled the client gets its value and is idle again, with no
  response event left and the session configured, so that the exchange can be repeated.
\<close>

theorem request_response_exchange:
  assumes "calm e" "drv_inv d" "configured d i" "s_client (sess d i) = S_IDLE"
    and "uni_wf 8 (ns_actors d c)" "\<not> ns_full d"
    and "msg_index m = of_nat i" "msg_action m = action_code A_RESPONSE"
  shows "\<exists>d1 d2 d3. pnc_session_send_request e i x d = Some (0, d1) \<and>
    uni_visible (ns_actors d1 c) = uni_content (ns_actors d c) @ [request_message i x] \<and>
    handle_s_message e m d1 = Some d2 \<and>
    pnc_session_get_response e i True d2 = Some (0, Some (msg_p1 m), d3) \<and>
    drv_inv d3 \<and> configured d3 i \<and> s_client (sess d3 i) = S_IDLE \<and>
    s_event_pending (sess d3 i) AND EVENT_PENDING_RESPONSE = 0"
proof -
  obtain d1 where d1: "pnc_session_send_request e i x d = Some (0, d1)" "configured d1 i" "drv_inv d1"
      "s_client (sess d1 i) = S_WAITING" "uni_visible (ns_actors d1 c) = uni_content (ns_actors d c) @ [request_message i x]"
    using send_request_calm [OF assms(1-5), of x] assms(6) by auto
  let ?d2 = "(upd_sess i (\<lambda>s. (post_event EVENT_PENDING_RESPONSE (s\<lparr>s_client_message := m\<rparr>))
      \<lparr>s_client := S_NOTIFIED\<rparr>) d1)\<lparr>tick := Suc (tick d1)\<rparr>"
  have len: "i < length (sessions d1)" using d1(2,3) by (simp add: configured_def drv_inv_def)
  have h: "handle_s_message e m d1 = Some ?d2"
    using handle_response_calm [OF assms(1) d1(3,2) _ assms(7,8)] d1(4) by simp
  have inv2: "drv_inv ?d2" using d1(3) by simp
  have up: "configured (upd_sess i f dd) i = configured dd i"
    if "i < length (sessions dd)" "\<And>s. s_sem (f s) = s_sem s" "\<And>s. s_free (f s) = s_free s"
      "\<And>s. s_global (f s) = s_global s" for f and dd :: "'a drv_scheme"
    by (rule configured_cong) (use that in \<open>simp_all add: upd_sess_def sess_def\<close>)
  have c2: "configured ?d2 i" using d1(2) len by (simp add: up post_event_def)
  have n2: "s_client (sess ?d2 i) = S_NOTIFIED" "msg_p1 (s_client_message (sess ?d2 i)) = msg_p1 m"
    using len by (simp_all add: post_event_def)
  let ?d3 = "(upd_sess i (\<lambda>s. clear_event EVENT_PENDING_RESPONSE
      (s\<lparr>s_client_message := zero_message, s_client := S_IDLE\<rparr>)) ?d2)\<lparr>tick := Suc (Suc (tick ?d2))\<rparr>"
  have g: "pnc_session_get_response e i True ?d2 = Some (0, Some (msg_p1 m), ?d3)"
    using get_response_calm [OF assms(1) inv2 c2 n2(1)] n2(2) by simp
  have inv3: "drv_inv ?d3"
    unfolding drv_inv_tick by (rule drv_inv_upd_sess [OF inv2]) (simp add: slot_ok)
  have "configured ?d3 i" "s_client (sess ?d3 i) = S_IDLE"
    "s_event_pending (sess ?d3 i) AND EVENT_PENDING_RESPONSE = 0"
    using d1(2) len by (simp_all add: up clear_event_def post_event_def and.assoc)
  then show ?thesis using d1 h g inv3 by blast
qed

subsection \<open>Signals\<close>

text \<open>
  A signal to the secure world is never lost: the bits are added to those pending for the session; if
  none was pending the bit of the session is raised in the notification register, and if that register was
  clear the monitor is called.
\<close>

theorem send_signal_not_lost:
  assumes "pnc_session_send_signal e i bits d = Some (0, d')" and "env_keeps drv_inv e" and "drv_inv d"
    and "i < REE_MAX_SESSIONS"
  shows "\<exists>d1. check_session_configured e i d = Some (0, d1) \<and>
    signals_ns_to_s (shm d') ! i = signals_ns_to_s (shm d1) ! i OR bits \<and>
    (signals_ns_to_s (shm d1) ! i = 0 \<longrightarrow>
       notif_ns_to_s (shm d') = notif_ns_to_s (shm d1) OR E_SIGNAL i \<and>
       smc_log d' = smc_log d1 @ (if notif_ns_to_s (shm d1) = 0 then [(0, notify_smc)] else []))"
proof -
  obtain r d1 where c: "check_session_configured e i d = Some (r, d1)"
    using assms(1) by (auto simp: pnc_session_send_signal_def split: bind_splits)
  have "wlp (check_session_configured e i d) (\<lambda>(r, d). drv_inv d)"
    using assms by (intro wlp_check_session_configured) auto
  then have inv: "drv_inv d1" using c by simp
  have idx: "unat (s_index (sess d1 i)) = i"
    using drv_inv_sess [OF inv assms(4)] assms(4) by (simp add: session_ok_def proto_consts)
  have len: "i < length (signals_ns_to_s (shm d1))" and wq: "smc_wq d1"
    using inv assms(4) by (simp_all add: drv_inv_def)
  have "r = 0" using assms(1) c by (auto simp: pnc_session_send_signal_def split: if_splits)
  then show ?thesis
    using assms(1) c idx len wq
    by (auto simp: pnc_session_send_signal_def raise_notification_Some Let_def split: if_splits)
qed

text \<open>
  Fetching the signals of a session takes all bits pending in its register at once and leaves the register
  clear; the registers of the other sessions stay.
\<close>

theorem get_signal_takes_all:
  assumes "pnc_session_get_signal e i True d = Some (0, v, d')" and "env_keeps drv_inv e" and "drv_inv d"
    and "i < REE_MAX_SESSIONS"
  shows "\<exists>d1 d2. check_session_configured e i d = Some (0, d1) \<and>
    down_session_interruptible e i d1 = Some (0, d2) \<and>
    v = Some (signals_s_to_ns (shm d2) ! i) \<and>
    signals_s_to_ns (shm d') = (signals_s_to_ns (shm d2))[i := 0] \<and>
    signals_s_to_ns (shm d') ! i = 0 \<and> s_event_pending (sess d' i) AND EVENT_PENDING_SIGNAL = 0"
proof -
  obtain r d1 where c: "check_session_configured e i d = Some (r, d1)"
    using assms(1) by (auto simp: pnc_session_get_signal_def split: bind_splits)
  then have r: "r = 0" using assms(1) by (auto simp: pnc_session_get_signal_def split: if_splits)
  obtain r2 d2 where c2: "down_session_interruptible e i d1 = Some (r2, d2)"
    using assms(1) c r by (auto simp: pnc_session_get_signal_def split: bind_splits)
  have "wlp (check_session_configured e i d) (\<lambda>(r, d). drv_inv d)"
    using assms by (intro wlp_check_session_configured) auto
  then have "drv_inv d1" using c by simp
  then have "wlp (down_session_interruptible e i d1) (\<lambda>(r, d). drv_inv d)"
    using assms by (intro wlp_down_session_interruptible) auto
  then have inv: "drv_inv d2" using c2 by simp
  have idx: "unat (s_index (sess d2 i)) = i"
    using drv_inv_sess [OF inv assms(4)] assms(4) by (simp add: session_ok_def proto_consts)
  have len: "i < length (signals_s_to_ns (shm d2))" "i < length (sessions d2)"
    using inv assms(4) by (simp_all add: drv_inv_def)
  have s: "shm (up_session i (upd_sess i f d2)) = shm d2" for f
    by (simp add: up_session_def upd_sem_def upd_sess_def)
  have sess: "sess (up_session i (upd_sess i (clear_event EVENT_PENDING_SIGNAL) d2)) i =
      s_sem_update Suc (clear_event EVENT_PENDING_SIGNAL (sess d2 i))"
    using len by (simp add: up_session_def upd_sem_def)
  have [simp]: "sess (d\<lparr>shm := x\<rparr>) i = sess d i" for d :: "'a drv_scheme" and x
    by (simp add: sess_def)
  have ix: "s_index (s_sem_update Suc (clear_event EVENT_PENDING_SIGNAL (sess d2 i))) = s_index (sess d2 i)"
    by (simp add: clear_event_def)
  have r2: "r2 = 0" using assms(1) c r c2 by (auto simp: pnc_session_get_signal_def errno split: if_splits)
  then show ?thesis
    using assms(1) c r c2 r2 idx len
    by (intro exI [of _ d1] exI [of _ d2])
       (auto simp: pnc_session_get_signal_def take_s_to_ns_signals_def Let_def s sess ix clear_event_def and.assoc)
qed

subsection \<open>Configuration\<close>

lemma write_bytes_outside: "a < x \<or> x + length bs \<le> a \<Longrightarrow> write_bytes x bs m a = m a"
  by (induction bs arbitrary: x m) auto

lemma write_bytes_inside: "j < length bs \<Longrightarrow> write_bytes x bs m (x + j) = bs ! j"
proof (induction bs arbitrary: x m j)
  case (Cons b bs)
  show ?case
  proof (cases j)
    case 0
    then show ?thesis by (simp add: write_bytes_outside)
  next
    case (Suc j')
    then show ?thesis using Cons.IH [of j' "Suc x"] Cons.prems by simp
  qed
qed simp

text \<open>
  C21. The name of a service is copied whole, with its final 0, into the first page of the memory of the
  session, and no byte outside the pages of that memory is written.
\<close>

theorem config_name_confined:
  assumes "config_name i (Some str) base d = Some (0, d')"
    and "s_mem (sess d i) = Some p" and "live_blocks d p = Some (offset, n)" and "shm_wf d"
  shows "\<forall>a. (a < length str \<longrightarrow> memory d' (unat offset * PAGE_SIZE + a) = str ! a) \<and>
    memory d' (unat offset * PAGE_SIZE + length str) = 0 \<and>
    (memory d' a \<noteq> memory d a \<longrightarrow> a div PAGE_SIZE \<in> range_pages (offset, n) \<and> a div PAGE_SIZE \<in> shm_area d)"
proof
  fix a
  obtain ps where ps: "block_list (heap d) REE_RESERVED_PAGES (unat (shm_nr_pages d)) (blocks d) ps"
    "live_blocks d = allocated (heap d) ps"
    using assms(4) by (rule shm_wfE)
  then obtain blk where blk: "heap d p = Some blk" "blk_offset blk = offset" "blk_nr_pages blk = n"
    using assms(3) by (auto simp: allocated_def split: if_splits option.splits)
  have small: "length str < unat n * PAGE_SIZE"
    and d': "memory d' = write_bytes (unat offset * PAGE_SIZE) (str @ [0]) (memory d)"
    using assms(1,2) blk by (auto simp: config_name_def errno split: if_splits)
  note iso = live_blocks_isolated(1,2) [OF assms(4,3)]
  let ?x = "unat offset * PAGE_SIZE"
  have "a div PAGE_SIZE \<in> range_pages (offset, n) \<and> a div PAGE_SIZE \<in> shm_area d" if "memory d' a \<noteq> memory d a"
  proof -
    have "\<not> (a < ?x \<or> ?x + length (str @ [0]) \<le> a)"
      using that write_bytes_outside [of a ?x "str @ [0]" "memory d"] d' by metis
    then have "?x \<le> a" "a < (unat offset + unat n) * PAGE_SIZE"
      using small by (simp_all add: distrib_right)
    then have "unat offset \<le> a div PAGE_SIZE" "a div PAGE_SIZE < unat offset + unat n"
      by (simp_all add: less_eq_div_iff_mult_less_eq div_less_iff_less_mult proto_consts)
    then show ?thesis using iso by (simp add: range_pages_def shm_area_def)
  qed
  then show "(a < length str \<longrightarrow> memory d' (?x + a) = str ! a) \<and> memory d' (?x + length str) = 0 \<and>
    (memory d' a \<noteq> memory d a \<longrightarrow> a div PAGE_SIZE \<in> range_pages (offset, n) \<and> a div PAGE_SIZE \<in> shm_area d)"
    using write_bytes_inside [of a "str @ [0]" ?x "memory d"]
      write_bytes_inside [of "length str" "str @ [0]" ?x "memory d"]
    by (simp add: d' nth_append)
qed

text \<open>
  The configuration message tells the secure world where the memory of the session is; its number of
  pages has 16 bits, so that a memory of 65536 pages or more is announced too small.
\<close>

theorem config_message_memory:
  assumes "s_mem (sess d i) = Some p" and "heap d p = Some blk"
  shows "\<exists>msg. config_message i sid d = Some msg \<and> msg_p1 msg = blk_offset blk \<and>
    unat (msg_p2 msg) = unat (blk_nr_pages blk) mod 65536 \<and>
    msg_p0 msg AND mask 62 = sid AND mask 62 \<and> bit (msg_p0 msg) 62 \<and> bit (msg_p0 msg) 63"
proof -
  have "unat (ucast x :: u16) = unat x mod 65536" for x :: u32
    by (simp add: unsigned_ucast_eq) (simp add: take_bit_eq_mod unat_mod)
  moreover have "(sid OR push_bit 62 1 OR push_bit 63 1) AND mask 62 = sid AND mask 62"
  proof -
    have "(push_bit 62 1 OR push_bit 63 1 :: u64) AND mask 62 = 0" by code_simp
    then show ?thesis by (simp only: bit.conj_disj_distrib2 or.assoc) simp
  qed
  moreover have "bit (sid OR push_bit 62 1 OR push_bit 63 1) 62" "bit (sid OR push_bit 62 1 OR push_bit 63 1) 63"
    by (simp_all add: bit_simps)
  ultimately show ?thesis
    using assms by (simp add: config_message_def Let_def)
qed

text \<open>The updates of a slot leave the rest of the state alone.\<close>

lemma upd_sess_fields [simp]:
  "tick (upd_sess i f d) = tick d"
  "smc_wq (upd_sess i f d) = smc_wq d"
  "smc_log (upd_sess i f d) = smc_log d"
  "shm_base (upd_sess i f d) = shm_base d"
  "shm_pbase (upd_sess i f d) = shm_pbase d"
  "shm_nr_pages (upd_sess i f d) = shm_nr_pages d"
  "shm_sem (upd_sess i f d) = shm_sem d"
  "heap (upd_sess i f d) = heap d"
  "blocks (upd_sess i f d) = blocks d"
  "shm (upd_sess i f d) = shm d"
  "session_ready (upd_sess i f d) = session_ready d"
  "session_waitq (upd_sess i f d) = session_waitq d"
  "ns_to_s_ring (upd_sess i f d) = ns_to_s_ring d"
  "s_to_ns_ring (upd_sess i f d) = s_to_ns_ring d"
  "signal_session (upd_sess i f d) = signal_session d"
  "ree_version (upd_sess i f d) = ree_version d"
  "work_pending (upd_sess i f d) = work_pending d"
  "memory (upd_sess i f d) = memory d"
  "pnc_shm_ready (upd_sess i f d) = pnc_shm_ready d"
  "pnc_shm_base (upd_sess i f d) = pnc_shm_base d"
  by (simp_all add: upd_sess_def pnc_shm_ready_def pnc_shm_base_def)

lemma upd_sem_fields [simp]:
  "tick (upd_sem i f d) = tick d"
  "smc_wq (upd_sem i f d) = smc_wq d"
  "smc_log (upd_sem i f d) = smc_log d"
  "shm_base (upd_sem i f d) = shm_base d"
  "shm_pbase (upd_sem i f d) = shm_pbase d"
  "shm_nr_pages (upd_sem i f d) = shm_nr_pages d"
  "shm_sem (upd_sem i f d) = shm_sem d"
  "heap (upd_sem i f d) = heap d"
  "blocks (upd_sem i f d) = blocks d"
  "shm (upd_sem i f d) = shm d"
  "session_ready (upd_sem i f d) = session_ready d"
  "session_waitq (upd_sem i f d) = session_waitq d"
  "ns_to_s_ring (upd_sem i f d) = ns_to_s_ring d"
  "s_to_ns_ring (upd_sem i f d) = s_to_ns_ring d"
  "signal_session (upd_sem i f d) = signal_session d"
  "ree_version (upd_sem i f d) = ree_version d"
  "work_pending (upd_sem i f d) = work_pending d"
  "memory (upd_sem i f d) = memory d"
  "pnc_shm_ready (upd_sem i f d) = pnc_shm_ready d"
  "pnc_shm_base (upd_sem i f d) = pnc_shm_base d"
  by (simp_all add: upd_sem_def)

lemma pnc_shm_ready_tick [simp]: "pnc_shm_ready (d\<lparr>tick := n\<rparr>) = pnc_shm_ready d"
  by (simp add: pnc_shm_ready_def)

text \<open>Session \<open>i\<close> is open, not configured, and nobody holds its semaphore.\<close>

definition opened :: "'a drv_scheme \<Rightarrow> nat \<Rightarrow> bool" where
  "opened d i \<longleftrightarrow>
     i < REE_MAX_SESSIONS \<and> session_ready d \<and> pnc_shm_ready d \<and> s_sem (sess d i) = 1 \<and>
     \<not> s_free (sess d i) \<and> s_global (sess d i) = S_NULL"

lemma index_in_range:
  assumes "drv_inv d" "i < REE_MAX_SESSIONS"
  shows "\<not> of_nat REE_MAX_SESSIONS \<le> s_index (sess d i)" "i < length (sessions d)"
proof -
  have "s_index (sess d i) = of_nat i" "i < 28"
    using assms drv_inv_sess [of d i] by (simp_all add: session_ok_def proto_consts)
  then show "\<not> of_nat REE_MAX_SESSIONS \<le> s_index (sess d i)"
    by (simp add: word_le_nat_alt proto_consts)
  show "i < length (sessions d)" using assms by (simp add: drv_inv_def)
qed

lemma configure_session_opened:
  assumes "calm e" "drv_inv d" "opened d i"
  shows "configure_session e i sid name d =
    do {
      (r, d) \<leftarrow> config_name i name (pnc_shm_base d) ((upd_sem i (\<lambda>n. n - 1) d)\<lparr>tick := Suc (tick d)\<rparr>);
      if r \<noteq> 0 then Some (r, d)
      else do {
        msg \<leftarrow> config_message i sid d;
        let d = write_ns_message e msg d;
        let d = upd_sess i (s_global_update (\<lambda>_. S_CONFIG_WAITING)) d;
        let d = up_session i d;
        d \<leftarrow> notify_ns_message e d;
        (ret, _, d) \<leftarrow> wait_session_event e i EVENT_PENDING_RESPONSE SERVICE_TIMEOUT d;
        config_result e i ret d
      }
    }"
proof -
  have "i < REE_MAX_SESSIONS" using assms(3) by (simp add: opened_def)
  note index_in_range [OF assms(2) this]
  then show ?thesis
    using assms by (simp add: configure_session_def down_calm opened_def Let_def)
qed

text \<open>
  C23. A refused configuration by name keeps the semaphore: the error returns of the name checks do not give it
  back, so that any later configuration of the session sleeps for ever.
\<close>

theorem config_by_name_leaks_semaphore:
  assumes "calm e" and "\<forall>n. \<not> intr e n" and "drv_inv d" and "opened d i" and "ree_version d < 0x303"
  shows "\<exists>d'. pnc_session_config_by_name e i (Some str) d = Some (- ENOTSUPP, d') \<and>
    s_sem (sess d' i) = 0 \<and> pnc_session_config e i sid d' = None"
proof -
  let ?d = "(upd_sem i (\<lambda>n. n - 1) d)\<lparr>tick := Suc (tick d)\<rparr>"
  have len: "i < length (sessions d)"
    using assms(3,4) by (simp add: opened_def drv_inv_def)
  have "pnc_session_config_by_name e i (Some str) d = Some (- ENOTSUPP, ?d)"
    using assms
    by (simp add: pnc_session_config_by_name_def configure_session_opened config_name_def errno)
  moreover have z: "s_sem (sess ?d i) = 0" using assms(4) len by (simp add: opened_def)
  moreover have "pnc_session_config e i sid ?d = None"
  proof -
    have "down_session_interruptible e i ?d = None"
      using z assms(1,2) by (simp add: down_session_interruptible_def down_interruptible_def yield_calm Let_def)
    then show ?thesis
      using assms(4) by (simp add: pnc_session_config_def configure_session_def opened_def Let_def)
  qed
  ultimately show ?thesis by blast
qed

subsection \<open>Slots\<close>

lemma find_free_Some:
  assumes "find_free i d = Some j"
  shows "i \<le> j \<and> j < REE_MAX_SESSIONS \<and> s_free (sess d j) \<and> (\<forall>k. i \<le> k \<and> k < j \<longrightarrow> \<not> s_free (sess d k))"
  using assms
proof (induction i d rule: find_free.induct)
  case (1 i d)
  show ?case
  proof (cases "i < REE_MAX_SESSIONS \<and> \<not> s_free (sess d i)")
    case True
    then have "find_free (Suc i) d = Some j" using 1(2) by (subst (asm) find_free.simps) simp
    then show ?thesis using 1(1) True by (auto simp: not_less_eq_eq le_Suc_eq Suc_le_eq dest: le_neq_implies_less)
  next
    case False
    then show ?thesis using 1(2) by (subst (asm) find_free.simps) (auto split: if_splits)
  qed
qed

lemma find_free_None:
  assumes "find_free i d = None"
  shows "\<forall>k. i \<le> k \<and> k < REE_MAX_SESSIONS \<longrightarrow> \<not> s_free (sess d k)"
  using assms
proof (induction i d rule: find_free.induct)
  case (1 i d)
  show ?case
  proof (cases "i < REE_MAX_SESSIONS \<and> \<not> s_free (sess d i)")
    case True
    then have "find_free (Suc i) d = None" using 1(2) by (subst (asm) find_free.simps) simp
    then have "\<forall>k. Suc i \<le> k \<and> k < REE_MAX_SESSIONS \<longrightarrow> \<not> s_free (sess d k)" using 1(1) True by blast
    then show ?thesis using True by (metis le_antisym not_less_eq_eq)
  next
    case False
    then show ?thesis using 1(2) by (subst (asm) find_free.simps) (auto split: if_splits)
  qed
qed

text \<open>
  Opening a session gives out the first slot nobody uses, with no event and no message left from its former
  user, and touches no other slot; it fails exactly when all slots are in use.
\<close>

theorem open_gives_free_slot:
  assumes "pnc_session_open e d = Some (r, session, d')" and "env_keeps drv_inv e" and "drv_inv d"
  shows "\<exists>d1. drv_inv d1 \<and>
    (case session of
       None \<Rightarrow> r = - ENOMEM \<and> d' = d1 \<and> \<not> (\<exists>k. k < REE_MAX_SESSIONS \<and> s_free (sess d1 k))
     | Some i \<Rightarrow> r = 0 \<and> i < REE_MAX_SESSIONS \<and> s_free (sess d1 i) \<and> \<not> (\<exists>k. k < i \<and> s_free (sess d1 k)) \<and>
         sess d' i = (sess d1 i)\<lparr>s_free := False, s_event_pending := 0,
           s_client_message := zero_message, s_server_message := zero_message\<rparr> \<and>
         \<not> (\<exists>j. j \<noteq> i \<and> sess d' j \<noteq> sess d1 j))"
proof -
  obtain d0 where w: "wait_event e session_ready d = Some d0"
    using assms(1) by (auto simp: pnc_session_open_def split: bind_splits)
  have "wlp (wait_event e session_ready d) drv_inv"
    using assms by (intro wlp_wait_event_inv) auto
  then have inv: "drv_inv (lock_sessions e d0)" using w assms(2) by simp
  show ?thesis
  proof (cases "find_free 0 (lock_sessions e d0)")
    case None
    then show ?thesis
      using assms(1) w inv find_free_None [OF None]
      by (intro exI [of _ "lock_sessions e d0"]) (auto simp: pnc_session_open_def Let_def)
  next
    case (Some i)
    note f = find_free_Some [OF Some]
    then have "i < length (sessions (lock_sessions e d0))" using inv by (simp add: drv_inv_def)
    moreover have "r = 0" "session = Some i" "d' = upd_sess i (\<lambda>s. s\<lparr>s_free := False, s_event_pending := 0,
        s_client_message := zero_message, s_server_message := zero_message\<rparr>) (lock_sessions e d0)"
      using assms(1) w Some by (simp_all add: pnc_session_open_def Let_def)
    ultimately show ?thesis
      using inv f by (intro exI [of _ "lock_sessions e d0"]) (auto, metis sess_upd_other)
  qed
qed

text \<open>Shared memory without interference.\<close>

lemma shm_sem_upd: "shm_sem_update f d = d\<lparr>shm_sem := f (shm_sem d)\<rparr>"
  by (cases d) simp

lemma shm_free_calm:
  assumes "calm e" "shm_wf d" "live_blocks d p = Some x" "0 < shm_sem d"
  shows "\<exists>h. pnc_shm_free e (Some p) d = Some (0, d\<lparr>tick := Suc (tick d), heap := h\<rparr>) \<and>
    shm_wf (d\<lparr>heap := h\<rparr>) \<and> live_blocks (d\<lparr>heap := h\<rparr>) = (live_blocks d)(p := None)"
proof -
  let ?d = "d\<lparr>tick := Suc (tick d), shm_sem := shm_sem d - 1\<rparr>"
  have wf: "shm_wf ?d" "live_blocks ?d p = Some x"
    using assms shm_cong [of ?d d] by simp_all
  obtain h where h: "shm_free_locked p ?d = Some (?d\<lparr>heap := h\<rparr>)" "shm_wf (?d\<lparr>heap := h\<rparr>)"
    "live_blocks (?d\<lparr>heap := h\<rparr>) = (live_blocks ?d)(p := None)"
    using shm_free_locked_ok [OF wf] by blast
  have "heap d p \<noteq> None"
    using h(1) by (auto simp: shm_free_locked_def split: option.splits)
  then have "pnc_shm_free e (Some p) d = Some (0, d\<lparr>tick := Suc (tick d), heap := h\<rparr>)"
    using h(1) assms(1,4)
    by (simp add: pnc_shm_free_def down_interruptible_def yield_calm Let_def
        shm_sem_upd [of "\<lambda>n. n - Suc 0"])
  moreover have "shm_wf (d\<lparr>heap := h\<rparr>)" "live_blocks (d\<lparr>heap := h\<rparr>) = (live_blocks d)(p := None)"
    using h(2,3) shm_cong [of "?d\<lparr>heap := h\<rparr>" "d\<lparr>heap := h\<rparr>"] shm_cong [of ?d d] by simp_all
  ultimately show ?thesis by blast
qed

text \<open>The wait for \<open>A_TERM_ACK\<close> when it does not come.\<close>

lemma wait_term_calm:
  assumes "calm e" "i < length (sessions d)" "0 < s_sem (sess d i)" "s_global (sess d i) = S_TERM_WAITING"
    and "s_event_pending (sess d i) AND EVENT_PENDING_RESPONSE = 0" and "t \<noteq> 0"
  shows "\<exists>r k. wait_session_event e i EVENT_PENDING_RESPONSE t d =
    Some (r, None, (upd_sess i (s_global_update (\<lambda>_. S_NULL)) d)\<lparr>tick := k\<rparr>)"
proof -
  let ?cond = "\<lambda>d. s_event_pending (sess d i) AND EVENT_PENDING_RESPONSE \<noteq> 0"
  let ?j = "Some (timeout_jiffies (hz e) t)"
  have w: "\<exists>r k. wait_event_interruptible e ?j ?cond d = Some (r, d\<lparr>tick := k\<rparr>) \<and> r \<le> 0"
  proof (cases "timeout_jiffies (hz e) t = 0")
    case True
    then have "wait_event_interruptible e ?j ?cond d = Some (0, d\<lparr>tick := tick d\<rparr>)"
      using assms(5) by (simp add: wait_event_interruptible_def)
    then show ?thesis by blast
  next
    case False
    then have "wait_event_interruptible e ?j ?cond d =
        Some (if intr e (tick d) then - ERESTARTSYS else 0, d\<lparr>tick := Suc (tick d)\<rparr>)"
      using assms(1,5) by (simp add: wait_event_interruptible_def yield_calm Let_def)
    then show ?thesis by (auto simp: errno)
  qed
  then obtain r k where r: "wait_event_interruptible e ?j ?cond d = Some (r, d\<lparr>tick := k\<rparr>)" "r \<le> 0"
    by blast
  show ?thesis
    using assms(1-4,6) r event_bits(3)
    by (simp add: wait_session_event_def down_calm check_and_handle_terminated_session_def Let_def errno
        locked_upd)
       (rule exI, rule refl)
qed

definition term_message :: "nat \<Rightarrow> pnc_message" where
  "term_message i =
     \<lparr>msg_p0 = 0, msg_p1 = 0, msg_p2 = 0, msg_index = of_nat i, msg_action = action_code A_TERM\<rparr>"

lemma clear_signals_fields [simp]:
  "ns_actors (clear_ns_to_s_signals j d) c = ns_actors d c"
  "ns_full (clear_ns_to_s_signals j d) = ns_full d"
  "shm_hdr (shm (clear_ns_to_s_signals j d)) = shm_hdr (shm d)"
  by (simp_all add: clear_ns_to_s_signals_def ns_actors_def ns_full_def)

lemma send_term_calm:
  assumes "calm e" "drv_inv d" "i < REE_MAX_SESSIONS" "0 < s_sem (sess d i)"
    and "uni_wf 8 (ns_actors d c)" "\<not> ns_full d"
    and "s_event_pending (sess d i) AND EVENT_PENDING_RESPONSE = 0"
  shows "\<exists>d' k. send_term e i d = Some d' \<and> sess d' i = (sess d i)\<lparr>s_global := S_NULL\<rparr> \<and>
    (\<forall>j. j \<noteq> i \<longrightarrow> sess d' j = sess d j) \<and> same_driver d (d'\<lparr>tick := tick d, smc_log := smc_log d\<rparr>) \<and>
    uni_visible (ns_actors d' c) = uni_content (ns_actors d c) @ [term_message i]"
proof -
  let ?d0 = "clear_ns_to_s_signals (of_nat i) d"
  let ?t = "Suc (tick ?d0)"
  have idx: "s_index (sess d i) = of_nat i" using drv_inv_sess [OF assms(2,3)] by (simp add: session_ok_def)
  have len: "i < length (sessions d)" using assms(2,3) by (simp add: drv_inv_def)
  have msg: "new_message (of_nat i) A_TERM = term_message i"
    using new_message_index [OF assms(3) idx, of A_TERM] idx by (simp add: term_message_def zero_message_def)
  obtain d1 where d1: "notify_ns_message e (up_session i (upd_sess i (s_global_update (\<lambda>_. S_TERM_WAITING))
        (write_ns_message e (term_message i) ((upd_sem i (\<lambda>n. n - 1) ?d0)\<lparr>tick := ?t\<rparr>)))) = Some d1"
    "sess d1 i = (sess d i)\<lparr>s_global := S_TERM_WAITING\<rparr>" "\<forall>j. j \<noteq> i \<longrightarrow> sess d1 j = sess d j"
    "same_driver (?d0\<lparr>tick := ?t\<rparr>) (d1\<lparr>smc_log := smc_log ?d0\<rparr>)"
    "uni_visible (ns_actors d1 c) = uni_content (ns_actors d c) @ [term_message i]"
    using send_calm [of e ?d0 i c "s_global_update (\<lambda>_. S_TERM_WAITING)" "term_message i" ?t] assms by auto
  have "wlp (notify_ns_message e (up_session i (upd_sess i (s_global_update (\<lambda>_. S_TERM_WAITING))
        (write_ns_message e (term_message i) ((upd_sem i (\<lambda>n. n - 1) ?d0)\<lparr>tick := ?t\<rparr>))))) drv_inv"
    using assms(2) by (intro wlp_notify_ns_message) auto
  then have "drv_inv d1" using d1(1) by simp
  then have len1: "i < length (sessions d1)" using assms(3) by (simp add: drv_inv_def)
  obtain r k where w: "wait_session_event e i EVENT_PENDING_RESPONSE TERMINATION_TIMEOUT d1 =
      Some (r, None, (upd_sess i (s_global_update (\<lambda>_. S_NULL)) d1)\<lparr>tick := k\<rparr>)"
    using wait_term_calm [OF assms(1) len1, of TERMINATION_TIMEOUT] d1(2) assms(4,7) by (auto simp: proto_consts)
  have "send_term e i d = Some ((upd_sess i (s_global_update (\<lambda>_. S_NULL)) d1)\<lparr>tick := k\<rparr>)"
    using assms(1,4) d1(1) w idx len by (simp add: send_term_def down_calm Let_def msg)
  moreover have "same_driver d ((upd_sess i (s_global_update (\<lambda>_. S_NULL)) d1)\<lparr>tick := tick d, smc_log := smc_log d\<rparr>)"
    using d1(4) by (simp add: same_driver_def clear_ns_to_s_signals_def)
  ultimately show ?thesis using d1 len1 by auto
qed

lemma sess_heap [simp]: "sess (d\<lparr>heap := h\<rparr>) i = sess d i"
  "upd_sess i f (d\<lparr>heap := h\<rparr>) = (upd_sess i f d)\<lparr>heap := h\<rparr>"
  "sess (d\<lparr>tick := n, heap := h\<rparr>) i = sess d i"
  "upd_sess i f (d\<lparr>tick := n, heap := h\<rparr>) = (upd_sess i f d)\<lparr>tick := n, heap := h\<rparr>"
  by (simp_all add: sess_def upd_sess_def)

lemma ns_actors_heap [simp]: "ns_actors (d\<lparr>heap := h\<rparr>) c = ns_actors d c"
  "ns_actors (d\<lparr>tick := n, heap := h\<rparr>) c = ns_actors d c"
  by (simp_all add: ns_actors_def)

text \<open>
  C19. Closing a configured session always returns, even when the secure world never acknowledges: it tells the secure
  world, frees the memory of the session and nothing else, and gives the slot back with no trace of its user
  but the events that wake up whoever still waits; the other sessions stay.
\<close>

theorem close_releases:
  assumes "calm e" "drv_inv d" "configured d i" "uni_wf 8 (ns_actors d c)" "\<not> ns_full d"
    and "s_event_pending (sess d i) AND EVENT_PENDING_RESPONSE = 0"
    and "s_mem (sess d i) = Some p" "shm_wf d" "live_blocks d p = Some x" "0 < shm_sem d"
  shows "\<exists>d'. pnc_session_close e (Some i) d = Some d' \<and>
    s_free (sess d' i) \<and> s_mem (sess d' i) = None \<and> s_global (sess d' i) = S_NULL \<and>
    s_event_pending (sess d' i) = EVENT_PENDING_ALL \<and> s_sem (sess d' i) = s_sem (sess d i) \<and>
    (\<forall>j. j \<noteq> i \<longrightarrow> sess d' j = sess d j) \<and>
    shm_wf d' \<and> live_blocks d' = (live_blocks d)(p := None) \<and>
    uni_visible (ns_actors d' c) = uni_content (ns_actors d c) @ [term_message i]"
proof -
  have i: "i < REE_MAX_SESSIONS" and sem: "0 < s_sem (sess d i)" using assms(3) by (simp_all add: configured_def)
  let ?d1 = "d\<lparr>tick := Suc (tick d)\<rparr>"
  obtain d2 where d2: "send_term e i ?d1 = Some d2" "sess d2 i = (sess d i)\<lparr>s_global := S_NULL\<rparr>"
    "\<forall>j. j \<noteq> i \<longrightarrow> sess d2 j = sess d j" "same_driver ?d1 (d2\<lparr>tick := tick ?d1, smc_log := smc_log d\<rparr>)"
    "uni_visible (ns_actors d2 c) = uni_content (ns_actors d c) @ [term_message i]"
    using send_term_calm [of e ?d1 i c] assms sem i by (auto simp: ns_full_def)
  have "wlp (send_term e i ?d1) drv_inv"
    using assms(1,2) by (intro wlp_send_term) (auto simp: calm_def env_keeps_def)
  then have "drv_inv d2" using d2(1) by simp
  then have len: "i < length (sessions d2)" using i by (simp add: drv_inv_def)
  let ?d3 = "upd_sess i (s_global_update (\<lambda>_. S_NULL)) ((upd_sem i (\<lambda>n. n - 1) d2)\<lparr>tick := Suc (tick d2)\<rparr>)"
  have shm: "heap ?d3 = heap d" "blocks ?d3 = blocks d" "shm_nr_pages ?d3 = shm_nr_pages d" "shm_sem ?d3 = shm_sem d"
    using d2(4) by (simp_all add: same_driver_def)
  note cong = shm_cong [OF shm(1-3)]
  obtain h where h: "pnc_shm_free e (Some p) ?d3 = Some (0, ?d3\<lparr>tick := Suc (tick ?d3), heap := h\<rparr>)"
    "shm_wf (?d3\<lparr>heap := h\<rparr>)" "live_blocks (?d3\<lparr>heap := h\<rparr>) = (live_blocks ?d3)(p := None)"
    using shm_free_calm [of e ?d3 p x] assms(1,8,9,10) cong shm(4) by auto
  have mem: "s_mem (sess ?d3 i) = Some p" using d2(2) len assms(7) by simp
  have sem2: "0 < s_sem (sess d2 i)" using d2(2) sem by simp
  let ?F = "\<lambda>s. s\<lparr>s_mem := None, s_event_pending := EVENT_PENDING_ALL, s_event_wait := s_event_wait s + 1\<rparr>"
  let ?d4 = "?d3\<lparr>tick := Suc (tick ?d3), heap := h\<rparr>"
  let ?d5 = "(up_session i (upd_sess i ?F ?d4))\<lparr>tick := Suc (Suc (tick ?d3))\<rparr>"
  let ?d6 = "upd_sess i (s_free_update (\<lambda>_. True)) ?d5"
  have run: "pnc_session_close e (Some i) d = Some ?d6"
    using check_calm [OF assms(1-3)] d2(1) down_calm(1) [OF assms(1) sem2] h(1) mem assms(1)
    by (simp add: pnc_session_close_def Let_def lock_sessions_def yield_calm) (simp add: up_session_def)
  have sess6: "sess ?d6 i = (sess d i)\<lparr>s_free := True, s_global := S_NULL, s_mem := None,
      s_event_pending := EVENT_PENDING_ALL, s_event_wait := Suc (s_event_wait (sess d i))\<rparr>"
    using len d2(2) sem by (simp add: up_session_def upd_sem_def)
  have others6: "\<forall>j. j \<noteq> i \<longrightarrow> sess ?d6 j = sess d j"
    using d2(3) by (simp add: up_session_def upd_sem_def)
  have "heap ?d6 = h" "blocks ?d6 = blocks ?d3" "shm_nr_pages ?d6 = shm_nr_pages ?d3"
    by (simp_all add: up_session_def)
  then have "shm_wf ?d6" "live_blocks ?d6 = (live_blocks d)(p := None)"
    using h(2,3) cong(2) shm_cong [of ?d6 "?d3\<lparr>heap := h\<rparr>"] by simp_all
  moreover have "ns_actors ?d6 c = ns_actors d2 c"
    by (simp add: up_session_def upd_sem_def)
  ultimately show ?thesis using run sess6 others6 d2(5) by auto
qed

subsection \<open>Gates\<close>

text \<open>
  The gate of the API: a call is let through exactly when the framework is enabled, the shared memory is
  ready, the semaphore could be taken, and the slot is in use and configured; every refusal has its error,
  and passing the gate changes no slot.
\<close>

theorem check_session_configured_table:
  assumes "env_keeps drv_inv e" "drv_inv d" "i < REE_MAX_SESSIONS" and "0 < s_sem (sess (yield e d) i)"
  shows "check_session_configured e i d =
    (if \<not> session_ready d then Some (- EAGAIN, d)
     else if \<not> pnc_shm_ready d then Some (- ENOENT, d)
     else Some (if s_free (sess (yield e d) i) then - EINVAL
                else if s_global (sess (yield e d) i) \<noteq> S_CONFIGURED then - ENODEV else 0,
                yield e d))"
proof -
  have "drv_inv (yield e d)" using assms by simp
  note index_in_range [OF this assms(3)]
  then show ?thesis
    using assms(4)
    by (simp add: check_session_configured_def down_session_interruptible_def down_interruptible_def Let_def)
qed

text \<open>
  The interrupt: before the secure world has acknowledged the shared memory nothing happens; the first
  interrupt after it enables the framework with the version it chose and wakes up the openers; from then on every
  interrupt schedules the worker.
\<close>

theorem interrupt_enables_once:
  shows "pnc_session_interrupt_handler d =
    (if \<not> session_ready d \<and> \<not> pnc_shm_ready d then d
     else d\<lparr>work_pending := True,
            session_ready := True,
            ree_version := (if session_ready d then ree_version d else hdr_version (shm_hdr (shm d))),
            session_waitq := (if session_ready d then session_waitq d else session_waitq d + 1)\<rparr>)"
  by (simp add: pnc_session_interrupt_handler_def)

subsection \<open>Where the code does not keep its promises\<close>

lemma wait_event_calm:
  assumes "calm e" "configured d i" "i < length (sessions d)"
    and "s_event_pending (sess d i) AND m \<noteq> 0" "m AND EVENT_PENDING_ALL = m"
  shows "wait_session_event e i m 0 d =
    Some (0, Some (s_event_pending (sess d i) AND m), (upd_sess i (clear_event m) d)\<lparr>tick := Suc (tick d)\<rparr>)"
proof -
  have sem: "0 < s_sem (sess d i)" and g: "s_global (sess d i) = S_CONFIGURED"
    using assms(2) by (simp_all add: configured_def)
  have l: "up_session i (upd_sess i (clear_event m) (upd_sem i (\<lambda>n. n - Suc 0) d)) = upd_sess i (clear_event m) d"
    by (rule locked_upd [OF sem]) (simp add: clear_event_def)
  have "s_global (clear_event m (sess d i)) = S_CONFIGURED" using g by (simp add: clear_event_def)
  then show ?thesis
    using assms(1,3-5) sem l
    by (simp add: wait_session_event_def wait_event_interruptible_def down_calm Let_def
        check_and_handle_terminated_session_def)
qed

text \<open>
  Fetching the event of a request hides the request: after \<open>pnc_session_wait_event\<close> has reported it,
  \<open>pnc_session_wait_request\<close> sleeps for ever although the request is there, and
  \<open>pnc_session_get_request\<close> would return it.
\<close>

theorem request_hidden_by_event:
  assumes "calm e" and "\<forall>n. \<not> intr e n" and "drv_inv d" and "configured d i"
    and "s_server (sess d i) = S_NOTIFIED" and "s_event_pending (sess d i) AND EVENT_PENDING_REQUEST \<noteq> 0"
  shows "\<exists>d1 d2. pnc_session_wait_event e i True EVENT_PENDING_REQUEST 0 d =
      Some (0, Some EVENT_PENDING_REQUEST, d1) \<and>
    pnc_session_wait_request e i True 0 d1 = None \<and>
    pnc_session_get_request e i True d1 = Some (0, Some (msg_p1 (s_server_message (sess d i))), d2)"
proof -
  have i: "i < REE_MAX_SESSIONS" using assms(4) by (simp add: configured_def)
  have len: "i < length (sessions d)" using assms(3) i by (simp add: drv_inv_def)
  have one: "x AND EVENT_PENDING_REQUEST = EVENT_PENDING_REQUEST" if "x AND EVENT_PENDING_REQUEST \<noteq> 0" for x
    using that unfolding EVENT_PENDING_REQUEST_def and_single_bit by (simp split: if_splits)
  let ?d0 = "d\<lparr>tick := Suc (tick d)\<rparr>"
  let ?d1 = "(upd_sess i (clear_event EVENT_PENDING_REQUEST) d)\<lparr>tick := Suc (Suc (tick d))\<rparr>"
  have ev: "pnc_session_wait_event e i True EVENT_PENDING_REQUEST 0 d = Some (0, Some EVENT_PENDING_REQUEST, ?d1)"
    using check_calm [OF assms(1,3,4)] wait_event_calm [of e ?d0 i EVENT_PENDING_REQUEST] assms(1,4,6) len
      one event_bits(2)
    by (simp add: pnc_session_wait_event_def)
  have inv1: "drv_inv ?d1" using assms(3) by simp
  have c1: "configured ?d1 i"
    using assms(4) len configured_cong [of ?d1 d i] by (simp add: clear_event_def)
  have s1: "s_server (sess ?d1 i) = S_NOTIFIED" "s_server_message (sess ?d1 i) = s_server_message (sess d i)"
    "s_event_pending (sess ?d1 i) AND EVENT_PENDING_REQUEST = 0"
    using assms(5) len by (simp_all add: clear_event_def and.assoc)
  let ?d2 = "?d1\<lparr>tick := Suc (tick ?d1)\<rparr>"
  have sem: "0 < s_sem (sess ?d2 i)" using c1 by (simp add: configured_def)
  have blocked: "wait_session_event e i EVENT_PENDING_REQUEST 0 x = None"
    if "s_event_pending (sess x i) AND EVENT_PENDING_REQUEST = 0" for x
    using that assms(1,2) event_bits(2)
    by (simp add: wait_session_event_def wait_event_interruptible_def yield_calm Let_def)
  have wr: "pnc_session_wait_request e i True 0 ?d1 = None"
    using check_calm [OF assms(1) inv1 c1] down_calm(1) [OF assms(1) sem] s1 blocked up_down [OF sem] len sem
    by (simp add: pnc_session_wait_request_def Let_def)
  have gr: "\<exists>d2. pnc_session_get_request e i True ?d1 =
      Some (0, Some (msg_p1 (s_server_message (sess d i))), d2)"
    using check_calm [OF assms(1) inv1 c1] down_calm(1) [OF assms(1) sem] s1 len
    by (simp add: pnc_session_get_request_def Let_def)
  show ?thesis using ev wr gr by blast
qed

lemma find_free_first:
  assumes "j < REE_MAX_SESSIONS" "s_free (sess d j)" "\<forall>k < j. \<not> s_free (sess d k)"
  shows "find_free 0 d = Some j"
proof (cases "find_free 0 d")
  case None
  then show ?thesis using find_free_None [OF None] assms by blast
next
  case (Some k)
  then show ?thesis using find_free_Some [OF Some] assms by (metis linorder_neqE_nat zero_le)
qed

lemma check_not_configured:
  assumes "calm e" "drv_inv d" "i < REE_MAX_SESSIONS" "0 < s_sem (sess d i)" "s_global (sess d i) \<noteq> S_CONFIGURED"
  shows "\<exists>r k. check_session_configured e i d = Some (r, d\<lparr>tick := k\<rparr>) \<and> r \<noteq> 0"
proof -
  have k: "\<exists>k. d = d\<lparr>tick := k\<rparr>" by (rule exI [of _ "tick d"]) simp
  show ?thesis
    using assms index_in_range [OF assms(2,3)]
    by (auto simp: check_session_configured_def down_calm Let_def errno intro!: k)
qed

text \<open>
  C24. A terminated session is taken away from its user: the function that reports \<open>EPIPE\<close> frees the slot while
  the user still holds it. The next open gives the same slot to somebody else, whose session the first user's
  close then ends.
\<close>

theorem terminated_slot_given_twice:
  assumes "calm e" "drv_inv d" "i < REE_MAX_SESSIONS" "0 < s_sem (sess d i)" "session_ready d"
    and "s_global (sess d i) = S_NULL" "s_mem (sess d i) = None" "\<not> s_free (sess d i)"
    and "\<forall>k < i. \<not> s_free (sess d k)"
  shows "\<exists>d1 d2 d3. check_and_handle_terminated_session e i d = Some (- EPIPE, d1) \<and>
    pnc_session_open e d1 = Some (0, Some i, d2) \<and> \<not> s_free (sess d2 i) \<and>
    pnc_session_close e (Some i) d2 = Some d3 \<and> s_free (sess d3 i)"
proof -
  have len: "i < length (sessions d)" using assms(2,3) by (simp add: drv_inv_def)
  let ?d1 = "(upd_sess i (s_free_update (\<lambda>_. True)) d)\<lparr>tick := Suc (Suc (tick d))\<rparr>"
  have r1: "check_and_handle_terminated_session e i d = Some (- EPIPE, ?d1)"
    using assms len
    by (simp add: check_and_handle_terminated_session_def down_calm Let_def lock_sessions_def yield_calm)
  have f1: "find_free 0 (?d1\<lparr>tick := n\<rparr>) = Some i" for n
    using assms(3,9) len by (intro find_free_first) simp_all
  let ?open = "\<lambda>s. s\<lparr>s_free := False, s_event_pending := 0,
      s_client_message := zero_message, s_server_message := zero_message\<rparr>"
  let ?d2 = "(upd_sess i ?open ?d1)\<lparr>tick := Suc (Suc (Suc (tick d)))\<rparr>"
  have r2: "pnc_session_open e ?d1 = Some (0, Some i, ?d2)"
    using assms(1,5) f1 by (simp add: pnc_session_open_def wait_event_def lock_sessions_def yield_calm Let_def)
  have s2: "s_global (sess ?d2 i) = S_NULL" "s_mem (sess ?d2 i) = None" "\<not> s_free (sess ?d2 i)"
    "0 < s_sem (sess ?d2 i)"
    using assms(4,6,7) len by simp_all
  have "drv_inv ?d1" using assms(2) by simp
  then have "drv_inv (upd_sess i ?open ?d1)" by (rule drv_inv_slot_simps)
  then have inv2: "drv_inv ?d2" by simp
  obtain r k where c: "check_session_configured e i ?d2 = Some (r, ?d2\<lparr>tick := k\<rparr>)" "r \<noteq> 0"
    using check_not_configured [OF assms(1) inv2 assms(3) s2(4)] s2(1) by auto
  have "0 < s_sem (sess (?d2\<lparr>tick := k\<rparr>) i)" using s2(4) by simp
  note down_calm(1) [OF assms(1) this]
  then have "\<exists>d3. pnc_session_close e (Some i) ?d2 = Some d3 \<and> s_free (sess d3 i)"
    using c s2 len assms(1,7)
    by (simp add: pnc_session_close_def pnc_shm_free_def Let_def lock_sessions_def yield_calm up_session_def upd_sem_def)
  then show ?thesis using r1 r2 s2(3) by blast
qed

text \<open>
  The timeout in jiffies is computed in 32 bits: it is right while the product fits, and a longer timeout may
  become no wait at all.
\<close>

theorem timeout_wraps:
  "(unat t * unat HZ < 4294967296 \<longrightarrow> unat (timeout_jiffies HZ t) = unat t * unat HZ div 1000) \<and>
   timeout_jiffies 1000 4294968 = 0"
proof -
  have "unat (t * HZ) = unat t * unat HZ" if "unat t * unat HZ < 4294967296"
    using that by (simp add: unat_word_ariths)
  then show ?thesis by (simp add: timeout_jiffies_def unat_div)
qed

end
