(* ===== verification/PncWorker.thy ===== *)
theory PncWorker
  imports PncCalls
begin

text \<open>
  What a run of the notification worker (\<open>handle_s_notification\<close> of \<open>session.c\<close>) does when no other thread interferes: it
  returns, every session whose bit is set has its signal event, and the messages in the S-->NS ring are
  handled once each and in order.
\<close>

fun handle_all :: "('a drv_scheme, 'b) drv_env_scheme \<Rightarrow> pnc_message list \<Rightarrow> 'a drv_scheme \<Rightarrow> 'a drv_scheme option" where
  "handle_all e [] d = Some d"
| "handle_all e (m # ms) d = do { d \<leftarrow> handle_s_message e m d; handle_all e ms d }"

text \<open>The S-->NS ring with the producer of the secure world.\<close>

definition s_actors :: "'a drv_scheme \<Rightarrow> uni_producer \<Rightarrow> pnc_message uni_ring" where
  "s_actors d p = \<lparr>rg_producer = p, rg_consumer = s_to_ns_ring d, rg_shared = ring_s_to_ns (shm d)\<rparr>"

definition with_s_ring :: "uni_consumer \<Rightarrow> pnc_message uni_shared \<Rightarrow> 'a drv_scheme \<Rightarrow> 'a drv_scheme" where
  "with_s_ring c sh d = d\<lparr>s_to_ns_ring := c, shm := (shm d)\<lparr>ring_s_to_ns := sh\<rparr>\<rparr>"

lemma with_s_ring_sel [simp]:
  "sess (with_s_ring c sh d) i = sess d i" "sessions (with_s_ring c sh d) = sessions d" "tick (with_s_ring c sh d) = tick d"
  "s_to_ns_ring (with_s_ring c sh d) = c" "ring_s_to_ns (shm (with_s_ring c sh d)) = sh"
  "with_s_ring c' sh' (with_s_ring c sh d) = with_s_ring c' sh' d" "with_s_ring (s_to_ns_ring d) (ring_s_to_ns (shm d)) d = d"
  "ns_actors (with_s_ring c sh d) k = ns_actors d k" "s_actors (with_s_ring c sh d) p = \<lparr>rg_producer = p, rg_consumer = c, rg_shared = sh\<rparr>"
  "smc_wq (with_s_ring c sh d) = smc_wq d" "notif_s_to_ns (shm (with_s_ring c sh d)) = notif_s_to_ns (shm d)"
  by (simp_all add: with_s_ring_def sess_def ns_actors_def s_actors_def)

lemma with_s_ring_consumer: "(with_s_ring c sh d)\<lparr>s_to_ns_ring := c'\<rparr> = with_s_ring c' sh d"
  by (simp add: with_s_ring_def)

text \<open>The handlers of messages do not look at the ring that the messages come from.\<close>

lemma with_s_ring_ops [simp]:
  "upd_sess i f (with_s_ring c sh d) = with_s_ring c sh (upd_sess i f d)"
  "upd_sem i g (with_s_ring c sh d) = with_s_ring c sh (upd_sem i g d)"
  "up_session i (with_s_ring c sh d) = with_s_ring c sh (up_session i d)"
  "clear_ns_to_s_signals x (with_s_ring c sh d) = with_s_ring c sh (clear_ns_to_s_signals x d)"
  "write_ns_message e m (with_s_ring c sh d) = with_s_ring c sh (write_ns_message e m d)"
  by (simp_all add: with_s_ring_def upd_sess_def upd_sem_def up_session_def clear_ns_to_s_signals_def write_ns_message_def
      sess_def split_beta Let_def)

lemma with_s_ring_dispatch: "dispatch_message e m (with_s_ring c sh d) = with_s_ring c sh (dispatch_message e m d)"
  by (simp add: dispatch_message_def handle_s_request_def handle_s_response_def handle_s_config_ack_def handle_s_cancel_def
      handle_s_cancel_ack_def handle_s_term_def handle_s_term_ack_def Let_def
      split: option.splits session_action.splits session_state.splits)

lemma with_s_ring_message:
  assumes "calm e"
  shows "handle_s_message e m (with_s_ring c sh d) = map_option (with_s_ring c sh) (handle_s_message e m d)"
proof -
  have tick: "(with_s_ring c sh d)\<lparr>tick := n\<rparr> = with_s_ring c sh (d\<lparr>tick := n\<rparr>)" for n and d :: "'a drv_scheme"
    by (simp add: with_s_ring_def)
  show ?thesis
    using assms
    by (simp add: handle_s_message_def down_session_def down_def yield_calm with_s_ring_dispatch Let_def tick
        split: option.splits)
qed


lemma with_s_ring_all:
  assumes "calm e"
  shows "handle_all e ms (with_s_ring c sh d) = map_option (with_s_ring c sh) (handle_all e ms d)"
proof (induction ms arbitrary: d)
  case (Cons m ms)
  then show ?case by (cases "handle_s_message e m d") (simp_all add: with_s_ring_message [OF assms])
qed simp

subsection \<open>The loops over the messages\<close>

lemma consume_loop_handles:
  assumes "calm e" "c_capacity c = 256" "length (sh_array sh) = 256"
  shows "consume_loop e (with_s_ring c sh d) =
    map_option (with_s_ring (c\<lparr>c_cons := c_cons_end c\<rparr>) sh)
      (handle_all e (ring_list (sh_array sh) 256 (unat (c_cons c)) (unat (c_cons_end c - c_cons c))) d)"
  using assms(2)
proof (induction "unat (c_cons_end c - c_cons c)" arbitrary: c d)
  case 0
  then have "c_cons_end c = c_cons c" by (simp add: unat_eq_zero)
  then show ?case by (subst consume_loop.simps) (simp add: consumer_consume_def Let_def with_s_ring_def)
next
  case (Suc n)
  let ?c = "c\<lparr>c_cons := c_cons c + 1\<rparr>" and ?m = "sh_array sh ! (unat (c_cons c) mod 256)"
  have ne: "c_cons_end c \<noteq> c_cons c" using Suc.hyps(2) by auto
  then have n: "n = unat (c_cons_end c - (c_cons c + 1))"
    using Suc.hyps(2) unat_diff_Suc [of "c_cons c" "c_cons_end c"] by simp
  have slot: "unat (c_cons c AND 255) = unat (c_cons c) mod 256"
    using and_pow2_minus_1 [of "c_cons c" 8] by simp
  have "unat (c_cons c + 1) mod 256 = Suc (unat (c_cons c)) mod 256"
    using unat_add_of_nat_mod [of 8 "c_cons c" 1] by (simp add: mod_simps)
  then have rest: "ring_list (sh_array sh) 256 (unat (c_cons c + 1)) n = ring_list (sh_array sh) 256 (Suc (unat (c_cons c))) n"
    by (metis ring_list_mod)
  have loop: "consume_loop e (with_s_ring ?c sh d') = map_option (with_s_ring (?c\<lparr>c_cons := c_cons_end ?c\<rparr>) sh)
      (handle_all e (ring_list (sh_array sh) 256 (unat (c_cons ?c)) (unat (c_cons_end ?c - c_cons ?c))) d')" for d'
    by (rule Suc.hyps(1)) (use n Suc.prems in simp_all)
  have "consume_loop e (with_s_ring c sh d) =
      do { d \<leftarrow> handle_s_message e ?m (with_s_ring ?c sh d); consume_loop e d }"
    using ne Suc.prems slot by (subst consume_loop.simps) (simp add: consumer_consume_def Let_def with_s_ring_consumer)
  then show ?case
    unfolding Suc.hyps(2) [symmetric] ring_list_Suc
    using loop n rest by (cases "handle_s_message e ?m d") (simp_all add: with_s_ring_message [OF assms(1)])
qed

lemma message_loop_handles:
  assumes "calm e" "uni_wf 8 \<lparr>rg_producer = p, rg_consumer = c, rg_shared = sh\<rparr>"
  defines "fin \<equiv> sh_prod sh"
  shows "message_loop e (with_s_ring c sh d) =
    map_option (with_s_ring (c\<lparr>c_cons := fin, c_cons_end := fin\<rparr>) (sh\<lparr>sh_prod_limit := fin\<rparr>))
      (handle_all e (uni_visible \<lparr>rg_producer = p, rg_consumer = c, rg_shared = sh\<rparr>) d)"
proof -
  have wf: "c_capacity c = 256" "length (sh_array sh) = 256" "sh_prod sh - c_cons c \<le> 256"
    using assms(2) uni_wf_dist(7) [OF assms(2)] by (simp_all add: uni_wf_def Let_def word_le_nat_alt)
  have empty: "message_loop e (with_s_ring k sh d') = Some (with_s_ring (k\<lparr>c_cons_end := fin\<rparr>) (sh\<lparr>sh_prod_limit := fin\<rparr>) d')"
    if "c_cons k = fin" "c_capacity k = 256" for k d'
    using that assms(1)
    by (subst message_loop.simps)
      (simp add: calm_peer consumer_checkout_def consumer_checkout_helper_def Let_def fin_def with_s_ring_def)
  show ?thesis
  proof (cases "c_cons c = fin")
    case True
    then show ?thesis using empty [OF True wf(1)] by (cases c) (simp add: uni_visible_def fin_def)
  next
    case False
    let ?c = "c\<lparr>c_cons_end := fin\<rparr>"
    have "message_loop e (with_s_ring c sh d) = do { d \<leftarrow> consume_loop e (with_s_ring ?c sh d); message_loop e d }"
      using False wf assms(1)
      by (subst message_loop.simps)
        (simp add: calm_peer consumer_checkout_def consumer_checkout_helper_def Let_def fin_def with_s_ring_def)
    also have "consume_loop e (with_s_ring ?c sh d) = map_option (with_s_ring (?c\<lparr>c_cons := fin\<rparr>) sh)
        (handle_all e (uni_visible \<lparr>rg_producer = p, rg_consumer = c, rg_shared = sh\<rparr>) d)"
      using consume_loop_handles [of e ?c sh d] assms(1) wf by (simp add: uni_visible_def fin_def)
    finally show ?thesis
      using empty [of "?c\<lparr>c_cons := fin\<rparr>"] wf(1)
      by (cases "handle_all e (uni_visible \<lparr>rg_producer = p, rg_consumer = c, rg_shared = sh\<rparr>) d")
        (simp_all add: fin_def)
  qed
qed


subsection \<open>Every message is handled\<close>

text \<open>Nobody holds a semaphore of a session, and the NS-->S ring is well-formed with consumer \<open>k\<close>.\<close>

definition worker_ready :: "uni_consumer \<Rightarrow> 'a drv_scheme \<Rightarrow> bool" where
  "worker_ready k d \<longleftrightarrow> drv_inv d \<and> (\<forall>i < REE_MAX_SESSIONS. 0 < s_sem (sess d i)) \<and> uni_wf 8 (ns_actors d k)"

lemma upd_sess_sem:
  assumes "\<And>s. s_sem (f s) = s_sem s"
  shows "s_sem (sess (upd_sess i f d) j) = s_sem (sess d j)"
  by (cases "i < length (sessions d)"; cases "i = j") (auto simp: assms upd_sess_def sess_def list_update_beyond)

lemma ns_actors_ops [simp]:
  "ns_actors (upd_sess i f d) k = ns_actors d k" "ns_actors (clear_ns_to_s_signals x d) k = ns_actors d k"
  by (simp_all add: ns_actors_def upd_sess_def clear_ns_to_s_signals_def)

lemma dispatch_ready:
  assumes "calm e"
  shows "s_sem (sess (dispatch_message e m d) j) = s_sem (sess d j)"
    and "uni_wf 8 (ns_actors d k) \<Longrightarrow> uni_wf 8 (ns_actors (dispatch_message e m d) k)"
  using write_ns_message_queue(1) [where e = e, OF _ calm_peer [OF assms]]
  by (auto simp: dispatch_message_def handle_s_request_def handle_s_response_def handle_s_config_ack_def handle_s_cancel_def
      handle_s_cancel_ack_def handle_s_term_def handle_s_term_ack_def Let_def upd_sess_sem post_event_def
      split: option.splits session_action.splits session_state.splits)

lemma handle_message_total:
  assumes "calm e" "worker_ready k d"
  shows "\<exists>d'. handle_s_message e m d = Some d' \<and> worker_ready k d'"
proof (cases "REE_MAX_SESSIONS \<le> unat (msg_index m) \<or> s_free (sess d (unat (msg_index m)))")
  case True
  then show ?thesis using assms(2) by (simp add: handle_s_message_def)
next
  case False
  let ?i = "unat (msg_index m)" and ?d = "(upd_sem (unat (msg_index m)) (\<lambda>n. n - 1) d)\<lparr>tick := Suc (tick d)\<rparr>"
  have ready: "drv_inv d" "\<And>i. i < REE_MAX_SESSIONS \<Longrightarrow> 0 < s_sem (sess d i)" "uni_wf 8 (ns_actors d k)"
    using assms(2) by (auto simp: worker_ready_def)
  have len: "?i < length (sessions d)" using ready(1) False by (simp add: drv_inv_def)
  have run: "handle_s_message e m d = Some (up_session ?i (dispatch_message e m ?d))"
    using False ready(2) [of ?i] assms(1) by (simp add: handle_s_message_def down_calm)
  then have "drv_inv (up_session ?i (dispatch_message e m ?d))" using ready(1) by simp
  moreover have "0 < s_sem (sess (up_session ?i (dispatch_message e m ?d)) j)" if "j < REE_MAX_SESSIONS" for j
  proof -
    have "drv_inv (dispatch_message e m ?d)" using ready(1) by simp
    then have "?i < length (sessions (dispatch_message e m ?d))" using False by (simp add: drv_inv_def)
    then show ?thesis
      using ready(2) [OF that] dispatch_ready(1) [OF assms(1), of m ?d j] len
      by (cases "j = ?i") (simp_all add: up_session_def)
  qed
  moreover have "uni_wf 8 (ns_actors (up_session ?i (dispatch_message e m ?d)) k)"
    using dispatch_ready(2) [OF assms(1), of ?d k m] ready(3) by (simp add: up_session_def upd_sem_def)
  ultimately show ?thesis using run by (auto simp: worker_ready_def)
qed

lemma handle_all_total:
  assumes "calm e" "worker_ready k d"
  shows "\<exists>d'. handle_all e ms d = Some d' \<and> worker_ready k d'"
  using assms(2)
proof (induction ms arbitrary: d)
  case (Cons m ms)
  then show ?case using handle_message_total [OF assms(1) Cons.prems, of m] by fastforce
qed simp

lemma handle_all_notif:
  assumes "calm e" "drv_inv d" "handle_all e ms d = Some d'"
  shows "notif_s_to_ns (shm d') = notif_s_to_ns (shm d)"
  using assms(2,3)
proof (induction ms arbitrary: d)
  case (Cons m ms)
  then obtain d1 where d1: "handle_s_message e m d = Some d1" "handle_all e ms d1 = Some d'"
    by (auto split: bind_splits)
  have "drv_inv (yield e d)" using Cons.prems(1) by (simp add: yield_calm [OF assms(1)])
  then have "notif_s_to_ns (shm d1) = notif_s_to_ns (shm d)"
    using message_frame [OF d1(1)] by (auto simp: only_session_def yield_calm [OF assms(1)] split: if_splits)
  moreover have "drv_inv d1"
  proof -
    have "env_keeps drv_inv e" using assms(1) by (simp add: calm_def env_keeps_def)
    then have "wlp (handle_s_message e m d) drv_inv" using Cons.prems(1) by (intro wlp_handle_s_message) auto
    then show ?thesis using d1(1) by simp
  qed
  ultimately show ?case using Cons.IH d1(2) by simp
qed simp

lemma notify_keeps:
  assumes "notify_ns_message e d = Some d'" "smc_wq d"
  shows "ring_s_to_ns (shm d') = ring_s_to_ns (shm d)" "notif_s_to_ns (shm d') = notif_s_to_ns (shm d)"
  using assms by (auto simp: notify_ns_message_def raise_notification_Some Let_def split: prod.splits if_splits)

lemma handle_messages_calm:
  assumes "calm e" "worker_ready k d" "uni_wf 8 (s_actors d p)"
  shows "\<exists>d1 d'. handle_all e (uni_visible (s_actors d p)) d = Some d1 \<and> handle_messages e d = Some d' \<and>
    sessions d' = sessions d1 \<and> uni_visible (s_actors d' p) = [] \<and>
    sh_cons (ring_s_to_ns (shm d')) = sh_prod (ring_s_to_ns (shm d)) \<and> sh_prod (ring_s_to_ns (shm d')) = sh_prod (ring_s_to_ns (shm d)) \<and>
    uni_visible (ns_actors d' k) = uni_content (ns_actors d1 k) \<and> notif_s_to_ns (shm d') = notif_s_to_ns (shm d)"
proof -
  let ?c = "s_to_ns_ring d" and ?sh = "ring_s_to_ns (shm d)"
  let ?fin = "sh_prod ?sh"
  obtain d1 where d1: "handle_all e (uni_visible (s_actors d p)) d = Some d1" "worker_ready k d1"
    using handle_all_total [OF assms(1,2)] by blast
  let ?d2 = "with_s_ring (?c\<lparr>c_cons := ?fin, c_cons_end := ?fin, c_last_published_cons := ?fin\<rparr>)
    (?sh\<lparr>sh_prod_limit := ?fin, sh_cons := ?fin\<rparr>) d1"
  have loop: "message_loop e d = Some (with_s_ring (?c\<lparr>c_cons := ?fin, c_cons_end := ?fin\<rparr>) (?sh\<lparr>sh_prod_limit := ?fin\<rparr>) d1)"
    using message_loop_handles [of e p ?c ?sh d] assms(1,3) d1(1) by (simp add: s_actors_def)
  have "c_last_published_cons ?c = sh_cons ?sh" using assms(3) by (simp add: uni_wf_def s_actors_def Let_def)
  then have commit: "commit_messages (with_s_ring (?c\<lparr>c_cons := ?fin, c_cons_end := ?fin\<rparr>) (?sh\<lparr>sh_prod_limit := ?fin\<rparr>) d1) = ?d2"
    by (auto simp: commit_messages_def consumer_commit_def Let_def with_s_ring_def intro!: uni_consumer.equality uni_shared.equality)
  have d2: "uni_wf 8 (ns_actors ?d2 k)" "smc_wq ?d2" using d1(2) by (simp_all add: worker_ready_def drv_inv_def)
  obtain d' where d': "notify_ns_message e ?d2 = Some d'" "uni_visible (ns_actors d' k) = uni_content (ns_actors ?d2 k)"
    "sessions d' = sessions ?d2" "same_driver ?d2 (d'\<lparr>smc_log := smc_log ?d2\<rparr>)"
    using notify_ns_message_queue [OF d2, of e] by blast
  have "ring_s_to_ns (shm d') = ring_s_to_ns (shm ?d2)" "s_to_ns_ring d' = s_to_ns_ring ?d2"
    using notify_keeps(1) [OF d'(1) d2(2)] d'(4) by (simp_all add: same_driver_def)
  then have "s_actors d' p = \<lparr>rg_producer = p, rg_consumer = ?c\<lparr>c_cons := ?fin, c_cons_end := ?fin, c_last_published_cons := ?fin\<rparr>,
      rg_shared = ?sh\<lparr>sh_prod_limit := ?fin, sh_cons := ?fin\<rparr>\<rparr>" "ring_s_to_ns (shm d') = ?sh\<lparr>sh_prod_limit := ?fin, sh_cons := ?fin\<rparr>"
    by (simp_all add: s_actors_def)
  moreover have "notif_s_to_ns (shm d') = notif_s_to_ns (shm d)"
    using notify_keeps(2) [OF d'(1) d2(2)] handle_all_notif [OF assms(1) _ d1(1)] assms(2) by (simp add: worker_ready_def)
  moreover have "handle_messages e d = Some d'" using loop commit d'(1) by (simp add: handle_messages_def)
  ultimately show ?thesis using d1(1) d'(2,3) by (simp add: uni_visible_def)
qed


subsection \<open>The loop over the signals\<close>

lemma test_single_bit: "n < 32 \<Longrightarrow> (x :: u32) AND push_bit n 1 \<noteq> 0 \<longleftrightarrow> bit x n"
proof -
  assume "n < 32"
  then have "push_bit n (1 :: u32) \<noteq> 0" by (simp add: push_bit_eq_mult flip: unat_eq_0) (simp add: unat_power2_u32)
  then show ?thesis unfolding and_single_bit by simp
qed

lemma signal_posted:
  assumes "calm e" "0 < s_sem (sess d i)"
  shows "handle_s_signal e i d = Some ((upd_sess i (post_event EVENT_PENDING_SIGNAL) d)\<lparr>tick := Suc (tick d)\<rparr>)"
  using assms locked_upd [OF assms(2), of "post_event EVENT_PENDING_SIGNAL"]
  by (simp add: handle_s_signal_def down_calm post_event_def)

definition signal_slot :: "u32 \<Rightarrow> nat \<Rightarrow> pnc_session \<Rightarrow> pnc_session" where
  "signal_slot signals i s = (if bit signals i then post_event EVENT_PENDING_SIGNAL s else s)"

definition post_slot :: "u32 \<Rightarrow> nat \<Rightarrow> pnc_session list \<Rightarrow> pnc_session list" where
  "post_slot signals i ss = ss[i := signal_slot signals i (ss ! i)]"

text \<open>One turn of the loop, at the session in slot \<open>i\<close>.\<close>

lemma signal_turn:
  assumes "calm e" "drv_inv d" "i < REE_MAX_SESSIONS" "0 < s_sem (sess d i)"
  shows "\<exists>t. signal_loop e signals i d =
      (let d1 = d\<lparr>sessions := post_slot signals i (sessions d), tick := t\<rparr>
       in if (i + 1) mod 28 \<noteq> signal_session d then signal_loop e signals ((i + 1) mod 28) d1 else Some d1)"
proof -
  have i: "s_index (sess d i) = of_nat i" "i < 28" "i < length (sessions d)"
    using drv_inv_sess [OF assms(2,3)] assms(2,3) by (simp_all add: session_ok_def drv_inv_def proto_consts)
  have idx: "unat (of_nat i :: u32) = i" using i(2) by (simp add: unsigned_of_nat take_bit_nat_eq_self)
  have test: "signals AND push_bit (unat (s_index (sess d i))) 1 \<noteq> 0 \<longleftrightarrow> bit signals i"
    using test_single_bit [of i signals] i(2) by (simp add: i(1) idx)
  have nxt: "next_session i d1 = (i + 1) mod 28" if "s_index (sess d1 i) = of_nat i" for d1 :: "'a drv_scheme"
    using i(2) that by (simp add: next_session_def proto_consts unat_mod unat_word_ariths idx)
  have step: "\<exists>t. (if signals AND push_bit (unat (s_index (sess d i))) 1 \<noteq> 0 then handle_s_signal e i d else Some d) =
      Some (d\<lparr>sessions := post_slot signals i (sessions d), tick := t\<rparr>)"
  proof (cases "bit signals i")
    case True
    then show ?thesis
      using test signal_posted [OF assms(1,4)] by (intro exI [of _ "Suc (tick d)"]) (simp add: post_slot_def signal_slot_def upd_sess_def sess_def)
  next
    case False
    then show ?thesis
      using test by (intro exI [of _ "tick d"]) (simp add: post_slot_def signal_slot_def)
  qed
  then obtain t where t: "(if signals AND push_bit (unat (s_index (sess d i))) 1 \<noteq> 0 then handle_s_signal e i d else Some d) =
      Some (d\<lparr>sessions := post_slot signals i (sessions d), tick := t\<rparr>)" by blast
  have "next_session i (d\<lparr>sessions := post_slot signals i (sessions d), tick := t\<rparr>) = (i + 1) mod 28"
    by (rule nxt) (use i in \<open>simp add: sess_def post_slot_def signal_slot_def post_event_def\<close>)
  then show ?thesis
    by (subst signal_loop.simps, unfold t) (auto simp: Let_def)
qed

lemma length_post_slot [simp]: "length (post_slot signals i ss) = length ss"
  by (simp add: post_slot_def)

lemma signal_loop_posts:
  assumes "calm e" "drv_inv d" "\<forall>i < 28. 0 < s_sem (sess d i)" "j < 28" "signal_session d = start"
  shows "\<exists>t. signal_loop e signals ((start + j) mod 28) d =
    Some (d\<lparr>sessions := fold (post_slot signals) (map (\<lambda>k. (start + k) mod 28) [j..<28]) (sessions d), tick := t\<rparr>)"
  using assms(2-5)
proof (induction "27 - j" arbitrary: j d)
  case (0 j d)
  then have j: "j = 27" "start < 28" by (auto simp: drv_inv_def proto_consts)
  then have "((start + j) mod 28 + 1) mod 28 = start" by (simp add: mod_simps)
  then show ?case
    using signal_turn [OF assms(1) 0(2), of "(start + j) mod 28" signals] 0(3,5) j(1)
    by (auto simp: Let_def proto_consts)
next
  case (Suc n j d)
  let ?i = "(start + j) mod 28"
  have j: "j < 27" "start < 28" using Suc.hyps(2) Suc.prems by (auto simp: drv_inv_def proto_consts)
  have nx: "(?i + 1) mod 28 = (start + Suc j) mod 28" "(start + Suc j) mod 28 \<noteq> start"
    using j mod_add_inj [of start "Suc j" 28 0] by (auto simp: mod_simps)
  obtain t where t: "signal_loop e signals ?i d = signal_loop e signals ((start + Suc j) mod 28)
      (d\<lparr>sessions := post_slot signals ?i (sessions d), tick := t\<rparr>)"
    using signal_turn [OF assms(1) Suc.prems(1), of ?i signals] Suc.prems(2,4) nx by (auto simp: Let_def proto_consts)
  let ?d = "d\<lparr>sessions := post_slot signals ?i (sessions d), tick := t\<rparr>"
  have slot: "sess ?d i = (if i = ?i then signal_slot signals i (sess d i) else sess d i)" if "i < 28" for i
    using that Suc.prems(1) by (simp add: post_slot_def sess_def drv_inv_def proto_consts)
  have sem: "\<forall>i < 28. 0 < s_sem (sess ?d i)"
    using slot Suc.prems(2) by (simp add: signal_slot_def post_event_def)
  have "drv_inv ?d"
  proof -
    have "drv_inv (upd_sess ?i (signal_slot signals ?i) d)"
    proof (cases "bit signals ?i")
      case True
      then have "signal_slot signals ?i = post_event EVENT_PENDING_SIGNAL" by (simp add: signal_slot_def fun_eq_iff)
      then show ?thesis using Suc.prems(1) by simp
    next
      case False
      then show ?thesis using Suc.prems(1) by (simp add: signal_slot_def upd_sess_id)
    qed
    then show ?thesis by (simp add: drv_inv_def upd_sess_def post_slot_def sess_def)
  qed
  moreover have n: "n = 27 - Suc j" using Suc.hyps(2) by simp
  ultimately obtain t' where "signal_loop e signals ((start + Suc j) mod 28) ?d =
      Some (?d\<lparr>sessions := fold (post_slot signals) (map (\<lambda>k. (start + k) mod 28) [Suc j..<28]) (sessions ?d), tick := t'\<rparr>)"
    using Suc.hyps(1) [of "Suc j" ?d] n sem j Suc.prems(4) by auto
  moreover have "[j..<28] = j # [Suc j..<28]" using j by (simp add: upt_conv_Cons)
  ultimately show ?case using t by auto
qed

lemma fold_post_slot:
  assumes "distinct is" "i < length ss"
  shows "fold (post_slot signals) is ss ! i = (if i \<in> set is then signal_slot signals i (ss ! i) else ss ! i)"
  using assms
proof (induction "is" arbitrary: ss)
  case (Cons k "is")
  then show ?case by (cases "k = i") (auto simp: post_slot_def)
qed simp

lemma all_sessions:
  assumes "start < 28"
  shows "distinct (map (\<lambda>k. (start + k) mod 28) [0..<28])" "set (map (\<lambda>k. (start + k) mod 28) [0..<28]) = {..<28}"
proof -
  have inj: "inj_on (\<lambda>k. (start + k) mod 28) {0..<28}"
    by (rule inj_onI) (metis atLeastLessThan_iff mod_add_inj)
  then show "distinct (map (\<lambda>k. (start + k) mod 28) [0..<28])" by (simp only: distinct_map distinct_upt set_upt simp_thms)
  have "(\<lambda>k. (start + k) mod 28) ` {0..<28} \<subseteq> {..<28}" by auto
  moreover have "card ((\<lambda>k. (start + k) mod 28) ` {0..<28}) = card {..<28 :: nat}" using card_image [OF inj] by simp
  ultimately show "set (map (\<lambda>k. (start + k) mod 28) [0..<28]) = {..<28}"
    by (simp only: set_map set_upt) (rule card_subset_eq, simp_all)
qed

lemma handle_signals_calm:
  assumes "calm e" "worker_ready k d"
  shows "\<exists>ss n t. handle_signals e signals d = Some (d\<lparr>sessions := ss, signal_session := n, tick := t\<rparr>) \<and> n < REE_MAX_SESSIONS \<and>
    length ss = REE_MAX_SESSIONS \<and> (\<forall>i < REE_MAX_SESSIONS. ss ! i = signal_slot signals i (sess d i))"
proof (cases "signals = 0")
  case True
  have "length (sessions d) = REE_MAX_SESSIONS" "signal_session d < REE_MAX_SESSIONS"
    using assms(2) by (simp_all add: worker_ready_def drv_inv_def)
  then show ?thesis
    using True
    by (intro exI [of _ "sessions d"] exI [of _ "signal_session d"] exI [of _ "tick d"])
      (simp add: handle_signals_def signal_slot_def sess_def)
next
  case False
  let ?is = "map (\<lambda>k. (signal_session d + k) mod 28) [0..<28]"
  let ?ss = "fold (post_slot signals) ?is (sessions d)"
  have ready: "drv_inv d" "\<forall>i < 28. 0 < s_sem (sess d i)" "signal_session d < 28" "length (sessions d) = 28"
    using assms(2) by (simp_all add: worker_ready_def drv_inv_def proto_consts)
  obtain t where "signal_loop e signals ((signal_session d + 0) mod 28) d = Some (d\<lparr>sessions := ?ss, tick := t\<rparr>)"
    using signal_loop_posts [OF assms(1) ready(1,2), of 0 "signal_session d" signals] by auto
  then have run: "handle_signals e signals d =
      Some (d\<lparr>sessions := ?ss, signal_session := next_session (signal_session d) (d\<lparr>sessions := ?ss, tick := t\<rparr>), tick := t\<rparr>)"
    using False ready(3) by (simp add: handle_signals_def)
  have "length (fold (post_slot signals) is ss) = length ss" for "is" ss
    by (induction "is" arbitrary: ss) simp_all
  moreover have "\<forall>i < 28. ?ss ! i = signal_slot signals i (sess d i)"
    using fold_post_slot [OF all_sessions(1) [OF ready(3)], of _ "sessions d" signals] all_sessions(2) [OF ready(3)] ready(4)
    by (simp add: sess_def)
  ultimately show ?thesis
    using run next_session_lt ready(4) unfolding REE_MAX_SESSIONS_def
    by (intro exI [of _ ?ss] exI [of _ "next_session (signal_session d) (d\<lparr>sessions := ?ss, tick := t\<rparr>)"] exI [of _ t]) simp
qed


subsection \<open>A run of the worker\<close>

lemma signal_mask_bit: "i < REE_MAX_SESSIONS \<Longrightarrow> bit (n AND SESSIONS_SIGNAL_MASK) i = bit n i"
proof -
  have eq: "SESSIONS_SIGNAL_MASK = mask 28" by (simp add: SESSIONS_SIGNAL_MASK_def mask_eq_exp_minus_1)
  show "i < REE_MAX_SESSIONS \<Longrightarrow> bit (n AND SESSIONS_SIGNAL_MASK) i = bit n i"
    unfolding eq by (simp only: bit_and_iff bit_mask_iff) (simp add: proto_consts)
qed

text \<open>
  What \<open>consumer_commit\<close> answers is not used: a secure world that has asked to be told of free slots in the S-->NS
  ring is not told, unless the handlers have sent something.
\<close>

theorem room_request_ignored:
  assumes "fst (consumer_commit (s_to_ns_ring d) (ring_s_to_ns (shm d)))"
    and "p_prod (ns_to_s_ring d) = p_last_published_prod (ns_to_s_ring d)"
  shows "\<exists>d'. notify_ns_message e (commit_messages d) = Some d' \<and>
    notif_ns_to_s (shm d') = notif_ns_to_s (shm d) \<and> smc_log d' = smc_log d"
  using assms(2) by (simp add: notify_ns_message_def commit_messages_def producer_commit_def split_beta Let_def)

text \<open>
  C11. With signals and messages pending, the worker returns. The notification register is taken; exactly the sessions whose
  bits are set have got their signal event; then all messages that the secure world had published are handled, each once and
  in order, whichever sessions they name; the S-->NS ring is left empty with the consumption published, and the
  answers of the handlers are visible to the secure world.
\<close>

theorem worker_serves_notification:
  assumes "calm e" "worker_ready k d" "pnc_shm_ready d" "uni_wf 8 (s_actors d p)"
    and "notif_s_to_ns (shm d) AND E_RESET = 0" "notif_s_to_ns (shm d) AND E_MESSAGE \<noteq> 0"
  shows "\<exists>d1 d2 d'. handle_s_notification e stack d = Some d' \<and> notif_s_to_ns (shm d') = 0 \<and>
    (\<forall>i. i < REE_MAX_SESSIONS \<longrightarrow>
      sess d1 i = (if bit (notif_s_to_ns (shm d)) i then post_event EVENT_PENDING_SIGNAL (sess d i) else sess d i)) \<and>
    handle_all e (uni_visible (s_actors d p)) d1 = Some d2 \<and> sessions d' = sessions d2 \<and>
    uni_visible (s_actors d' p) = [] \<and> sh_cons (ring_s_to_ns (shm d')) = sh_prod (ring_s_to_ns (shm d)) \<and>
    ns_actors d1 k = ns_actors d k \<and> uni_visible (ns_actors d' k) = uni_content (ns_actors d2 k)"
proof -
  let ?n = "notif_s_to_ns (shm d)"
  let ?d0 = "d\<lparr>work_pending := False, shm := (shm d)\<lparr>notif_s_to_ns := 0\<rparr>\<rparr>"
  have frame: "sess ?d0 i = sess d i" "ns_actors ?d0 k = ns_actors d k" "s_actors ?d0 p = s_actors d p" for i
    by (simp_all add: sess_def ns_actors_def s_actors_def)
  have "drv_inv ?d0" using assms(2) by (simp add: worker_ready_def drv_inv_def)
  then have ready0: "worker_ready k ?d0" using assms(2) frame by (simp add: worker_ready_def)
  obtain ss n t where d1: "handle_signals e (?n AND SESSIONS_SIGNAL_MASK) ?d0 = Some (?d0\<lparr>sessions := ss, signal_session := n, tick := t\<rparr>)"
    "n < REE_MAX_SESSIONS" "length ss = REE_MAX_SESSIONS"
    "\<forall>i < REE_MAX_SESSIONS. ss ! i = signal_slot (?n AND SESSIONS_SIGNAL_MASK) i (sess ?d0 i)"
    using handle_signals_calm [OF assms(1) ready0] by blast
  let ?d1 = "?d0\<lparr>sessions := ss, signal_session := n, tick := t\<rparr>"
  have slots: "sess ?d1 i = signal_slot ?n i (sess d i)" if "i < REE_MAX_SESSIONS" for i
    using d1(4) that by (simp add: signal_slot_def signal_mask_bit sess_def)
  have ready1: "worker_ready k ?d1"
  proof -
    have ok: "session_ok i (sess ?d1 i)" if "i < REE_MAX_SESSIONS" for i
      unfolding slots [OF that] signal_slot_def
      using drv_inv_sess [of d i] that assms(2) by (simp add: worker_ready_def session_ok_post proto_consts)
    have sems: "\<forall>i < REE_MAX_SESSIONS. 0 < s_sem (sess ?d1 i)"
      using slots assms(2) by (simp add: worker_ready_def signal_slot_def post_event_def)
    have "drv_inv ?d1" using ready0 d1(2,3) ok by (simp add: worker_ready_def drv_inv_def sess_def)
    then show ?thesis using sems assms(2) by (simp add: worker_ready_def ns_actors_def)
  qed
  have actors: "s_actors ?d1 p = s_actors d p" "ns_actors ?d1 k = ns_actors d k"
    by (simp_all add: s_actors_def ns_actors_def)
  obtain d2 d' where run: "handle_all e (uni_visible (s_actors d p)) ?d1 = Some d2" "handle_messages e ?d1 = Some d'"
    "sessions d' = sessions d2" "uni_visible (s_actors d' p) = []" "sh_cons (ring_s_to_ns (shm d')) = sh_prod (ring_s_to_ns (shm ?d1))"
    "uni_visible (ns_actors d' k) = uni_content (ns_actors d2 k)" "notif_s_to_ns (shm d') = notif_s_to_ns (shm ?d1)"
    using handle_messages_calm [OF assms(1) ready1, of p] assms(4) unfolding actors(1) by blast
  have "handle_s_notification e stack d = Some d'"
    using assms(3,5,6) d1(1) run(2) by (simp add: handle_s_notification_def pnc_shm_ready_def Let_def split: if_splits)
  then show ?thesis
    using run slots actors(2) by (intro exI [of _ ?d1] exI [of _ d2] exI [of _ d']) (simp add: signal_slot_def)
qed

end
