(* ===== verification/PncRequests.thy ===== *)
theory PncRequests
  imports PncCalls
begin

text \<open>
  The server's side of the exchange of requests, and the cancellation of a request that races with its response.
\<close>

subsection \<open>A request of the secure world\<close>

definition response_message :: "nat \<Rightarrow> u32 \<Rightarrow> pnc_message" where
  "response_message i x =
     \<lparr>msg_p0 = 0, msg_p1 = x, msg_p2 = 0, msg_index = of_nat i, msg_action = action_code A_RESPONSE\<rparr>"

lemma slot_of_message:
  assumes "drv_inv d" "configured d i" "msg_index m = of_nat i"
  shows "i < REE_MAX_SESSIONS" "unat (msg_index m) = i" "i < length (sessions d)" "0 < s_sem (sess d i)"
    "s_index (sess d i) = of_nat i"
  using assms drv_inv_sess [of d i]
  by (simp_all add: configured_def drv_inv_def session_ok_def proto_consts unsigned_of_nat take_bit_nat_eq_self)

lemma handle_request_calm:
  assumes "calm e" "drv_inv d" "configured d i" "s_server (sess d i) = S_IDLE"
    and "msg_index m = of_nat i" "msg_action m = action_code A_REQUEST"
  shows "handle_s_message e m d =
    Some ((upd_sess i (\<lambda>s. (post_event EVENT_PENDING_REQUEST (s\<lparr>s_server_message := m\<rparr>))
      \<lparr>s_server := S_NOTIFIED\<rparr>) d)\<lparr>tick := Suc (tick d)\<rparr>)"
proof -
  note slot = slot_of_message [OF assms(2,3,5)]
  have act: "action_of_code (msg_action m) = Some A_REQUEST"
    unfolding assms(6) by (rule action_roundtrip)
  show ?thesis
    using assms(1-5) act slot locked_upd [OF slot(4), of "\<lambda>s. (post_event EVENT_PENDING_REQUEST (s\<lparr>s_server_message := m\<rparr>))
      \<lparr>s_server := S_NOTIFIED\<rparr>"]
    by (auto simp: handle_s_message_def down_calm dispatch_message_def handle_s_request_def configured_def
        post_event_def Let_def)
qed

lemma get_request_calm:
  assumes "calm e" "drv_inv d" "configured d i" "s_server (sess d i) = S_NOTIFIED"
  shows "pnc_session_get_request e i True d =
    Some (0, Some (msg_p1 (s_server_message (sess d i))),
      (upd_sess i (\<lambda>s. clear_event EVENT_PENDING_REQUEST (s\<lparr>s_server_message := zero_message, s_server := S_BUSY\<rparr>)) d)
        \<lparr>tick := Suc (Suc (tick d))\<rparr>)"
proof -
  have i: "i < length (sessions d)" and lk: "0 < s_sem (sess d i)"
    using assms(2,3) by (simp_all add: configured_def drv_inv_def)
  show ?thesis
    using assms i lk locked_upd [OF lk, of "\<lambda>s. clear_event EVENT_PENDING_REQUEST (s\<lparr>s_server_message := zero_message, s_server := S_BUSY\<rparr>)"]
    by (simp add: pnc_session_get_request_def check_calm down_calm clear_event_def Let_def)
qed

lemma send_response_calm:
  assumes "calm e" "drv_inv d" "configured d i" "s_server (sess d i) = S_BUSY"
    and "uni_wf 8 (ns_actors d c)"
  shows "\<exists>d'. pnc_session_send_response e i x d = Some (0, d') \<and>
    sess d' i = (sess d i)\<lparr>s_server := S_IDLE\<rparr> \<and> (\<forall>j. j \<noteq> i \<longrightarrow> sess d' j = sess d j) \<and> configured d' i \<and>
    uni_visible (ns_actors d' c) =
      uni_content (ns_actors d c) @ (if ns_full d then [] else [response_message i x])"
proof -
  have i: "i < REE_MAX_SESSIONS" and sem: "0 < s_sem (sess d i)" using assms(3) by (simp_all add: configured_def)
  have idx: "s_index (sess d i) = of_nat i" using drv_inv_sess [OF assms(2) i] by (simp add: session_ok_def)
  have len: "i < length (sessions d)" using assms(2) i by (simp add: drv_inv_def)
  let ?d1 = "d\<lparr>tick := Suc (tick d)\<rparr>"
  let ?u = "upd_sem i (\<lambda>n. n - 1) ?d1"
  have msg: "(new_message (s_index (sess ?u i)) A_RESPONSE)\<lparr>msg_p1 := x\<rparr> = response_message i x"
    using new_message_index [OF i idx, of A_RESPONSE] len by (simp add: response_message_def zero_message_def)
  have server: "s_server (sess ?u i) = S_BUSY" using assms(4) len by simp
  have run: "pnc_session_send_response e i x d =
      do { d \<leftarrow> notify_ns_message e (up_session i (upd_sess i (s_server_update (\<lambda>_. S_IDLE))
             (write_ns_message e (response_message i x) (?u\<lparr>tick := Suc (Suc (tick d))\<rparr>))));
           Some (0, d) }"
    using assms(1-3) sem server len msg
    by (simp add: pnc_session_send_response_def check_calm down_calm Let_def)
  obtain d' where d': "notify_ns_message e (up_session i (upd_sess i (s_server_update (\<lambda>_. S_IDLE))
        (write_ns_message e (response_message i x) (?u\<lparr>tick := Suc (Suc (tick d))\<rparr>)))) = Some d'"
    "sess d' i = (sess d i)\<lparr>s_server := S_IDLE\<rparr>" "\<forall>j. j \<noteq> i \<longrightarrow> sess d' j = sess d j"
    "same_driver (d\<lparr>tick := Suc (Suc (tick d))\<rparr>) (d'\<lparr>smc_log := smc_log d\<rparr>)" "shm_hdr (shm d') = shm_hdr (shm d)"
    "uni_visible (ns_actors d' c) = uni_content (ns_actors d c) @ (if ns_full d then [] else [response_message i x])"
    using send_calm [of e ?d1 i c "s_server_update (\<lambda>_. S_IDLE)" "response_message i x" "Suc (Suc (tick d))"]
      assms sem i by (auto simp: ns_full_def)
  have "configured d' i" using assms(3) d'(2,4,5) configured_cong [of d' d i] by (simp add: same_driver_def)
  then show ?thesis using run d' by auto
qed

text \<open>
  C13. A request of the secure world is served: the worker hands it to the idle server of the session, the user of the session
  gets its value, and the response that the user sends is what the secure world finds in the ring, after
  what was there before. The server is idle again, with no request event left.
\<close>

theorem request_served:
  assumes "calm e" "drv_inv d" "configured d i" "s_server (sess d i) = S_IDLE"
    and "uni_wf 8 (ns_actors d c)" "\<not> ns_full d"
    and "msg_index m = of_nat i" "msg_action m = action_code A_REQUEST"
  shows "\<exists>d1 d2 d3. handle_s_message e m d = Some d1 \<and> s_event_pending (sess d1 i) AND EVENT_PENDING_REQUEST \<noteq> 0 \<and>
    pnc_session_get_request e i True d1 = Some (0, Some (msg_p1 m), d2) \<and>
    pnc_session_send_response e i x d2 = Some (0, d3) \<and>
    uni_visible (ns_actors d3 c) = uni_content (ns_actors d c) @ [response_message i x] \<and>
    configured d3 i \<and> s_server (sess d3 i) = S_IDLE \<and> s_event_pending (sess d3 i) AND EVENT_PENDING_REQUEST = 0"
proof -
  let ?post = "\<lambda>s. (post_event EVENT_PENDING_REQUEST (s\<lparr>s_server_message := m\<rparr>))\<lparr>s_server := S_NOTIFIED\<rparr>"
  let ?take = "\<lambda>s. clear_event EVENT_PENDING_REQUEST (s\<lparr>s_server_message := zero_message, s_server := S_BUSY\<rparr>)"
  let ?d1 = "(upd_sess i ?post d)\<lparr>tick := Suc (tick d)\<rparr>"
  let ?d2 = "(upd_sess i ?take ?d1)\<lparr>tick := Suc (Suc (tick ?d1))\<rparr>"
  have len: "i < length (sessions d)" using assms(2,3) by (simp add: configured_def drv_inv_def)
  have h: "handle_s_message e m d = Some ?d1" by (rule handle_request_calm [OF assms(1-4,7,8)])
  have s1: "sess ?d1 i = ?post (sess d i)" "sess ?d2 i = ?take (?post (sess d i))" using len by simp_all
  have d1: "drv_inv ?d1" "configured ?d1 i"
    using assms(2,3) s1(1) configured_cong [of ?d1 d i] by (simp, simp add: post_event_def)
  have g: "pnc_session_get_request e i True ?d1 = Some (0, Some (msg_p1 m), ?d2)"
    using get_request_calm [OF assms(1) d1] s1(1) by (simp add: post_event_def)
  have "drv_inv ?d2" unfolding drv_inv_tick by (rule drv_inv_upd_sess [OF d1(1)]) (simp add: slot_ok)
  moreover have "configured ?d2 i"
    using d1(2) s1 configured_cong [of ?d2 ?d1 i] by (simp add: clear_event_def post_event_def)
  ultimately obtain d3 where d3: "pnc_session_send_response e i x ?d2 = Some (0, d3)"
    "sess d3 i = (sess ?d2 i)\<lparr>s_server := S_IDLE\<rparr>" "configured d3 i"
    "uni_visible (ns_actors d3 c) = uni_content (ns_actors ?d2 c) @ (if ns_full ?d2 then [] else [response_message i x])"
    using send_response_calm [OF assms(1), of ?d2 i c x] s1(2) assms(5) by (auto simp: clear_event_def)
  have "s_event_pending (sess ?d1 i) AND EVENT_PENDING_REQUEST \<noteq> 0"
    unfolding s1(1) by (simp add: post_event_def bit.conj_disj_distrib2 or_eq_0_iff proto_consts)
  moreover have "s_server (sess d3 i) = S_IDLE" "s_event_pending (sess d3 i) AND EVENT_PENDING_REQUEST = 0"
    unfolding d3(2) s1(2) by (simp_all add: clear_event_def and.assoc)
  moreover have "ns_actors ?d2 c = ns_actors d c" "ns_full ?d2 = ns_full d" by (simp_all add: ns_full_def)
  ultimately show ?thesis using h g d3 assms(6) by auto
qed


subsection \<open>Cancellation\<close>

text \<open>The others do nothing at the sleeping point the thread is at.\<close>

definition alone :: "('a drv_scheme, 'b) drv_env_scheme \<Rightarrow> 'a drv_scheme \<Rightarrow> bool" where
  "alone e d \<longleftrightarrow> (\<forall>d'. tick d' = tick d \<longrightarrow> others e (tick d) d' = d')"

lemma down_alone:
  assumes "alone e d" "0 < s_sem (sess d i)"
  shows "down_session_interruptible e i d = Some (0, (upd_sem i (\<lambda>n. n - 1) d)\<lparr>tick := Suc (tick d)\<rparr>)"
  using assms by (simp add: alone_def down_session_interruptible_def down_interruptible_def yield_def upd_sem_def Let_def)

lemma check_alone:
  assumes "alone e d" "drv_inv d" "configured d i"
  shows "check_session_configured e i d = Some (0, d\<lparr>tick := Suc (tick d)\<rparr>)"
proof -
  have "s_index (sess d i) = of_nat i" "i < 28" "i < length (sessions d)"
    using assms drv_inv_sess [of d i]
    by (simp_all add: configured_def session_ok_def drv_inv_def proto_consts)
  moreover from this have "\<not> (28 :: u32) \<le> of_nat i" by (simp add: word_le_nat_alt)
  ultimately show ?thesis
    using assms
    by (simp add: check_session_configured_def down_alone configured_def upd_sem_def Let_def proto_consts)
       (simp add: up_session_def upd_sem_def upd_sess_id)
qed

text \<open>What the worker makes of the acknowledgement or of the response of a client that has cancelled.\<close>

lemma handle_answer_calm:
  assumes "calm e" "drv_inv d" "configured d i" "s_client (sess d i) = S_CANCEL_WAITING"
    and "msg_index m = of_nat i" "msg_action m = action_code a" "a \<in> {A_CANCEL_ACK, A_RESPONSE}"
  shows "handle_s_message e m d =
    Some ((upd_sess i (\<lambda>s. (post_event EVENT_PENDING_RESPONSE (s\<lparr>s_client_message := m\<rparr>))
      \<lparr>s_client := S_NOTIFIED\<rparr>) d)\<lparr>tick := Suc (tick d)\<rparr>)"
proof (cases "a = A_RESPONSE")
  case True
  then show ?thesis using handle_response_calm [OF assms(1-3) _ assms(5)] assms(4,6) by simp
next
  case False
  note slot = slot_of_message [OF assms(2,3,5)]
  have act: "action_of_code (msg_action m) = Some A_CANCEL_ACK"
    using assms(6,7) False action_roundtrip [of A_CANCEL_ACK] by simp
  show ?thesis
    using assms(1-5) act slot locked_upd [OF slot(4), of "\<lambda>s. (post_event EVENT_PENDING_RESPONSE (s\<lparr>s_client_message := m\<rparr>))
      \<lparr>s_client := S_NOTIFIED\<rparr>"]
    by (auto simp: handle_s_message_def down_calm dispatch_message_def handle_s_cancel_ack_def configured_def
        post_event_def Let_def)
qed

definition cancel_result :: "session_action \<Rightarrow> pnc_message \<Rightarrow> int \<times> u32 option" where
  "cancel_result a m =
     (if a = A_CANCEL_ACK then (int_of_u32 REQUEST_CANCEL_OK, None) else (int_of_u32 REQUEST_CANCEL_RESPONSE, Some (msg_p1 m)))"

definition answered :: "pnc_message \<Rightarrow> pnc_session \<Rightarrow> pnc_session" where
  "answered m s = (post_event EVENT_PENDING_RESPONSE (s\<lparr>s_client_message := m\<rparr>))\<lparr>s_client := S_NOTIFIED\<rparr>"

lemma answered_sel [simp]:
  "s_sem (answered m s) = s_sem s" "s_free (answered m s) = s_free s" "s_global (answered m s) = s_global s"
  "s_client (answered m s) = S_NOTIFIED" "s_client_message (answered m s) = m"
  by (simp_all add: answered_def post_event_def)

lemma clear_event_sel [simp]:
  "s_sem (clear_event b s) = s_sem s" "s_free (clear_event b s) = s_free s" "s_global (clear_event b s) = s_global s"
  "s_client (clear_event b s) = s_client s" "s_client_message (clear_event b s) = s_client_message s"
  by (simp_all add: clear_event_def)

text \<open>The wait for the answer, when the worker handles it while the thread sleeps.\<close>

lemma wait_answered:
  assumes "yield e d = (upd_sess i (answered m) d)\<lparr>tick := Suc (tick d)\<rparr>" "alone e (d\<lparr>tick := Suc (tick d)\<rparr>)"
    and "configured d i" "i < length (sessions d)" "s_event_pending (sess d i) AND EVENT_PENDING_RESPONSE = 0"
  shows "\<exists>events. wait_session_event e i EVENT_PENDING_RESPONSE 0 d =
    Some (0, Some events, (upd_sess i (clear_event EVENT_PENDING_RESPONSE \<circ> answered m) d)\<lparr>tick := Suc (Suc (tick d))\<rparr>)"
proof -
  let ?d1 = "(upd_sess i (answered m) d)\<lparr>tick := Suc (tick d)\<rparr>"
  have sem: "0 < s_sem (sess (upd_sess i (answered m) d) i)" and conf: "s_global (sess d i) = S_CONFIGURED"
    using assms(3,4) by (simp_all add: configured_def)
  have pending: "s_event_pending (sess ?d1 i) AND EVENT_PENDING_RESPONSE \<noteq> 0"
    using assms(4) by (simp add: answered_def post_event_def bit.conj_disj_distrib2 or_eq_0_iff proto_consts)
  have mask: "EVENT_PENDING_RESPONSE AND EVENT_PENDING_ALL = EVENT_PENDING_RESPONSE" by (simp add: proto_consts)
  have wake: "wait_event_interruptible e None (\<lambda>d. s_event_pending (sess d i) AND EVENT_PENDING_RESPONSE \<noteq> 0) d = Some (0, ?d1)"
    using assms(1,5) pending by (simp add: wait_event_interruptible_def Let_def)
  have down: "down_session_interruptible e i ?d1 = Some (0, (upd_sem i (\<lambda>n. n - 1) ?d1)\<lparr>tick := Suc (Suc (tick d))\<rparr>)"
    using down_alone [of e ?d1 i] assms(2) sem by (simp add: alone_def)
  have up: "up_session i (upd_sess i (clear_event EVENT_PENDING_RESPONSE) (upd_sem i (\<lambda>n. n - Suc 0) (upd_sess i (answered m) d))) =
      upd_sess i (clear_event EVENT_PENDING_RESPONSE) (upd_sess i (answered m) d)"
    by (rule locked_upd [OF sem]) (simp add: clear_event_def)
  show ?thesis
    unfolding wait_session_event_def mask Let_def
    using wake down up conf assms(4) by (simp add: check_and_handle_terminated_session_def)
qed

lemma cancel_wait_answered:
  assumes "calm e0" "drv_inv d" "configured d i" "s_client (sess d i) = S_CANCEL_WAITING"
    and "s_event_pending (sess d i) AND EVENT_PENDING_RESPONSE = 0"
    and "msg_index m = of_nat i" "msg_action m = action_code a" "a \<in> {A_CANCEL_ACK, A_RESPONSE}"
    and "\<And>n d'. others e n d' = (if n = tick d then the (handle_s_message e0 m d') else d')"
  shows "\<exists>d'. cancel_wait e i 0 d = Some (fst (cancel_result a m), snd (cancel_result a m), d') \<and>
    s_client (sess d' i) = S_IDLE \<and> s_event_pending (sess d' i) AND EVENT_PENDING_RESPONSE = 0 \<and> configured d' i \<and>
    ns_actors d' c = ns_actors d c"
proof -
  let ?t = "tick d" and ?idle = "\<lambda>s. s\<lparr>s_client_message := zero_message, s_client := S_IDLE\<rparr>"
  let ?u = "upd_sess i (clear_event EVENT_PENDING_RESPONSE \<circ> answered m) d"
  let ?d3 = "(upd_sess i ?idle ?u)\<lparr>tick := Suc (Suc (Suc ?t))\<rparr>"
  have len: "i < length (sessions d)" using assms(2,3) by (simp add: configured_def drv_inv_def)
  have sem: "0 < s_sem (sess ?u i)" using assms(3) len by (simp add: configured_def)
  have alone: "alone e d'" if "tick d' \<noteq> ?t" for d' using that assms(9) by (simp add: alone_def)
  have "yield e d = (upd_sess i (answered m) d)\<lparr>tick := Suc ?t\<rparr>"
    using handle_answer_calm [OF assms(1-4,6-8)] assms(9) by (simp add: yield_def answered_def [abs_def])
  then obtain events where wait: "wait_session_event e i EVENT_PENDING_RESPONSE 0 d = Some (0, Some events, ?u\<lparr>tick := Suc (Suc ?t)\<rparr>)"
    using wait_answered [of e d i m] alone assms(3,5) len by auto
  have down: "down_session_interruptible e i (?u\<lparr>tick := Suc (Suc ?t)\<rparr>) =
      Some (0, (upd_sem i (\<lambda>n. n - 1) ?u)\<lparr>tick := Suc (Suc (Suc ?t))\<rparr>)"
    using down_alone [OF alone, of "?u\<lparr>tick := Suc (Suc ?t)\<rparr>" i] sem by simp
  have up: "up_session i (upd_sess i ?idle (upd_sem i (\<lambda>n. n - Suc 0) ?u)) = upd_sess i ?idle ?u"
    by (rule locked_upd [OF sem]) simp
  have action: "msg_action m = action_code A_CANCEL_ACK \<longleftrightarrow> a = A_CANCEL_ACK" using assms(7,8) by auto
  have "cancel_wait e i 0 d = Some (fst (cancel_result a m), snd (cancel_result a m), ?d3)"
    using wait down up action len by (simp add: cancel_wait_def cancel_result_def Let_def)
  moreover have "s_client (sess ?d3 i) = S_IDLE" "s_event_pending (sess ?d3 i) AND EVENT_PENDING_RESPONSE = 0"
    using len by (simp_all add: clear_event_def and.assoc)
  moreover have "configured ?d3 i" using assms(3) len configured_cong [of ?d3 d i] by simp
  moreover have "ns_actors ?d3 c = ns_actors d c" by simp
  ultimately show ?thesis by blast
qed

definition cancel_message :: "nat \<Rightarrow> pnc_message" where
  "cancel_message i = zero_message\<lparr>msg_index := of_nat i, msg_action := action_code A_CANCEL\<rparr>"

text \<open>The cancellation is sent with the semaphore of the session held, which is given back afterwards.\<close>

lemma cancel_sent:
  assumes "drv_inv d" "configured d i" "uni_wf 8 (ns_actors d c)" "\<not> ns_full d" "ring_peer e t = id"
  defines "u \<equiv> (upd_sem i (\<lambda>n. n - 1) d)\<lparr>tick := t\<rparr>"
  defines "w \<equiv> upd_sess i (s_client_update (\<lambda>_. S_CANCEL_WAITING)) (write_ns_message e (cancel_message i) u)"
  shows "\<exists>n. notify_ns_message e w = Some n \<and> s_client (sess n i) = S_CANCEL_WAITING \<and>
    sess (up_session i n) i = (sess d i)\<lparr>s_client := S_CANCEL_WAITING\<rparr> \<and> tick (up_session i n) = t \<and>
    uni_visible (ns_actors (up_session i n) c) = uni_content (ns_actors d c) @ [cancel_message i] \<and>
    drv_inv (up_session i n) \<and> configured (up_session i n) i"
proof -
  have slot: "i < length (sessions d)" "0 < s_sem (sess d i)"
    using assms(1,2) by (simp_all add: configured_def drv_inv_def)
  have u: "uni_wf 8 (ns_actors u c)" "ns_full u = ns_full d" "uni_content (ns_actors u c) = uni_content (ns_actors d c)"
    "ring_peer e (tick u) = id"
    using assms(3,5) by (simp_all add: u_def ns_full_def upd_sem_def)
  note q = write_ns_message_queue [OF u(1,4)]
  have w: "drv_inv w" using assms(1) by (simp add: w_def u_def)
  then have "smc_wq w" by (simp only: drv_inv_def)
  then obtain n where n: "notify_ns_message e w = Some n" "uni_visible (ns_actors n c) = uni_content (ns_actors d c) @ [cancel_message i]"
    "sessions n = sessions w" "same_driver w (n\<lparr>smc_log := smc_log w\<rparr>)" "shm_hdr (shm n) = shm_hdr (shm w)"
    using notify_ns_message_queue [of w c e] q [of "cancel_message i"] u(2,3) assms(4) by (auto simp: w_def)
  have len: "i < length (sessions n)" "sess n i = (s_sem_update (\<lambda>n. n - 1) (sess d i))\<lparr>s_client := S_CANCEL_WAITING\<rparr>"
    using n(3) slot(1) by (simp_all add: w_def u_def sess_def upd_sess_def upd_sem_def write_ns_message_def split_beta Let_def)
  have same: "tick n = t" "session_ready n = session_ready d" "shm_base n = shm_base d" "shm_hdr (shm n) = shm_hdr (shm d)"
    using n(4,5) by (simp_all add: w_def u_def same_driver_def write_ns_message_def upd_sess_def upd_sem_def split_beta Let_def)
  have sn: "sess (up_session i n) i = (sess d i)\<lparr>s_client := S_CANCEL_WAITING\<rparr>" "tick (up_session i n) = t"
    "ns_actors (up_session i n) c = ns_actors n c"
    using len slot(2) same(1) by (simp_all add: up_session_def upd_sem_def)
  have "wlp (notify_ns_message e w) drv_inv" using w by (intro wlp_notify_ns_message) auto
  then have "drv_inv (up_session i n)" using n(1) by simp
  moreover have "configured (up_session i n) i"
    using assms(2) sn(1) same by (simp add: configured_def pnc_shm_ready_def up_session_def upd_sem_def split: if_splits)
  ultimately show ?thesis using n(1,2) sn len(2) by simp
qed

text \<open>
  C17. A cancellation resolves whichever way the race goes. A client that waits for its response cancels; the secure
  world finds the cancellation in the ring; while the thread sleeps the worker handles either the acknowledgement or
  the response, which was under way. The call returns the code for what happened, with the value of the response in the second case,
  and the client is idle, with no event left of either.
\<close>

theorem cancel_resolves:
  assumes "calm e0" "drv_inv d" "configured d i" "s_client (sess d i) = S_WAITING"
    and "s_event_pending (sess d i) AND EVENT_PENDING_RESPONSE = 0" "uni_wf 8 (ns_actors d c)" "\<not> ns_full d"
    and "msg_index m = of_nat i" "msg_action m = action_code a" "a \<in> {A_CANCEL_ACK, A_RESPONSE}"
    and "\<And>n d'. others e n d' = (if n = tick d + 2 then the (handle_s_message e0 m d') else d')"
    and "\<And>n. ring_peer e n = id"
  shows "\<exists>d'. pnc_session_cancel_request e i True 0 d = Some (fst (cancel_result a m), snd (cancel_result a m), d') \<and>
    uni_visible (ns_actors d' c) = uni_content (ns_actors d c) @ [cancel_message i] \<and> configured d' i \<and>
    s_client (sess d' i) = S_IDLE \<and> s_event_pending (sess d' i) AND EVENT_PENDING_RESPONSE = 0"
proof -
  let ?u = "(upd_sem i (\<lambda>n. n - 1) d)\<lparr>tick := tick d + 2\<rparr>"
  let ?w = "upd_sess i (s_client_update (\<lambda>_. S_CANCEL_WAITING)) (write_ns_message e (cancel_message i) ?u)"
  note slot = slot_of_message [OF assms(2,3,8)]
  have alone: "alone e d'" if "tick d' \<noteq> tick d + 2" for d' using that assms(11) by (simp add: alone_def)
  have check: "check_session_configured e i d = Some (0, d\<lparr>tick := Suc (tick d)\<rparr>)"
    by (rule check_alone [OF alone assms(2,3)]) simp
  have down: "down_session_interruptible e i (d\<lparr>tick := Suc (tick d)\<rparr>) = Some (0, ?u)"
    using down_alone [OF alone, of "d\<lparr>tick := Suc (tick d)\<rparr>" i] slot(4) by simp
  have u: "s_client (sess ?u i) = S_WAITING" "new_message (s_index (sess ?u i)) A_CANCEL = cancel_message i"
    using assms(4) slot new_message_index [OF slot(1), of "sess ?u i" A_CANCEL] by (simp_all add: cancel_message_def)
  obtain n where n: "notify_ns_message e ?w = Some n" "s_client (sess n i) = S_CANCEL_WAITING"
    "sess (up_session i n) i = (sess d i)\<lparr>s_client := S_CANCEL_WAITING\<rparr>" "tick (up_session i n) = tick d + 2"
    "uni_visible (ns_actors (up_session i n) c) = uni_content (ns_actors d c) @ [cancel_message i]"
    "drv_inv (up_session i n)" "configured (up_session i n) i"
    using cancel_sent [OF assms(2,3,6,7,12), of "tick d + 2"] by auto
  obtain d' where d': "cancel_wait e i 0 (up_session i n) = Some (fst (cancel_result a m), snd (cancel_result a m), d')"
    "s_client (sess d' i) = S_IDLE" "s_event_pending (sess d' i) AND EVENT_PENDING_RESPONSE = 0" "configured d' i"
    "ns_actors d' c = ns_actors (up_session i n) c"
    using cancel_wait_answered [OF assms(1) n(6,7), of m a e c] n(3,4) assms(5,8-11) by auto
  have "pnc_session_cancel_request e i True 0 d = cancel_wait e i 0 (up_session i n)"
    using check down u n(1,2) by (simp add: pnc_session_cancel_request_def Let_def)
  then show ?thesis using d' n(5) by auto
qed

end
