(* ===== verification/PncExamples.thy ===== *)
theory PncExamples
  imports PncWorker PncRequests
begin

text \<open>
  A concrete driver and allocator state, in a quiet environment, on which the theorems of the framework are applied:
  each shows that the hypotheses of its theorem hold together.
\<close>

subsection \<open>A concrete driver\<close>

text \<open>
  Session 0 is configured with the memory of block 1, session 1 is open, session 2 has received a request, session
  3 waits for the acknowledgement of its configuration, and the others are free.
\<close>

definition quiet_drv_env :: "'s drv_env" where
  "quiet_drv_env = smc_env.extend quiet_smc_env \<lparr>ring_peer = (\<lambda>n. id), hz = 100\<rparr>"

lemma quiet_drv_env_simps [simp]:
  "others quiet_drv_env n d = d" "intr quiet_drv_env n = False" "ring_peer quiet_drv_env n = id"
  "hz quiet_drv_env = 100" "cpu quiet_drv_env n = 1"
  by (simp_all add: quiet_drv_env_def quiet_smc_env_def quiet_env_def smc_env.defs env.defs)

lemma quiet_drv_env_calm [simp]: "calm quiet_drv_env" "env_keeps P quiet_drv_env"
  by (simp_all add: calm_def env_keeps_def)

definition example_session :: "nat \<Rightarrow> pnc_session" where
  "example_session i =
     (let s = (initial_session i)\<lparr>s_free := False\<rparr>
      in if i = 0 then s\<lparr>s_mem := Some 1, s_global := S_CONFIGURED, s_server := S_IDLE, s_client := S_IDLE\<rparr>
         else if i = 1 then s
         else if i = 2 then s\<lparr>s_global := S_CONFIGURED, s_server := S_NOTIFIED, s_client := S_IDLE,
             s_event_pending := EVENT_PENDING_REQUEST\<rparr>
         else if i = 3 then s\<lparr>s_global := S_CONFIG_WAITING\<rparr>
         else initial_session i)"

definition drv_example :: drv where
  "drv_example = shm_state.extend (shm_example\<lparr>shm := zero_shm
       \<lparr>shm_hdr := \<lparr>hdr_magic = REE_MAGIC_2, hdr_version = 0x302, hdr_reserved_pages = 3,
          hdr_max_sessions = 28, hdr_rfu = 0\<rparr>,
        ring_ns_to_s := rg_shared (uni_initial 8 (replicate 256 zero_message)),
        ring_s_to_ns := rg_shared (uni_initial 8 (replicate 256 zero_message))\<rparr>\<rparr>)
     \<lparr>session_ready = True, session_waitq = 1, sessions = map example_session [0..<28],
      ns_to_s_ring = \<lparr>p_capacity = 256, p_prod = 0, p_last_published_prod = 0, p_prod_end = 256\<rparr>,
      s_to_ns_ring = \<lparr>c_capacity = 256, c_cons = 0, c_last_published_cons = 0, c_cons_end = 0\<rparr>,
      signal_session = 0, ree_version = 0x302, work_pending = False, memory = (\<lambda>a. 0)\<rparr>"

lemma drv_example_fields [simp]:
  "tick drv_example = 0" "smc_wq drv_example" "smc_log drv_example = []" "shm_base drv_example = 0x1000"
  "shm_nr_pages drv_example = 100" "shm_sem drv_example = 1" "heap drv_example = heap shm_example"
  "blocks drv_example = Some 1" "session_ready drv_example" "sessions drv_example = map example_session [0..<28]"
  "ns_to_s_ring drv_example = \<lparr>p_capacity = 256, p_prod = 0, p_last_published_prod = 0, p_prod_end = 256\<rparr>"
  "s_to_ns_ring drv_example = \<lparr>c_capacity = 256, c_cons = 0, c_last_published_cons = 0, c_cons_end = 0\<rparr>"
  "signal_session drv_example = 0" "ree_version drv_example = 0x302"
  "hdr_magic (shm_hdr (shm drv_example)) = REE_MAGIC_2"
  "ring_ns_to_s (shm drv_example) = rg_shared (uni_initial 8 (replicate 256 zero_message))"
  "length (signals_ns_to_s (shm drv_example)) = 28" "length (signals_s_to_ns (shm drv_example)) = 28"
  by (simp_all add: drv_example_def shm_example_def shm_state.defs zero_shm_def proto_consts)

lemma sess_drv_example [simp]: "i < 28 \<Longrightarrow> sess drv_example i = example_session i"
  by (simp add: sess_def)

lemma session_ok_example: "session_ok i (example_session i)"
  using event_bits by (simp add: session_ok_def example_session_def initial_session_def Let_def)

lemma drv_example_inv [simp]: "drv_inv drv_example"
  using session_ok_example
  by (simp add: drv_inv_def producer_safe_def consumer_safe_def proto_consts)

lemma drv_example_shm:
  "shm_wf drv_example" "live_blocks drv_example = [1 \<mapsto> (3, 4)]"
  using shm_cong [of drv_example shm_example] shm_example_wf shm_example_live
  by (simp_all add: shm_example_def)

lemma drv_example_sessions:
  "configured drv_example 0" "opened drv_example 1" "configured drv_example 2"
  by (simp_all add: configured_def opened_def example_session_def initial_session_def pnc_shm_ready_def
      proto_consts)

definition s_consumer :: uni_consumer where
  "s_consumer = \<lparr>c_capacity = 256, c_cons = 0, c_last_published_cons = 0, c_cons_end = 0\<rparr>"

lemma drv_example_ring:
  "uni_wf 8 (ns_actors drv_example s_consumer)" "uni_content (ns_actors drv_example s_consumer) = []"
  "\<not> ns_full drv_example"
proof -
  have "ns_actors drv_example s_consumer = uni_initial 8 (replicate 256 zero_message)"
    by (simp add: ns_actors_def s_consumer_def uni_initial_def)
  then show "uni_wf 8 (ns_actors drv_example s_consumer)" "uni_content (ns_actors drv_example s_consumer) = []"
    using uni_initial_wf [of 8 "replicate 256 zero_message"] by simp_all
  show "\<not> ns_full drv_example" by (simp add: ns_full_def uni_initial_def uni_shared_init_def)
qed

theorem request_reaches_secure_world_witness:
  "\<exists>d'. pnc_session_send_request (quiet_drv_env :: drv drv_env) 0 42 drv_example = Some (0, d') \<and>
    uni_visible (ns_actors d' s_consumer) = [request_message 0 42] \<and> s_client (sess d' 0) = S_WAITING"
  using request_reaches_secure_world [OF quiet_drv_env_calm(1) drv_example_inv drv_example_sessions(1) _
      drv_example_ring(1,3), of 42] drv_example_ring(2)
  by (auto simp: example_session_def initial_session_def)


subsection \<open>The properties of the framework, on this driver\<close>

lemma drv_example_index [simp]: "s_index (example_session i) = of_nat i"
  by (simp add: example_session_def initial_session_def Let_def)

text \<open>The driver after its initialisation.\<close>

definition drv_start :: drv where
  "drv_start = snd (the (pnc_sessions_init (drv_example\<lparr>session_ready := False\<rparr>)))"

lemma drv_start:
  "pnc_sessions_init (drv_example\<lparr>session_ready := False\<rparr>) = Some (0, drv_start)"
  "\<not> session_ready (pnc_session_interrupt_handler drv_start)"
proof -
  show "pnc_sessions_init (drv_example\<lparr>session_ready := False\<rparr>) = Some (0, drv_start)"
    using pnc_sessions_init_inv [of "drv_example\<lparr>session_ready := False\<rparr>"] by (auto simp: drv_start_def)
  show "\<not> session_ready (pnc_session_interrupt_handler drv_start)"
    unfolding drv_start_def using ring_sizes
    by (simp add: pnc_sessions_init_def pnc_session_interrupt_handler_def pnc_shm_init_header_def
        pnc_shm_ready_def Let_def proto_consts)
qed

theorem drv_history_invariant_witness:
  "\<exists>d'. history drv_step drv_start [Interrupt, Send_request 0 42] d' \<and> drv_inv d' \<and> s_index (sess d' 5) = 5"
proof -
  let ?d1 = "pnc_session_interrupt_handler drv_start"
  have "drv_step drv_start Interrupt ?d1"
    by (rule drv_step [OF quiet_drv_env_calm(2)]) simp
  moreover have "\<exists>d2. drv_step ?d1 (Send_request 0 42) d2"
  proof -
    note drv_start(2)
    then show ?thesis
      by (intro exI [of _ ?d1] drv_step [OF quiet_drv_env_calm(2)])
         (simp add: pnc_session_send_request_def check_session_configured_def errno)
  qed
  ultimately obtain d' where h: "history drv_step drv_start [Interrupt, Send_request 0 42] d'"
    by (meson history_cons history_nil)
  from drv_history_invariant [OF drv_start(1) _ h] have "drv_inv d' \<and> s_index (sess d' 5) = of_nat 5"
    by (simp add: proto_consts)
  then show ?thesis using h by auto
qed

text \<open>The message that carries a request to session 0, and the one with its response.\<close>

definition s_request :: pnc_message where
  "s_request = zero_message\<lparr>msg_p1 := 7, msg_action := action_code A_REQUEST\<rparr>"

definition s_response :: pnc_message where
  "s_response = zero_message\<lparr>msg_p1 := 9, msg_action := action_code A_RESPONSE\<rparr>"

lemma s_messages [simp]:
  "msg_index s_request = 0" "msg_p1 s_request = 7" "action_of_code (msg_action s_request) = Some A_REQUEST"
  "msg_index s_response = 0" "msg_p1 s_response = 9" "msg_action s_response = action_code A_RESPONSE"
  using action_roundtrip [of A_REQUEST] by (simp_all add: s_request_def s_response_def zero_message_def)

theorem message_frame_witness:
  "\<exists>d'. handle_s_message (quiet_drv_env :: drv drv_env) s_request drv_example = Some d' \<and>
     only_session 0 (yield (quiet_drv_env :: drv drv_env) drv_example) d'"
proof -
  have "\<exists>d'. handle_s_message (quiet_drv_env :: drv drv_env) s_request drv_example = Some d'"
    using drv_example_sessions(1)
    by (simp add: handle_s_message_def down_calm(2) [OF quiet_drv_env_calm(1)] configured_def Let_def)
  then obtain d' where d': "handle_s_message (quiet_drv_env :: drv drv_env) s_request drv_example = Some d'" ..
  have "drv_inv (yield (quiet_drv_env :: drv drv_env) drv_example)" by simp
  from message_frame [OF d' this] d' show ?thesis
    by (simp add: proto_consts) (simp add: example_session_def initial_session_def)
qed

theorem message_refines_protocol_witness:
  "protocol_of (sess (dispatch_message (quiet_drv_env :: drv drv_env) s_request drv_example) 0) =
     (S_CONFIGURED, S_NOTIFIED, S_IDLE)"
proof -
  have "receive (action_of_code (msg_action s_request)) (msg_p1 s_request = 0)
      (protocol_of (sess drv_example (unat (msg_index s_request)))) =
      ((S_CONFIGURED, S_NOTIFIED, S_IDLE), EVENT_PENDING_REQUEST, None)"
    by (simp add: receive_def protocol_of_def) (simp add: example_session_def initial_session_def)
  from message_refines_protocol [OF drv_example_inv _ this, of quiet_drv_env] show ?thesis by (simp add: proto_consts)
qed

theorem request_response_exchange_witness:
  "\<exists>d1 d2 d3. pnc_session_send_request (quiet_drv_env :: drv drv_env) 0 42 drv_example = Some (0, d1) \<and>
    handle_s_message quiet_drv_env s_response d1 = Some d2 \<and>
    pnc_session_get_response quiet_drv_env 0 True d2 = Some (0, Some 9, d3) \<and> configured d3 0"
  using request_response_exchange [OF quiet_drv_env_calm(1) drv_example_inv drv_example_sessions(1) _
      drv_example_ring(1,3), of s_response 42]
  by (auto simp: example_session_def initial_session_def)

text \<open>A ring full of messages that the secure world has not consumed.\<close>

definition drv_full :: drv where
  "drv_full = drv_example
     \<lparr>ns_to_s_ring := \<lparr>p_capacity = 256, p_prod = 256, p_last_published_prod = 256, p_prod_end = 256\<rparr>,
      shm := (shm drv_example)\<lparr>ring_ns_to_s := (ring_ns_to_s (shm drv_example))\<lparr>sh_prod := 256\<rparr>\<rparr>\<rparr>"

lemma drv_full:
  "sess drv_full = sess drv_example" "drv_inv drv_full" "configured drv_full 0"
  "uni_wf 8 (ns_actors drv_full s_consumer)" "ns_full drv_full"
proof -
  show s: "sess drv_full = sess drv_example" by (simp add: drv_full_def sess_def fun_eq_iff)
  have "drv_inv drv_example" by simp
  then show "drv_inv drv_full"
    unfolding drv_inv_def by (auto simp: drv_full_def producer_safe_def simp del: drv_example_inv)
  show "configured drv_full 0" using drv_example_sessions(1) s
    by (simp add: configured_def pnc_shm_ready_def drv_full_def)
  show "uni_wf 8 (ns_actors drv_full s_consumer)" "ns_full drv_full"
    by (simp_all add: drv_full_def ns_actors_def uni_wf_def s_consumer_def uni_initial_def uni_shared_init_def
        ns_full_def)
qed

theorem request_lost_when_full_witness:
  "\<exists>d'. pnc_session_send_request (quiet_drv_env :: drv drv_env) 0 42 drv_full = Some (0, d') \<and>
    uni_visible (ns_actors d' s_consumer) = uni_content (ns_actors drv_full s_consumer)"
proof -
  have "s_client (sess drv_full 0) = S_IDLE" 
    by (simp add: drv_full(1) example_session_def initial_session_def)
  from request_lost_when_full [OF quiet_drv_env_calm(1) drv_full(2,3) this drv_full(4,5), of 42]
  show ?thesis by blast
qed


theorem send_signal_not_lost_witness:
  "\<exists>d'. pnc_session_send_signal (quiet_drv_env :: drv drv_env) 0 5 drv_example = Some (0, d') \<and>
    signals_ns_to_s (shm d') ! 0 = signals_ns_to_s (shm drv_example) ! 0 OR 5"
proof -
  let ?e = "quiet_drv_env :: drv drv_env"
  have c: "check_session_configured ?e 0 drv_example = Some (0, drv_example\<lparr>tick := Suc 0\<rparr>)"
    using check_calm [of ?e drv_example 0] drv_example_sessions(1) by simp
  then have "\<exists>d'. pnc_session_send_signal ?e 0 5 drv_example = Some (0, d')"
    by (auto simp: pnc_session_send_signal_def Let_def raise_notification_Some)
  then obtain d' where d': "pnc_session_send_signal ?e 0 5 drv_example = Some (0, d')" ..
  from send_signal_not_lost [OF d' quiet_drv_env_calm(2) drv_example_inv] d' c show ?thesis
    by (auto simp: proto_consts)
qed

theorem get_signal_takes_all_witness:
  "\<exists>d'. pnc_session_get_signal (quiet_drv_env :: drv drv_env) 0 True drv_example =
      Some (0, Some (signals_s_to_ns (shm drv_example) ! 0), d') \<and> signals_s_to_ns (shm d') ! 0 = 0"
proof -
  let ?e = "quiet_drv_env :: drv drv_env"
  let ?d = "drv_example\<lparr>tick := Suc 0\<rparr>"
  have c: "check_session_configured ?e 0 drv_example = Some (0, ?d)"
    using check_calm [of ?e drv_example 0] drv_example_sessions(1) by simp
  have "0 < s_sem (sess ?d 0)" by (simp add: example_session_def initial_session_def)
  note down = down_calm(1) [OF quiet_drv_env_calm(1) this]
  have "\<exists>v d'. pnc_session_get_signal ?e 0 True drv_example = Some (0, v, d')"
    by (simp add: pnc_session_get_signal_def c down take_s_to_ns_signals_def Let_def)
  then obtain v d' where d': "pnc_session_get_signal ?e 0 True drv_example = Some (0, v, d')" by blast
  from get_signal_takes_all [OF d' quiet_drv_env_calm(2) drv_example_inv] d' c down show ?thesis
    by (auto simp: proto_consts upd_sem_def)
qed

text \<open>The name of a service, 3 characters long.\<close>

definition service_name :: "u8 list" where "service_name = [0x61, 0x62, 0x63]"

text \<open>The driver with a secure world that knows services by name.\<close>

definition drv_303 :: drv where "drv_303 = drv_example\<lparr>ree_version := 0x303\<rparr>"

theorem config_name_confined_witness:
  "\<exists>d'. config_name 0 (Some service_name) 0x1000 drv_303 = Some (0, d') \<and>
     memory d' (3 * 4096 + 1) = 0x62 \<and> memory d' (3 * 4096 + 3) = 0 \<and>
     memory d' (2 * 4096) = memory drv_303 (2 * 4096)"
proof -
  have "\<exists>d'. config_name 0 (Some service_name) 0x1000 drv_303 = Some (0, d')"
    by (simp add: config_name_def drv_303_def sess_def)
       (simp add: example_session_def initial_session_def shm_example_def service_name_def proto_consts)
  then obtain d' where d': "config_name 0 (Some service_name) 0x1000 drv_303 = Some (0, d')" ..
  have m: "s_mem (sess drv_303 0) = Some 1" by (simp add: drv_303_def sess_def example_session_def)
  have w: "live_blocks drv_303 1 = Some (3, 4)" "shm_wf drv_303"
    using shm_cong [of drv_303 drv_example] drv_example_shm by (simp_all add: drv_303_def)
  note c = config_name_confined [OF d' m w, rule_format]
  show ?thesis
    using d' c [of 1] c [of "2 * 4096"] by (auto simp: service_name_def proto_consts range_pages_def)
qed

theorem config_message_memory_witness:
  "\<exists>msg. config_message 0 17 drv_example = Some msg \<and> msg_p1 msg = 3 \<and> unat (msg_p2 msg) = 4"
  using config_message_memory [of drv_example 0 1
      "\<lparr>blk_free = False, blk_offset = 3, blk_nr_pages = 4, blk_next = Some 2\<rparr>" 17]
  by (auto simp: example_session_def shm_example_def)

theorem config_by_name_leaks_semaphore_witness:
  "\<exists>d'. pnc_session_config_by_name (quiet_drv_env :: drv drv_env) 1 (Some service_name) drv_example =
      Some (- ENOTSUPP, d') \<and> pnc_session_config quiet_drv_env 1 17 d' = None"
  using config_by_name_leaks_semaphore [of "quiet_drv_env :: drv drv_env" drv_example 1 service_name 17]
    drv_example_sessions(2) by auto

theorem open_gives_free_slot_witness:
  "\<exists>d'. pnc_session_open (quiet_drv_env :: drv drv_env) drv_example = Some (0, Some 4, d') \<and>
     \<not> s_free (sess d' 4)"
proof -
  let ?e = "quiet_drv_env :: drv drv_env"
  have f: "find_free 0 (drv_example\<lparr>tick := n\<rparr>) = Some 4" for n
  proof (rule find_free_first)
    show "\<forall>k<4. \<not> s_free (sess (drv_example\<lparr>tick := n\<rparr>) k)"
      by (simp add: example_session_def initial_session_def Let_def)
  qed (simp_all add: example_session_def initial_session_def proto_consts)
  then have "\<exists>d'. pnc_session_open ?e drv_example = Some (0, Some 4, d')"
    by (simp add: pnc_session_open_def wait_event_def lock_sessions_def yield_calm Let_def)
  then obtain d' where d': "pnc_session_open ?e drv_example = Some (0, Some 4, d')" ..
  from open_gives_free_slot [OF d' quiet_drv_env_calm(2) drv_example_inv] d' show ?thesis by auto
qed

theorem close_releases_witness:
  "\<exists>d'. pnc_session_close (quiet_drv_env :: drv drv_env) (Some 0) drv_example = Some d' \<and>
     s_free (sess d' 0) \<and> live_blocks d' = Map.empty \<and> uni_visible (ns_actors d' s_consumer) = [term_message 0]"
proof -
  have "s_event_pending (sess drv_example 0) AND EVENT_PENDING_RESPONSE = 0" "s_mem (sess drv_example 0) = Some 1"
    "live_blocks drv_example 1 = Some (3, 4)" "0 < shm_sem drv_example"
    by (simp_all add: drv_example_shm) (simp_all add: example_session_def initial_session_def)
  from close_releases [OF quiet_drv_env_calm(1) drv_example_inv drv_example_sessions(1) drv_example_ring(1,3)
      this(1,2) drv_example_shm(1) this(3,4)]
  show ?thesis by (auto simp: drv_example_shm drv_example_ring(2))
qed

theorem check_session_configured_table_witness:
  "\<exists>d'. check_session_configured (quiet_drv_env :: drv drv_env) 4 drv_example = Some (- EINVAL, d')"
  using check_session_configured_table [OF quiet_drv_env_calm(2) drv_example_inv, of 4]
    drv_example_sessions(1)
  by (simp add: yield_calm configured_def) (simp add: example_session_def initial_session_def proto_consts)

theorem request_hidden_by_event_witness:
  "\<exists>d1 d2. pnc_session_wait_event (quiet_drv_env :: drv drv_env) 2 True EVENT_PENDING_REQUEST 0 drv_example =
      Some (0, Some EVENT_PENDING_REQUEST, d1) \<and>
    pnc_session_wait_request quiet_drv_env 2 True 0 d1 = None \<and>
    pnc_session_get_request quiet_drv_env 2 True d1 = Some (0, Some 0, d2)"
proof -
  have "s_server (sess drv_example 2) = S_NOTIFIED" "s_event_pending (sess drv_example 2) AND EVENT_PENDING_REQUEST \<noteq> 0"
    "s_server_message (sess drv_example 2) = zero_message"
    by (simp_all add: example_session_def initial_session_def EVENT_PENDING_REQUEST_def)
  with request_hidden_by_event [of "quiet_drv_env :: drv drv_env" drv_example 2] drv_example_sessions(3)
  show ?thesis by (simp add: zero_message_def)
qed

text \<open>Only the slots below the first free one are in use: session 0 is open and has lost its secure side.\<close>

definition drv_terminated :: drv where
  "drv_terminated = upd_sess 0 (\<lambda>s. s\<lparr>s_global := S_NULL, s_mem := None\<rparr>) drv_example"

theorem terminated_slot_given_twice_witness:
  "\<exists>d1 d2 d3. check_and_handle_terminated_session (quiet_drv_env :: drv drv_env) 0 drv_terminated =
      Some (- EPIPE, d1) \<and>
    pnc_session_open quiet_drv_env d1 = Some (0, Some 0, d2) \<and>
    pnc_session_close quiet_drv_env (Some 0) d2 = Some d3 \<and> s_free (sess d3 0)"
proof -
  have "drv_inv drv_terminated" unfolding drv_terminated_def
    by (rule drv_inv_upd_sess [OF drv_example_inv]) (simp add: session_ok_def)
  moreover have "sess drv_terminated 0 = (example_session 0)\<lparr>s_global := S_NULL, s_mem := None\<rparr>"
    by (simp add: drv_terminated_def)
  moreover have "session_ready drv_terminated" by (simp add: drv_terminated_def upd_sess_def)
  ultimately show ?thesis
    using terminated_slot_given_twice [of "quiet_drv_env :: drv drv_env" drv_terminated 0]
    by (auto simp: example_session_def initial_session_def proto_consts)
qed

theorem timeout_wraps_witness: "unat (timeout_jiffies 100 5000) = 500"
  using timeout_wraps [of 5000 100] by simp

subsection \<open>Requests of the secure world, cancellation, the worker\<close>

theorem request_served_witness:
  "\<exists>d1 d2 d3. handle_s_message (quiet_drv_env :: drv drv_env) s_request drv_example = Some d1 \<and>
    pnc_session_get_request quiet_drv_env 0 True d1 = Some (0, Some 7, d2) \<and>
    pnc_session_send_response quiet_drv_env 0 9 d2 = Some (0, d3) \<and>
    uni_visible (ns_actors d3 s_consumer) = [response_message 0 9]"
  using request_served [OF quiet_drv_env_calm(1) drv_example_inv drv_example_sessions(1) _
      drv_example_ring(1,3), of s_request 9] drv_example_ring(2)
  by (auto simp: example_session_def initial_session_def s_request_def zero_message_def)

text \<open>Session 0 waits for a response, and the secure world has sent it when the client cancels.\<close>

definition drv_waiting :: drv where
  "drv_waiting = upd_sess 0 (s_client_update (\<lambda>_. S_WAITING)) drv_example"

definition race_env :: "drv drv_env" where
  "race_env = quiet_drv_env\<lparr>others := (\<lambda>n d. if n = 2 then the (handle_s_message quiet_drv_env s_response d) else d)\<rparr>"

theorem cancel_resolves_witness:
  "\<exists>d'. pnc_session_cancel_request race_env 0 True 0 drv_waiting = Some (int_of_u32 REQUEST_CANCEL_RESPONSE, Some 9, d') \<and>
    uni_visible (ns_actors d' s_consumer) = [cancel_message 0] \<and> s_client (sess d' 0) = S_IDLE"
proof -
  have d: "drv_inv drv_waiting" "s_client (sess drv_waiting 0) = S_WAITING" "s_event_pending (sess drv_waiting 0) = 0"
    "ns_actors drv_waiting s_consumer = ns_actors drv_example s_consumer" "ns_full drv_waiting = ns_full drv_example" "tick drv_waiting = 0"
    by (simp_all add: drv_waiting_def ns_full_def) (simp_all add: example_session_def initial_session_def)
  have conf: "configured drv_waiting 0"
    using drv_example_sessions(1) configured_cong [of drv_waiting drv_example 0] by (simp add: drv_waiting_def)
  have m: "msg_index s_response = of_nat 0" "msg_action s_response = action_code A_RESPONSE" "msg_p1 s_response = 9"
    by simp_all
  have others: "others race_env n d' = (if n = tick drv_waiting + 2 then the (handle_s_message quiet_drv_env s_response d') else d')" for n d'
    by (simp add: race_env_def d(6))
  show ?thesis
    using cancel_resolves [OF quiet_drv_env_calm(1) d(1) conf d(2) _ _ _ m(1,2) _ others, of s_consumer] d(3-5) drv_example_ring m(3)
    by (auto simp: cancel_result_def race_env_def)
qed

text \<open>A signal for session 1 and a request for session 0 are pending.\<close>

definition drv_notified :: drv where
  "drv_notified = drv_example\<lparr>shm := (shm drv_example)\<lparr>notif_s_to_ns := E_MESSAGE OR E_SIGNAL 1,
     ring_s_to_ns := (rg_shared (uni_initial 8 (s_request # replicate 255 zero_message)))\<lparr>sh_prod := 1\<rparr>\<rparr>\<rparr>"

definition s_producer :: uni_producer where
  "s_producer = \<lparr>p_capacity = 256, p_prod = 1, p_last_published_prod = 1, p_prod_end = 256\<rparr>"

theorem worker_serves_notification_witness:
  "\<exists>d'. handle_s_notification (quiet_drv_env :: drv drv_env) zero_params drv_notified = Some d' \<and>
    uni_visible (s_actors drv_notified s_producer) = [s_request] \<and> uni_visible (s_actors d' s_producer) = [] \<and>
    notif_s_to_ns (shm d') = 0"
proof -
  have actors: "ns_actors drv_notified s_consumer = ns_actors drv_example s_consumer" "sess drv_notified = sess drv_example"
    by (simp_all add: drv_notified_def ns_actors_def sess_def fun_eq_iff)
  have "drv_inv drv_notified"
    using session_ok_example by (simp add: drv_notified_def drv_inv_def producer_safe_def consumer_safe_def proto_consts)
  then have ready: "worker_ready s_consumer drv_notified"
    using drv_example_ring(1) by (simp add: worker_ready_def actors proto_consts) (simp add: example_session_def initial_session_def Let_def)
  have shm: "pnc_shm_ready drv_notified" by (simp add: drv_notified_def pnc_shm_ready_def)
  have ring: "s_actors drv_notified s_producer = \<lparr>rg_producer = s_producer,
      rg_consumer = \<lparr>c_capacity = 256, c_cons = 0, c_last_published_cons = 0, c_cons_end = 0\<rparr>,
      rg_shared = (rg_shared (uni_initial 8 (s_request # replicate 255 zero_message)))\<lparr>sh_prod := 1\<rparr>\<rparr>"
    by (simp add: s_actors_def drv_notified_def)
  have wf: "uni_wf 8 (s_actors drv_notified s_producer)"
    unfolding ring by (simp add: uni_wf_def s_producer_def uni_initial_def uni_shared_init_def Let_def)
  have visible: "uni_visible (s_actors drv_notified s_producer) = [s_request]"
    unfolding ring by (simp add: uni_visible_def uni_initial_def uni_shared_init_def ring_list_def)
  have notif: "notif_s_to_ns (shm drv_notified) AND E_RESET = 0" "notif_s_to_ns (shm drv_notified) AND E_MESSAGE \<noteq> 0"
    by (simp_all add: drv_notified_def proto_consts BIT_def)
  show ?thesis
    using worker_serves_notification [OF quiet_drv_env_calm(1) ready shm wf notif, of zero_params] visible by auto
qed

end
