(* ===== verification/PncShm_Tiled.thy ===== *)
theory PncShm_Tiled
  imports PncShm_Alloc
begin

text \<open>
  The allocator without a block outside its list: every address of the heap is a block of the shared memory, also one
  whose session has given it back. The operations keep this, whichever block they are called with, and leave the range of
  every other block in use alone.
\<close>

text \<open>The blocks tile the memory, and there is no block outside the list.\<close>

definition heap_tiled :: "'a shm_state_scheme \<Rightarrow> bool" where
  "heap_tiled d \<longleftrightarrow>
     (\<exists>ps. block_list (heap d) REE_RESERVED_PAGES (unat (shm_nr_pages d)) (blocks d) ps \<and> dom (heap d) \<subseteq> set ps)"

lemma heap_tiled_cong:
  "heap d' = heap d \<Longrightarrow> blocks d' = blocks d \<Longrightarrow> shm_nr_pages d' = shm_nr_pages d \<Longrightarrow> heap_tiled d' = heap_tiled d"
  by (simp add: heap_tiled_def)

lemma dom_same_layout:
  assumes "\<And>q. same_layout h h' q"
  shows "dom h' = dom h"
proof -
  have "h' q = None \<longleftrightarrow> h q = None" for q
    using assms [of q] by (auto simp: same_layout_def split: option.splits)
  then show ?thesis by (simp add: dom_def)
qed

lemma heap_tiled_layout:
  assumes "heap_tiled d" "\<And>q. same_layout (heap d) h q"
  shows "heap_tiled (d\<lparr>heap := h\<rparr>)"
proof -
  obtain ps where ps: "block_list (heap d) REE_RESERVED_PAGES (unat (shm_nr_pages d)) (blocks d) ps" "dom (heap d) \<subseteq> set ps"
    using assms(1) by (auto simp: heap_tiled_def)
  then have "block_list h REE_RESERVED_PAGES (unat (shm_nr_pages d)) (blocks d) ps"
    using block_list_same_layout [OF assms(2)] by blast
  then show ?thesis using ps(2) dom_same_layout [OF assms(2)] by (auto simp: heap_tiled_def)
qed

lemma heap_tiled_free_locked:
  assumes "heap_tiled d" "shm_free_locked p d = Some d'"
  shows "heap_tiled d' \<and> d' = d\<lparr>heap := heap d'\<rparr>"
proof -
  obtain blk where "heap d p = Some blk" "d' = d\<lparr>heap := (heap d)(p \<mapsto> blk\<lparr>blk_free := True\<rparr>)\<rparr>"
    using assms(2) by (auto simp: shm_free_locked_def split: option.splits)
  then show ?thesis
    using heap_tiled_layout [OF assms(1)] by (auto simp: same_layout_def split: option.splits)
qed

lemma heap_tiled_alloc_locked:
  assumes "heap_tiled d" "kmalloc_fresh e" "shm_alloc_locked e n (blocks d) d = Some (r, blk, d')"
  shows "heap_tiled d' \<and> d' = d\<lparr>heap := heap d'\<rparr>"
proof -
  obtain ps where ps: "block_list (heap d) REE_RESERVED_PAGES (unat (shm_nr_pages d)) (blocks d) ps" "dom (heap d) \<subseteq> set ps"
    using assms(1) by (auto simp: heap_tiled_def)
  obtain x h' ps' where run: "alloc_loop n (heap d) (blocks d) = Some (x, h')"
    and s: "search_ok n (heap d) REE_RESERVED_PAGES (unat (shm_nr_pages d)) (blocks d) ps x h' ps'"
    using alloc_loop_ok [OF ps(1)] by blast
  have list: "block_list h' REE_RESERVED_PAGES (unat (shm_nr_pages d)) (blocks d) ps'" and ex: "alloc_exit_ok n h' ps' x"
    and other: "\<forall>q. q \<notin> set ps \<longrightarrow> h' q = heap d q" "\<forall>q. q \<in> set ps - set ps' \<longrightarrow> h' q = None"
    using s by (simp_all add: search_ok_def)
  have dom: "dom h' \<subseteq> set ps'"
  proof
    fix q assume "q \<in> dom h'"
    then show "q \<in> set ps'" using other subsetD [OF ps(2) domI, of q] by (cases "q \<in> set ps") auto
  qed
  then have tiled: "heap_tiled (d\<lparr>heap := h'\<rparr>)" using list by (auto simp: heap_tiled_def)
  have take: "heap_tiled (d\<lparr>heap := take_block p h\<rparr>)" if "heap_tiled (d\<lparr>heap := h\<rparr>)" for p h
    using heap_tiled_layout [OF that, of "take_block p h"] take_block_layout by simp
  have split: "heap_tiled (d\<lparr>heap := split_block n p q h'\<rparr>)" if x: "x = Split p" and q: "h' q = None" for p q
  proof -
    obtain blk where p: "p \<in> set ps'" "h' p = Some blk" "n < blk_nr_pages blk"
      using ex [unfolded x] by (auto simp: alloc_exit_ok_def split: option.splits)
    have "q \<notin> set ps'" using block_list_heap [OF list] q by force
    then obtain qs where "set qs = insert q (set ps')"
      "block_list (split_block n p q h') REE_RESERVED_PAGES (unat (shm_nr_pages d)) (blocks d) qs"
      using block_list_split_block [OF list p] by blast
    moreover have "dom (split_block n p q h') \<subseteq> insert q (set ps')"
      using dom p by (auto simp: split_block_def split: if_splits)
    ultimately show ?thesis by (auto simp: heap_tiled_def)
  qed
  have fresh: "h' q = None" if "kmalloc e k (\<lambda>a. \<exists>y. h' a = Some y) = Some q" for k q
  proof -
    have "\<not> (\<exists>y. h' q = Some y)" using assms(2) that unfolding kmalloc_fresh_def by blast
    then show ?thesis by simp
  qed
  show ?thesis
    using assms(3) run tiled take split fresh
    by (auto simp: shm_alloc_locked_def split: alloc_exit.splits option.splits)
qed

lemma heap_tiled_block:
  assumes "heap_tiled d" "heap d p = Some blk"
  shows "REE_RESERVED_PAGES \<le> unat (blk_offset blk)"
    "unat (blk_offset blk) + unat (blk_nr_pages blk) \<le> unat (shm_nr_pages d)"
proof -
  obtain ps where ps: "block_list (heap d) REE_RESERVED_PAGES (unat (shm_nr_pages d)) (blocks d) ps" "p \<in> set ps"
    using assms by (force simp: heap_tiled_def)
  show "REE_RESERVED_PAGES \<le> unat (blk_offset blk)"
    "unat (blk_offset blk) + unat (blk_nr_pages blk) \<le> unat (shm_nr_pages d)"
    using block_list_range [OF ps assms(2)] by simp_all
qed

lemma live_blocks_cong: "heap d' = heap d \<Longrightarrow> blocks d' = blocks d \<Longrightarrow> live_blocks d' = live_blocks d"
  by (rule ext) (simp add: live_blocks_def split: option.split)

lemma heap_tiled_wf: "heap_tiled d \<Longrightarrow> shm_wf d"
  using shm_wfI(1) by (auto simp: heap_tiled_def)

lemma free_locked_live:
  assumes "heap_tiled d" "shm_free_locked q d = Some d'"
  shows "live_blocks d' = (live_blocks d)(q := None)"
proof -
  obtain ps where ps: "block_list (heap d) REE_RESERVED_PAGES (unat (shm_nr_pages d)) (blocks d) ps"
    using assms(1) by (auto simp: heap_tiled_def)
  obtain blk where q: "heap d q = Some blk" "d' = d\<lparr>heap := (heap d)(q \<mapsto> blk\<lparr>blk_free := True\<rparr>)\<rparr>"
    using assms(2) by (auto simp: shm_free_locked_def split: option.splits)
  let ?h = "(heap d)(q \<mapsto> blk\<lparr>blk_free := True\<rparr>)"
  have "same_layout (heap d) ?h x" for x using q by (auto simp: same_layout_def split: option.splits)
  then have "block_list ?h REE_RESERVED_PAGES (unat (shm_nr_pages d)) (blocks d) ps"
    using ps block_list_same_layout by blast
  moreover have "allocated ?h ps = (allocated (heap d) ps)(q := None)"
    by (auto simp: allocated_def fun_eq_iff)
  ultimately show ?thesis using q(2) shm_wfI(2) [of d ps] shm_wfI(2) [of d' ps] ps by simp
qed

lemma alloc_locked_live:
  assumes "heap_tiled d" "kmalloc_fresh e" "shm_alloc_locked e n (blocks d) d = Some (r, blk, d')"
    and "live_blocks d p = Some x"
  shows "live_blocks d' p = Some x" "blk \<noteq> Some p"
proof -
  have "alloc_outcome n d r blk d'"
    using shm_alloc_locked_ok [OF heap_tiled_wf [OF assms(1)] assms(2), of n] assms(3) by auto
  then show "live_blocks d' p = Some x" "blk \<noteq> Some p"
    using assms(4) by (cases blk; force simp: alloc_outcome_def)+
qed

lemma alloc_locked_new:
  assumes "heap_tiled d" "kmalloc_fresh e" "shm_alloc_locked e n (blocks d) d = Some (r, Some p, d')"
  shows "live_blocks d' p \<noteq> None"
  using shm_alloc_locked_ok [OF heap_tiled_wf [OF assms(1)] assms(2), of n] assms(3) by (auto simp: alloc_outcome_def)

text \<open>The pages of a block in use are in no other block.\<close>

lemma heap_tiled_disjoint:
  assumes "heap_tiled d" "live_blocks d p = Some (off, n)" "heap d q = Some blk" "q \<noteq> p"
  shows "block_pages blk \<inter> {unat off ..< unat off + unat n} = {}"
proof -
  obtain ps where ps: "block_list (heap d) REE_RESERVED_PAGES (unat (shm_nr_pages d)) (blocks d) ps" "q \<in> set ps"
    using assms(1,3) by (force simp: heap_tiled_def)
  obtain pb where "p \<in> set ps" "heap d p = Some pb" "block_pages pb = {unat off ..< unat off + unat n}"
    using assms(2) shm_wfI(2) [OF ps(1)] by (auto simp: allocated_def block_pages_def split: if_splits option.splits)
  then show ?thesis using block_list_disjoint [OF ps(1) ps(2)] assms(3,4) by blast
qed

end
