(* ===== verification/PncKept.thy ===== *)
theory PncKept
  imports PncCalls PncShm_Tiled
begin

text \<open>
  What no call breaks, as a locale: a property of the state that the primitive operations of the session framework keep is
  kept by every function of it. The rules are proved once, a rule for \<open>wlp\<close> per operation. PncChannel interprets the
  locale on the ring to the secure world, PncIsolation on what belongs to one session.
\<close>

named_theorems kept_rules \<open>rules of the operations inside the locale\<close>

text \<open>The session that a call names.\<close>

fun call_session :: "drv_call \<Rightarrow> nat option" where
  "call_session Interrupt = None"
| "call_session (Worker s) = None"
| "call_session (Exit s) = None"
| "call_session Open = None"
| "call_session (Close s) = s"
| "call_session (Alloc i n) = Some i"
| "call_session (Config i sid) = Some i"
| "call_session (Config_by_name i n) = Some i"
| "call_session (Send_request i x) = Some i"
| "call_session (Get_response i b) = Some i"
| "call_session (Wait_response i b t) = Some i"
| "call_session (Send_response i x) = Some i"
| "call_session (Get_request i b) = Some i"
| "call_session (Wait_request i b t) = Some i"
| "call_session (Cancel_request i b t) = Some i"
| "call_session (Request_response i x t b) = Some i"
| "call_session (Send_signal i x) = Some i"
| "call_session (Get_signal i b) = Some i"
| "call_session (Wait_signal i b t) = Some i"
| "call_session (Wait_event i b m t) = Some i"
| "call_session (Poll_wait s b) = s"
| "call_session (Get_pending_events i b) = Some i"

text \<open>The worker and the end of the driver are on all the sessions.\<close>

fun on_all :: "drv_call \<Rightarrow> bool" where
  "on_all (Worker s) = True"
| "on_all (Exit s) = True"
| "on_all c = False"

definition call_sessions :: "drv_call \<Rightarrow> nat set" where
  "call_sessions c = (if on_all c then UNIV else set_option (call_session c))"

text \<open>Nothing of a session, of the memory and of the ring to the secure world differs.\<close>

definition untouched :: "'a drv_scheme \<Rightarrow> 'a drv_scheme \<Rightarrow> bool" where
  "untouched d d' \<longleftrightarrow>
     sessions d' = sessions d \<and> ns_to_s_ring d' = ns_to_s_ring d \<and> ring_ns_to_s (shm d') = ring_ns_to_s (shm d) \<and>
     signals_ns_to_s (shm d') = signals_ns_to_s (shm d) \<and> signals_s_to_ns (shm d') = signals_s_to_ns (shm d) \<and>
     heap d' = heap d \<and> blocks d' = blocks d \<and> shm_nr_pages d' = shm_nr_pages d \<and> memory d' = memory d"

text \<open>
  \<open>P\<close>: the property, \<open>E\<close>: the environments, \<open>ok\<close>: the messages that may be sent, \<open>may\<close>: the sessions that the calls may be
  on. An update of a slot keeps its index, and its memory or sets it to \<open>NULL\<close>; memory that was released is always set to it.
\<close>

locale kept_by_calls =
  fixes P :: "drv \<Rightarrow> bool"
    and E :: "drv drv_env \<Rightarrow> bool"
    and ok :: "pnc_message \<Rightarrow> bool"
    and may :: "nat \<Rightarrow> bool"
  assumes frame: "untouched d d' \<Longrightarrow> P d' = P d"
    and others: "E e \<Longrightarrow> env_keeps P e"
    and table: "P d \<Longrightarrow> length (sessions d) = REE_MAX_SESSIONS"
    and bounded: "may i \<Longrightarrow> i < REE_MAX_SESSIONS"
    and updates: "may i \<Longrightarrow> P d \<Longrightarrow> (\<And>s. s_index (f s) = s_index s) \<Longrightarrow>
      (\<And>s. s_mem (f s) = s_mem s \<or> s_mem (f s) = None) \<Longrightarrow> P (upd_sess i f d)"
    and opens: "i < REE_MAX_SESSIONS \<Longrightarrow> s_free (sess d i) \<Longrightarrow> P d \<Longrightarrow> (\<And>s. s_index (f s) = s_index s) \<Longrightarrow>
      (\<And>s. s_mem (f s) = s_mem s) \<Longrightarrow> P (upd_sess i f d)"
    and signals: "may i \<Longrightarrow> P d \<Longrightarrow> P (d\<lparr>shm := (shm d)\<lparr>signals_ns_to_s :=
        (signals_ns_to_s (shm d))[unat (s_index (sess d i)) := x]\<rparr>\<rparr>)"
    and takes: "may i \<Longrightarrow> P d \<Longrightarrow> P (d\<lparr>shm := (shm d)\<lparr>signals_s_to_ns :=
        (signals_s_to_ns (shm d))[unat (s_index (sess d i)) := x]\<rparr>\<rparr>)"
    and sends: "E e \<Longrightarrow> P d \<Longrightarrow> ok m \<Longrightarrow> P (write_ns_message e m d)"
    and publishes: "P d \<Longrightarrow> producer_commit (ns_to_s_ring d) (ring_ns_to_s (shm d)) = (b, p, sh) \<Longrightarrow>
      P (d\<lparr>ns_to_s_ring := p, shm := (shm d)\<lparr>ring_ns_to_s := sh\<rparr>\<rparr>)"
    and allocates: "may i \<Longrightarrow> E e \<Longrightarrow> P d \<Longrightarrow> pnc_shm_alloc e n d = Some (r, blk, d') \<Longrightarrow>
      P (if blk \<noteq> None then upd_sess i (s_mem_update (\<lambda>_. blk)) d' else d')"
    and releases: "may i \<Longrightarrow> E e \<Longrightarrow> P d \<Longrightarrow> pnc_shm_free e (s_mem (sess d i)) d = Some (r, d') \<Longrightarrow>
      (\<And>s. s_index (f s) = s_index s) \<Longrightarrow> (\<And>s. s_mem (f s) = None) \<Longrightarrow> P (upd_sess i f d')"
    and names: "may i \<Longrightarrow> P d \<Longrightarrow> config_name i name base d = Some (r, d') \<Longrightarrow> P d'"
    and plain_ok: "P d \<Longrightarrow> may i \<Longrightarrow> a \<in> {A_CANCEL, A_CANCEL_ACK, A_TERM, A_TERM_ACK} \<Longrightarrow>
      ok (new_message (s_index (sess d i)) a)"
    and value_ok: "P d \<Longrightarrow> may i \<Longrightarrow> a \<in> {A_REQUEST, A_RESPONSE} \<Longrightarrow>
      ok ((new_message (s_index (sess d i)) a)\<lparr>msg_p1 := x\<rparr>)"
    and config_ok: "P d \<Longrightarrow> may i \<Longrightarrow> config_message i sid d = Some m \<Longrightarrow> ok m"
begin

lemma kept_simps [simp]:
  "P (d\<lparr>tick := n\<rparr>) = P d"
  "P (d\<lparr>smc_log := l\<rparr>) = P d"
  "P (d\<lparr>work_pending := w\<rparr>) = P d"
  "P (d\<lparr>session_ready := w\<rparr>) = P d"
  "P (d\<lparr>signal_session := j\<rparr>) = P d"
  "P (d\<lparr>s_to_ns_ring := c\<rparr>) = P d"
  "P (d\<lparr>s_to_ns_ring := c, shm := (shm d)\<lparr>ring_s_to_ns := r\<rparr>\<rparr>) = P d"
  "P (d\<lparr>work_pending := w, shm := (shm d)\<lparr>notif_s_to_ns := v\<rparr>\<rparr>) = P d"
  "P (d\<lparr>shm := (shm d)\<lparr>notif_ns_to_s := v\<rparr>\<rparr>) = P d"
  "P (d\<lparr>shm := (shm d)\<lparr>notif_s_to_ns := v\<rparr>\<rparr>) = P d"
  by (rule frame; simp add: untouched_def)+

lemma kept_upd [simp]:
  assumes "i < REE_MAX_SESSIONS \<Longrightarrow> may i" "P d" "\<And>s. s_index (f s) = s_index s"
    "\<And>s. s_mem (f s) = s_mem s \<or> s_mem (f s) = None"
  shows "P (upd_sess i f d)"
proof (cases "i < REE_MAX_SESSIONS")
  case True
  then show ?thesis using assms updates by blast
next
  case False
  then have "upd_sess i f d = d" using table [OF assms(2)] by (simp add: upd_sess_def list_update_beyond)
  then show ?thesis using assms(2) by simp
qed

lemma kept_sem [simp]:
  "(i < REE_MAX_SESSIONS \<Longrightarrow> may i) \<Longrightarrow> P d \<Longrightarrow> P (up_session i d)" "(i < REE_MAX_SESSIONS \<Longrightarrow> may i) \<Longrightarrow> P d \<Longrightarrow> P (upd_sem i f d)"
  "may i \<Longrightarrow> P d \<Longrightarrow> P (clear_ns_to_s_signals (s_index (sess d i)) d)"
  "E e \<Longrightarrow> P d \<Longrightarrow> P (lock_sessions e d)" "E e \<Longrightarrow> P d \<Longrightarrow> P (yield e d)"
proof -
  have "tick_free P" by (simp add: tick_free_def)
  then show y: "E e \<Longrightarrow> P d \<Longrightarrow> P (yield e d)" for d using yield_keeps [OF others] by blast
  show "(i < REE_MAX_SESSIONS \<Longrightarrow> may i) \<Longrightarrow> P d \<Longrightarrow> P (up_session i d)" "(i < REE_MAX_SESSIONS \<Longrightarrow> may i) \<Longrightarrow> P d \<Longrightarrow> P (upd_sem i f d)"
    "may i \<Longrightarrow> P d \<Longrightarrow> P (clear_ns_to_s_signals (s_index (sess d i)) d)" "E e \<Longrightarrow> P d \<Longrightarrow> P (lock_sessions e d)"
    using y signals by (simp_all add: up_session_def upd_sem_def clear_ns_to_s_signals_def lock_sessions_def)
qed

lemma kept_sleeps [kept_rules]:
  assumes "E e" "P d"
  shows "(i < REE_MAX_SESSIONS \<Longrightarrow> may i) \<Longrightarrow> (\<And>d. P d \<Longrightarrow> Q1 d) \<Longrightarrow> wlp (down_session e i d) Q1"
    and "may i \<Longrightarrow> (\<And>r d. P d \<Longrightarrow> Q2 (r, d)) \<Longrightarrow> wlp (down_session_interruptible e i d) Q2"
    and "(\<And>r d. P d \<Longrightarrow> Q2 (r, d)) \<Longrightarrow> wlp (wait_event_interruptible e timeout cond d) Q2"
    and "(\<And>d. P d \<Longrightarrow> Q1 d) \<Longrightarrow> wlp (wait_event e cond d) Q1"
proof -
  have t: "tick_free P" by (simp add: tick_free_def)
  show "(i < REE_MAX_SESSIONS \<Longrightarrow> may i) \<Longrightarrow> (\<And>d. P d \<Longrightarrow> Q1 d) \<Longrightarrow> wlp (down_session e i d) Q1"
    "may i \<Longrightarrow> (\<And>r d. P d \<Longrightarrow> Q2 (r, d)) \<Longrightarrow> wlp (down_session_interruptible e i d) Q2"
    "(\<And>r d. P d \<Longrightarrow> Q2 (r, d)) \<Longrightarrow> wlp (wait_event_interruptible e timeout cond d) Q2"
    "(\<And>d. P d \<Longrightarrow> Q1 d) \<Longrightarrow> wlp (wait_event e cond d) Q1"
    unfolding down_session_def down_session_interruptible_def
    using others [OF assms(1)] t assms
    by (auto intro!: wlp_down [where P = P] wlp_down_interruptible [where P = P]
        wlp_wait_event_interruptible [where P = P] wlp_wait_event [where P = P])
qed

lemma kept_primitives [kept_rules]:
  assumes "E e" "P d"
  shows "(\<And>d. P d \<Longrightarrow> Q1 d) \<Longrightarrow> wlp (notify_s e d) Q1"
    and "(\<And>d. P d \<Longrightarrow> Q1 d) \<Longrightarrow> wlp (raise_notification e bits d) Q1"
    and "(\<And>d. P d \<Longrightarrow> Q1 d) \<Longrightarrow> wlp (notify_ns_message e d) Q1"
    and "(\<And>d. P d \<Longrightarrow> Q1 d) \<Longrightarrow> wlp (invalidate_sessions d) Q1"
    and "(\<And>d. P d \<Longrightarrow> Q1 d) \<Longrightarrow> wlp (pnc_shm_forward e stack d) Q1"
    and "may i \<Longrightarrow> (\<And>r d'. (\<And>f. (\<And>s. s_index (f s) = s_index s) \<Longrightarrow> (\<And>s. s_mem (f s) = None) \<Longrightarrow> P (upd_sess i f d')) \<Longrightarrow>
      Q2 (r, d')) \<Longrightarrow> wlp (pnc_shm_free e (s_mem (sess d i)) d) Q2"
    and "may i \<Longrightarrow> (\<And>r d. P d \<Longrightarrow> Q2 (r, d)) \<Longrightarrow> wlp (config_name i name base d) Q2"
proof -
  have smc: "wlp (map_option snd (pnc_sched_smc e x d)) Q1" if "P d" "\<And>d. P d \<Longrightarrow> Q1 d" for x d
    using that by (auto simp: pnc_sched_smc_def do_smc_def Let_def wlp_def split: option.splits)
  then have n: "wlp (notify_s e d) Q1" if "P d" "\<And>d. P d \<Longrightarrow> Q1 d" for d
    using that by (simp add: notify_s_def)
  then have r: "wlp (raise_notification e bits d) Q1" if "P d" "\<And>d. P d \<Longrightarrow> Q1 d" for d bits
    using that by (simp add: raise_notification_def Let_def)
  show "(\<And>d. P d \<Longrightarrow> Q1 d) \<Longrightarrow> wlp (notify_s e d) Q1"
    "(\<And>d. P d \<Longrightarrow> Q1 d) \<Longrightarrow> wlp (raise_notification e bits d) Q1"
    using n r assms by blast+
  show "(\<And>d. P d \<Longrightarrow> Q1 d) \<Longrightarrow> wlp (notify_ns_message e d) Q1"
    using r publishes [OF assms(2)] by (auto simp: notify_ns_message_def Let_def split: prod.splits)
  show "(\<And>d. P d \<Longrightarrow> Q1 d) \<Longrightarrow> wlp (pnc_shm_forward e stack d) Q1"
    using smc assms by (simp add: pnc_shm_forward_def Let_def)
  have "P (d\<lparr>session_ready := w, shm := shm_hdr_update f (shm d)\<rparr>)" for w f
    using frame [of d "d\<lparr>session_ready := w, shm := shm_hdr_update f (shm d)\<rparr>"] assms by (simp add: untouched_def)
  then show "(\<And>d. P d \<Longrightarrow> Q1 d) \<Longrightarrow> wlp (invalidate_sessions d) Q1"
    by (simp add: invalidate_sessions_def pnc_shm_init_header_def)
  show "wlp (pnc_shm_free e (s_mem (sess d i)) d) Q2" if "may i"
    "\<And>r d'. (\<And>f. (\<And>s. s_index (f s) = s_index s) \<Longrightarrow> (\<And>s. s_mem (f s) = None) \<Longrightarrow> P (upd_sess i f d')) \<Longrightarrow> Q2 (r, d')"
    using releases [OF that(1) assms] that(2) by (auto simp: wlp_iff)
  show "may i \<Longrightarrow> (\<And>r d. P d \<Longrightarrow> Q2 (r, d)) \<Longrightarrow> wlp (config_name i name base d) Q2"
    using names [OF _ assms(2)] by (auto simp: wlp_iff)
qed

lemmas kept_sends [simp] = sends plain_ok value_ok signals takes

lemma kept_composites [kept_rules]:
  assumes "E e" "P d" "may i"
  shows "(\<And>r d. P d \<Longrightarrow> Q2 (r, d)) \<Longrightarrow> wlp (check_session_configured e i d) Q2"
    and "(\<And>r d. P d \<Longrightarrow> Q2 (r, d)) \<Longrightarrow> wlp (check_and_handle_terminated_session e i d) Q2"
  using assms
  by (auto simp: check_session_configured_def check_and_handle_terminated_session_def Let_def intro!: kept_rules)

lemma kept_wait_session_event [kept_rules]:
  assumes "E e" "P d" "may i" "\<And>r v d. P d \<Longrightarrow> Q (r, v, d)"
  shows "wlp (wait_session_event e i m t d) Q"
  using assms by (auto simp: wait_session_event_def clear_event_def Let_def intro!: kept_rules)

lemma kept_send_term [kept_rules]:
  assumes "E e" "P d" "may i" "\<And>d. P d \<Longrightarrow> Q d"
  shows "wlp (send_term e i d) Q"
  using assms by (auto simp: send_term_def Let_def intro!: kept_rules)

lemma kept_close [kept_rules]:
  assumes "E e" "P d" "pred_option may session" "\<And>d. P d \<Longrightarrow> Q d"
  shows "wlp (pnc_session_close e session d) Q"
  using assms by (cases session) (auto simp: pnc_session_close_def Let_def intro!: kept_rules)

subsection \<open>Handlers\<close>

lemma kept_dispatch [simp]:
  assumes "E e" "P d" "may (unat (msg_index m))"
  shows "P (dispatch_message e m d)"
  using assms
  by (simp add: dispatch_message_def handle_s_request_def handle_s_response_def handle_s_config_ack_def
      handle_s_cancel_def handle_s_cancel_ack_def handle_s_term_def handle_s_term_ack_def post_event_def Let_def
      split: option.splits session_action.splits session_state.splits)

lemma kept_handlers [kept_rules]:
  assumes "E e" "P d" "\<And>i. i < REE_MAX_SESSIONS \<Longrightarrow> may i" "\<And>d. P d \<Longrightarrow> Q d"
  shows "wlp (handle_s_message e m d) Q" "wlp (handle_s_signal e i d) Q"
  using assms by (auto simp: handle_s_message_def handle_s_signal_def post_event_def intro!: kept_rules)

lemma kept_close_sessions [kept_rules]:
  assumes "E e" "P d" "\<And>i. i < REE_MAX_SESSIONS \<Longrightarrow> may i" "\<And>d. P d \<Longrightarrow> Q d"
  shows "wlp (close_sessions e i d) Q"
  using assms(2)
proof (induction "REE_MAX_SESSIONS - i" arbitrary: i d)
  case 0
  then show ?case using assms(4) by (subst close_sessions.simps) simp
next
  case (Suc n)
  then have i: "may i" "n = REE_MAX_SESSIONS - Suc i" using assms(3) by simp_all
  show ?case
    using Suc.hyps(1) [OF i(2)] Suc.prems i(1) assms(1,3)
    by (subst close_sessions.simps) (auto simp: bounded intro!: kept_close)
qed

lemma kept_signal_loop:
  assumes "signal_loop e signals i d = Some d'" "E e" "P d" "\<And>i. i < REE_MAX_SESSIONS \<Longrightarrow> may i"
  shows "P d'"
  using assms(2,3)
proof (induction rule: signal_loop.raw_induct [OF _ assms(1), consumes 0])
  case (1 loop e signals i d d')
  have ih: "wlp (loop e j k x) P" if "P x" for j k x
    using 1(1) [OF _ 1(3) that] by (simp add: wlp_iff)
  have "wlp (do {
       d \<leftarrow> (if signals AND push_bit (unat (s_index (sess d i))) 1 \<noteq> 0 then handle_s_signal e i d
             else Some d);
       if next_session i d \<noteq> signal_session d then loop e signals (next_session i d) d
       else Some d}) P"
    using 1(3,4) assms(4) by (auto intro!: kept_rules ih)
  then show ?case using 1(2) by (simp add: wlp_iff)
qed

lemma kept_consume_loop:
  assumes "consume_loop e d = Some d'" "E e" "P d" "\<And>i. i < REE_MAX_SESSIONS \<Longrightarrow> may i"
  shows "P d'"
  using assms(2,3)
proof (induction rule: consume_loop.raw_induct [OF _ assms(1), consumes 0])
  case (1 loop e d d')
  have ih: "wlp (loop e x) P" if "P x" for x
    using 1(1) [OF _ 1(3) that] by (simp add: wlp_iff)
  have "wlp (let (m, c) = consumer_consume (s_to_ns_ring d) (ring_s_to_ns (shm d)); d = d\<lparr>s_to_ns_ring := c\<rparr>
      in case m of None \<Rightarrow> Some d | Some m \<Rightarrow> do { d \<leftarrow> handle_s_message e m d; loop e d }) P"
    using 1(3,4) assms(4) by (auto simp: Let_def split: prod.splits option.splits intro!: kept_rules ih)
  then show ?case using 1(2) by (simp add: wlp_iff)
qed

lemma kept_message_loop:
  assumes "message_loop e d = Some d'" "E e" "P d" "\<And>i. i < REE_MAX_SESSIONS \<Longrightarrow> may i"
  shows "P d'"
  using assms(2,3)
proof (induction rule: message_loop.raw_induct [OF _ assms(1), consumes 0])
  case (1 loop e d d')
  have ih: "wlp (loop e x) P" if "P x" for x
    using 1(1) [OF _ 1(3) that] by (simp add: wlp_iff)
  have consume: "wlp (consume_loop e x) (\<lambda>d. wlp (loop e d) P)" if "P x" for x
    using kept_consume_loop [OF _ 1(3) that assms(4)] ih by (auto simp: wlp_iff)
  have "wlp (let (ok, c, sh) = consumer_checkout (ring_peer e (tick d)) (s_to_ns_ring d) (ring_s_to_ns (shm d));
        d = d\<lparr>s_to_ns_ring := c, shm := (shm d)\<lparr>ring_s_to_ns := sh\<rparr>\<rparr>
      in if ok then do { d \<leftarrow> consume_loop e d; loop e d } else Some d) P"
    using 1(3,4) assms(4) by (auto simp: Let_def split: prod.splits intro!: consume)
  then show ?case using 1(2) by (simp add: wlp_iff)
qed

lemma kept_worker [kept_rules]:
  assumes "E e" "P d" "\<And>i. i < REE_MAX_SESSIONS \<Longrightarrow> may i" "\<And>d. P d \<Longrightarrow> Q d"
  shows "wlp (handle_s_notification e stack d) Q"
proof -
  have reset: "wlp (handle_s_reset e stack x) Q" if "P x" for x
    using that assms(1,3,4) by (auto simp: handle_s_reset_def intro!: kept_rules)
  have signals: "wlp (handle_signals e s x) R" if "P x" "\<And>d. P d \<Longrightarrow> R d" for s x R
    using that kept_signal_loop [OF _ assms(1) _ assms(3)]
    by (auto simp: handle_signals_def wlp_iff [of "signal_loop e i j d" for i j d])
  have messages: "wlp (handle_messages e x) Q" if "P x" for x
    using that assms(1,3,4) kept_message_loop [OF _ assms(1) _ assms(3)]
    by (auto simp: handle_messages_def commit_messages_def Let_def wlp_iff [of "message_loop e x"]
        split: prod.splits intro!: kept_primitives)
  show ?thesis
    using assms by (auto simp: handle_s_notification_def Let_def intro!: reset signals messages)
qed

lemma kept_interrupt [simp]: "P d \<Longrightarrow> P (pnc_session_interrupt_handler d)"
  using frame [of d "pnc_session_interrupt_handler d"]
  by (simp add: untouched_def pnc_session_interrupt_handler_def)

lemma kept_exit [kept_rules]:
  assumes "E e" "P d" "\<And>i. i < REE_MAX_SESSIONS \<Longrightarrow> may i" "\<And>d. P d \<Longrightarrow> Q d"
  shows "wlp (pnc_sessions_exit e stack d) Q"
  using assms by (auto simp: pnc_sessions_exit_def intro!: kept_rules)

subsection \<open>The API\<close>

lemma kept_open_alloc [kept_rules]:
  assumes "E e" "P d"
  shows "(\<And>r i d. P d \<Longrightarrow> Q3 (r, i, d)) \<Longrightarrow> wlp (pnc_session_open e d) Q3"
    and "may i \<Longrightarrow> (\<And>r d. P d \<Longrightarrow> Q2 (r, d)) \<Longrightarrow> wlp (pnc_session_alloc e i sz d) Q2"
proof -
  have slot: "P (upd_sess k (\<lambda>s. s\<lparr>s_free := False, s_event_pending := 0, s_client_message := zero_message,
      s_server_message := zero_message\<rparr>) x)" if "find_free 0 x = Some k" "P x" for k x
    using opens [of k x] find_free_Some [OF that(1)] that(2) by simp
  show "(\<And>r i d. P d \<Longrightarrow> Q3 (r, i, d)) \<Longrightarrow> wlp (pnc_session_open e d) Q3"
    using assms by (auto simp: pnc_session_open_def slot Let_def split: option.splits intro!: kept_rules)
  show "may i \<Longrightarrow> (\<And>r d. P d \<Longrightarrow> Q2 (r, d)) \<Longrightarrow> wlp (pnc_session_alloc e i sz d) Q2"
    using assms allocates [of i e d] by (fastforce simp: pnc_session_alloc_def wlp_iff Let_def split: bind_splits)
qed

lemma kept_configure [kept_rules]:
  assumes "E e" "P d" "may i" "\<And>r d. P d \<Longrightarrow> Q (r, d)"
  shows "wlp (configure_session e i sid name d) Q"
proof -
  have result: "wlp (config_result e i r x) Q" if "P x" for r x
    using that assms(1,3,4) by (auto simp: config_result_def Let_def intro!: kept_rules)
  have message: "wlp (config_message i sid x) R" if "P x" "\<And>m. ok m \<Longrightarrow> R m" for x R
    using that config_ok [OF _ assms(3)] by (auto simp: wlp_iff)
  show ?thesis
    using assms by (auto simp: configure_session_def Let_def intro!: kept_rules result message)
qed

lemma kept_requests [kept_rules]:
  assumes "E e" "P d" "may i"
  shows "(\<And>r d. P d \<Longrightarrow> Q2 (r, d)) \<Longrightarrow> wlp (send_request e i x d) Q2"
    and "(\<And>r v d. P d \<Longrightarrow> Q3 (r, v, d)) \<Longrightarrow> wlp (get_response e i buf d) Q3"
    and "(\<And>r v d. P d \<Longrightarrow> Q3 (r, v, d)) \<Longrightarrow> wlp (pnc_session_get_request e i buf d) Q3"
    and "(\<And>r v d. P d \<Longrightarrow> Q3 (r, v, d)) \<Longrightarrow> wlp (cancel_wait e i t d) Q3"
  using assms
  by (auto simp: send_request_def get_response_def pnc_session_get_request_def cancel_wait_def clear_event_def Let_def
      intro!: kept_rules)

lemma kept_calls [kept_rules]:
  assumes "E e" "P d" "may i" "\<And>r d. P d \<Longrightarrow> Q (r, d)"
  shows "wlp (pnc_session_send_request e i x d) Q"
    and "wlp (pnc_session_send_response e i x d) Q"
    and "wlp (pnc_session_send_signal e i x d) Q"
  using assms
  by (auto simp: pnc_session_send_request_def pnc_session_send_response_def pnc_session_send_signal_def Let_def
      intro!: kept_rules)

lemma kept_value_calls [kept_rules]:
  assumes "E e" "P d" "may i" "\<And>r v d. P d \<Longrightarrow> Q (r, v, d)"
  shows "wlp (pnc_session_get_response e i buf d) Q"
    "wlp (pnc_session_wait_response e i buf t d) Q"
    "wlp (pnc_session_wait_request e i buf t d) Q"
    "wlp (pnc_session_send_request_and_wait_response e i x t buf d) Q"
    "wlp (pnc_session_get_signal e i buf d) Q"
    "wlp (pnc_session_wait_signal e i buf t d) Q"
    "wlp (pnc_session_wait_event e i buf x t d) Q"
    "wlp (pnc_session_get_pending_events e i buf d) Q"
    "wlp (pnc_session_cancel_request e i buf t d) Q"
  using assms
  by (auto simp: pnc_session_get_response_def pnc_session_wait_response_def pnc_session_wait_request_def
      pnc_session_send_request_and_wait_response_def pnc_session_get_signal_def pnc_session_wait_signal_def
      pnc_session_wait_event_def pnc_session_get_pending_events_def pnc_session_cancel_request_def
      take_s_to_ns_signals_def clear_event_def Let_def split: session_state.splits intro!: kept_rules)

lemma kept_poll [kept_rules]:
  assumes "E e" "P d" "pred_option may session" "\<And>r d. P d \<Longrightarrow> Q (r, d)"
  shows "wlp (pnc_session_poll_wait e session args d) Q"
  using assms by (cases session) (auto simp: pnc_session_poll_wait_def intro!: kept_rules)

subsection \<open>All calls\<close>

lemma kept_exec:
  assumes "E e" "P d" "pred_option may (call_session c)" "on_all c \<Longrightarrow> \<forall>i < REE_MAX_SESSIONS. may i"
  shows "wlp (drv_exec e c d) P"
  using assms
  by (cases c) (auto simp: pnc_session_config_def pnc_session_config_by_name_def intro!: kept_rules)

end

end
