(* ===== verification/PncChannel.thy ===== *)
theory PncChannel
  imports PncKept
begin

text \<open>
  What the secure world receives from the driver: the locale of PncKept on the ring to the secure world together with the
  allocator. Whatever calls run, the ring is used only through its operations, and every message in it is one of the
  protocol.
\<close>

text \<open>The part of the state that a message to the secure world is made from.\<close>

definition same_sending :: "'a drv_scheme \<Rightarrow> 'a drv_scheme \<Rightarrow> bool" where
  "same_sending d d' \<longleftrightarrow>
     map s_index (sessions d') = map s_index (sessions d) \<and> ns_to_s_ring d' = ns_to_s_ring d \<and>
     ring_ns_to_s (shm d') = ring_ns_to_s (shm d) \<and> heap d' = heap d \<and> blocks d' = blocks d \<and>
     shm_nr_pages d' = shm_nr_pages d"

lemma same_sending_upd:
  assumes "\<And>s. s_index (f s) = s_index s"
  shows "same_sending d (upd_sess i f d)"
proof (cases "i < length (sessions d)")
  case True
  then have "(map s_index (sessions d))[i := s_index (sessions d ! i)] = map s_index (sessions d)"
    by (metis list_update_id nth_map)
  then show ?thesis using assms by (simp add: same_sending_def upd_sess_def sess_def map_update)
qed (simp add: same_sending_def upd_sess_def list_update_beyond)

subsection \<open>The ring to the secure world\<close>

text \<open>
  A message of the protocol: it names a session; a request and a response carry a value, a configuration the marked
  identifier of a service and a range of pages, the others nothing. \<open>nr\<close>: the pages of the shared memory.
\<close>

definition protocol_message :: "u32 \<Rightarrow> pnc_message \<Rightarrow> bool" where
  "protocol_message nr m \<longleftrightarrow>
     unat (msg_index m) < REE_MAX_SESSIONS \<and>
     (case action_of_code (msg_action m) of
        None \<Rightarrow> False
      | Some a \<Rightarrow>
          if a = A_REQUEST \<or> a = A_RESPONSE then msg_p0 m = 0 \<and> msg_p2 m = 0
          else if a = A_CONFIG then bit (msg_p0 m) 62 \<and> bit (msg_p0 m) 63 \<and>
            {unat (msg_p1 m) ..< unat (msg_p1 m) + unat (msg_p2 m)} \<subseteq> {REE_RESERVED_PAGES ..< unat nr}
          else a \<noteq> A_CONFIG_ACK \<and> msg_p0 m = 0 \<and> msg_p1 m = 0 \<and> msg_p2 m = 0)"

fun ring_event_ok :: "u32 \<Rightarrow> pnc_message ring_event \<Rightarrow> bool" where
  "ring_event_ok nr (Produce m) = protocol_message nr m"
| "ring_event_ok nr _ = True"

fun consumer_event :: "'m ring_event \<Rightarrow> bool" where
  "consumer_event Consumer_checkout = True"
| "consumer_event Consume = True"
| "consumer_event Consumer_commit = True"
| "consumer_event _ = False"

definition moves :: "('m ring_event \<Rightarrow> bool) \<Rightarrow> 'm uni_ring \<Rightarrow> 'm uni_ring \<Rightarrow> bool" where
  "moves A r r' \<longleftrightarrow> (\<exists>es a g. list_all A es \<and> run_steps uni_step es r = (a, g, r'))"

text \<open>The ring as \<open>pnc_sessions_init\<close> leaves it.\<close>

definition fresh_ring :: "pnc_message uni_ring" where
  "fresh_ring = uni_initial 8 (replicate 256 zero_message)"

definition sending_ok :: "u32 \<Rightarrow> nat option \<Rightarrow> 'a drv_scheme \<Rightarrow> bool" where
  "sending_ok nr b d \<longleftrightarrow>
     length (sessions d) = REE_MAX_SESSIONS \<and> (\<forall>i < REE_MAX_SESSIONS. s_index (sess d i) = of_nat i) \<and>
     shm_nr_pages d = nr \<and> blocks d = b \<and> heap_tiled d \<and> (\<exists>c. moves (ring_event_ok nr) fresh_ring (ns_actors d c))"

text \<open>Between the two looks of a checkout the secure world does what a consumer does.\<close>

definition secure_consumes :: "('a drv_scheme, 'b) drv_env_scheme \<Rightarrow> bool" where
  "secure_consumes e \<longleftrightarrow>
     (\<forall>n r. uni_wf 8 r \<longrightarrow> (\<exists>c. moves consumer_event r (r\<lparr>rg_consumer := c, rg_shared := ring_peer e n (rg_shared r)\<rparr>)))"

definition sending_env :: "u32 \<Rightarrow> nat option \<Rightarrow> ('a drv_scheme, 'b) drv_env_scheme \<Rightarrow> bool" where
  "sending_env nr b e \<longleftrightarrow> env_keeps (sending_ok nr b) e \<and> kmalloc_fresh e \<and> secure_consumes e"

lemma moves_refl [simp]: "moves A r r"
  by (auto simp: moves_def intro!: exI [of _ "[]"])

lemma moves_trans: "moves A r r' \<Longrightarrow> moves A r' r'' \<Longrightarrow> moves A r r''"
  unfolding moves_def by (elim exE conjE, rule_tac x = "es @ esa" in exI) (auto simp: run_steps_append)

lemma moves_step: "A x \<Longrightarrow> uni_step x r = (a, g, r') \<Longrightarrow> moves A r r'"
  by (auto simp: moves_def intro!: exI [of _ "[x]"])

lemma moves_mono: "moves A r r' \<Longrightarrow> (\<And>x. A x \<Longrightarrow> B x) \<Longrightarrow> moves B r r'"
  by (auto simp: moves_def list_all_iff)

lemma consumer_event_ok: "consumer_event x \<Longrightarrow> ring_event_ok nr x"
  by (cases x) simp_all

lemma moves_wf: "moves A r r' \<Longrightarrow> uni_wf k r \<Longrightarrow> uni_wf k r'"
  using uni.run_invar_fifo by (fastforce simp: moves_def)

lemma fresh_ring_wf: "uni_wf 8 fresh_ring" "uni_content fresh_ring = []"
  using uni_initial_wf [of 8 "replicate 256 zero_message"] by (simp_all add: fresh_ring_def)

text \<open>A consumer does not touch what belongs to the producer.\<close>

lemma consumer_moves_frame:
  assumes "moves consumer_event r r'"
  shows "rg_producer r' = rg_producer r" "sh_cons_limit (rg_shared r') = sh_cons_limit (rg_shared r)"
proof -
  have one: "rg_producer r' = rg_producer r \<and> sh_cons_limit (rg_shared r') = sh_cons_limit (rg_shared r)"
    if "consumer_event x" "uni_step x r = (a, g, r')" for x and r r' :: "'a uni_ring" and a g
    using that by (cases x) (auto simp: consumer_checkout_def consumer_commit_def Let_def split: prod.splits if_splits)
  have "list_all consumer_event es \<Longrightarrow> run_steps uni_step es r = (a, g, r') \<Longrightarrow>
      rg_producer r' = rg_producer r \<and> sh_cons_limit (rg_shared r') = sh_cons_limit (rg_shared r)" for es r a g
    by (induction es arbitrary: r a g) (auto split: prod.splits dest: one)
  then show "rg_producer r' = rg_producer r" "sh_cons_limit (rg_shared r') = sh_cons_limit (rg_shared r)"
    using assms by (auto simp: moves_def)
qed

text \<open>A checkout whose two looks are separated is two checkouts with the secure world in between.\<close>

lemma checkout_moves:
  assumes "uni_wf 8 r" "secure_consumes e"
    and "producer_checkout (ring_peer e n) (rg_producer r) (rg_shared r) = (b, p, sh)"
  shows "\<exists>c. moves (ring_event_ok nr) r (r\<lparr>rg_producer := p, rg_consumer := c, rg_shared := sh\<rparr>)"
proof (cases "sh_cons (rg_shared r) + 2 ^ 8 = p_prod (rg_producer r)")
  case False
  then have "moves (ring_event_ok nr) r (r\<lparr>rg_producer := p, rg_shared := sh\<rparr>)"
    using assms(3) wf_producer_look [OF assms(1)] uni_producer_checkout [OF assms(1)]
    by (intro moves_step [of _ Producer_checkout]) (auto simp: producer_checkout_def)
  then show ?thesis by (intro exI [of _ "rg_consumer r"]) simp
next
  case True
  let ?p1 = "(rg_producer r)\<lparr>p_prod_end := p_prod (rg_producer r)\<rparr>"
  let ?r1 = "r\<lparr>rg_producer := ?p1, rg_shared := (rg_shared r)\<lparr>sh_cons_limit := p_prod (rg_producer r) - 2 ^ 8\<rparr>\<rparr>"
  have cap: "p_capacity (rg_producer r) = 2 ^ 8" using assms(1) by (simp add: uni_wf_def Let_def)
  have first: "moves (ring_event_ok nr) r ?r1"
    using uni_producer_checkout [OF assms(1)] True by (intro moves_step [of _ Producer_checkout]) simp_all
  have wf1: "uni_wf 8 ?r1" by (rule moves_wf [OF first assms(1)])
  obtain c where peer: "moves consumer_event ?r1 (?r1\<lparr>rg_consumer := c, rg_shared := ring_peer e n (rg_shared ?r1)\<rparr>)"
    using assms(2) wf1 unfolding secure_consumes_def by blast
  let ?r2 = "?r1\<lparr>rg_consumer := c, rg_shared := ring_peer e n (rg_shared ?r1)\<rparr>"
  have wf2: "uni_wf 8 ?r2" by (rule moves_wf [OF peer wf1])
  have limit: "(rg_shared ?r2)\<lparr>sh_cons_limit := p_prod (rg_producer r) - 2 ^ 8\<rparr> = rg_shared ?r2"
    using consumer_moves_frame(2) [OF peer] by (intro uni_shared.equality) simp_all
  have "producer_checkout (ring_peer e n) (rg_producer r) (rg_shared r) =
      (sh_cons (rg_shared ?r2) + 2 ^ 8 \<noteq> p_prod (rg_producer r),
       ?p1\<lparr>p_prod_end := sh_cons (rg_shared ?r2) + 2 ^ 8\<rparr>, rg_shared ?r2)"
    using wf_producer_look [OF assms(1)] wf_producer_look [OF wf2] True cap
    by (simp add: producer_checkout_def Let_def)
  then have "uni_step Producer_checkout ?r2 = ([], [], r\<lparr>rg_producer := p, rg_consumer := c, rg_shared := sh\<rparr>)"
    using uni_producer_checkout [OF wf2] limit assms(3) by simp
  then have "moves (ring_event_ok nr) ?r2 (r\<lparr>rg_producer := p, rg_consumer := c, rg_shared := sh\<rparr>)"
    by (intro moves_step [of _ Producer_checkout]) simp_all
  moreover have "moves (ring_event_ok nr) ?r1 ?r2"
    using peer by (rule moves_mono) (rule consumer_event_ok)
  ultimately show ?thesis using first moves_trans by blast
qed

lemma sending_write:
  assumes "sending_env nr b e" "sending_ok nr b d" "protocol_message nr m"
  shows "sending_ok nr b (write_ns_message e m d)"
proof -
  obtain c where run: "moves (ring_event_ok nr) fresh_ring (ns_actors d c)" using assms(2) by (auto simp: sending_ok_def)
  have wf: "uni_wf 8 (ns_actors d c)" by (rule moves_wf [OF run fresh_ring_wf(1)])
  obtain ok p sh where co: "producer_checkout (ring_peer e (tick d)) (ns_to_s_ring d) (ring_ns_to_s (shm d)) = (ok, p, sh)"
    by (cases "producer_checkout (ring_peer e (tick d)) (ns_to_s_ring d) (ring_ns_to_s (shm d))")
  obtain ok2 p2 sh2 where pr: "producer_produce p sh m = (ok2, p2, sh2)" by (cases "producer_produce p sh m")
  obtain c2 where "moves (ring_event_ok nr) (ns_actors d c) \<lparr>rg_producer = p, rg_consumer = c2, rg_shared = sh\<rparr>"
    using checkout_moves [OF wf, of e "tick d" ok p sh nr] assms(1) co by (auto simp: sending_env_def ns_actors_def)
  moreover have "moves (ring_event_ok nr) \<lparr>rg_producer = p, rg_consumer = c2, rg_shared = sh\<rparr>
      \<lparr>rg_producer = p2, rg_consumer = c2, rg_shared = sh2\<rparr>"
    using assms(3) pr by (intro moves_step [of _ "Produce m"]) auto
  moreover have "ns_actors (write_ns_message e m d) c2 = \<lparr>rg_producer = p2, rg_consumer = c2, rg_shared = sh2\<rparr>"
    using co pr by (simp add: write_ns_message_def ns_actors_def)
  ultimately have "moves (ring_event_ok nr) fresh_ring (ns_actors (write_ns_message e m d) c2)"
    using run moves_trans by metis
  moreover have "sessions (write_ns_message e m d) = sessions d" "heap (write_ns_message e m d) = heap d"
    "blocks (write_ns_message e m d) = blocks d" "shm_nr_pages (write_ns_message e m d) = shm_nr_pages d"
    using co pr by (simp_all add: write_ns_message_def)
  ultimately show ?thesis
    using assms(2) heap_tiled_cong [of "write_ns_message e m d" d] by (auto simp: sending_ok_def sess_def)
qed

lemma sending_publish:
  assumes "sending_ok nr b d" "producer_commit (ns_to_s_ring d) (ring_ns_to_s (shm d)) = (ok, p, sh)"
  shows "sending_ok nr b (d\<lparr>ns_to_s_ring := p, shm := (shm d)\<lparr>ring_ns_to_s := sh\<rparr>\<rparr>)"
proof -
  obtain c where run: "moves (ring_event_ok nr) fresh_ring (ns_actors d c)" using assms(1) by (auto simp: sending_ok_def)
  let ?d = "d\<lparr>ns_to_s_ring := p, shm := (shm d)\<lparr>ring_ns_to_s := sh\<rparr>\<rparr>"
  have "moves (ring_event_ok nr) (ns_actors d c) (ns_actors ?d c)"
    using assms(2) by (intro moves_step [of _ Producer_commit]) (auto simp: ns_actors_def)
  then have "moves (ring_event_ok nr) fresh_ring (ns_actors ?d c)" using run moves_trans by blast
  then show ?thesis using assms(1) heap_tiled_cong [of ?d d] by (auto simp: sending_ok_def sess_def)
qed

lemma sending_frame:
  assumes "same_sending d d'"
  shows "sending_ok nr b d' = sending_ok nr b d"
proof -
  have len: "length (sessions d') = length (sessions d)"
    using assms map_eq_imp_length_eq unfolding same_sending_def by blast
  have "s_index (sess d' i) = s_index (sess d i)" if "i < length (sessions d)" for i
    using assms that len nth_map [of i "sessions d" s_index] nth_map [of i "sessions d'" s_index]
    by (simp add: same_sending_def sess_def)
  moreover have "ns_actors d' c = ns_actors d c" for c using assms by (simp add: same_sending_def ns_actors_def)
  ultimately show ?thesis
    using assms len heap_tiled_cong [of d' d] by (auto simp: same_sending_def sending_ok_def)
qed

lemma sending_memory:
  assumes "sending_ok nr b d" "d' = d\<lparr>heap := heap d', shm_sem := shm_sem d'\<rparr>" "heap_tiled d'"
  shows "sending_ok nr b d'"
proof -
  have "sessions d' = sessions d" "shm_nr_pages d' = shm_nr_pages d" "blocks d' = blocks d" "ns_to_s_ring d' = ns_to_s_ring d"
    "shm d' = shm d" by (subst assms(2); simp)+
  then show ?thesis using assms(1,3) by (simp add: sending_ok_def sess_def ns_actors_def)
qed

lemma sending_tick_free: "tick_free (sending_ok nr b)"
  unfolding tick_free_def by (intro allI sending_frame) (simp add: same_sending_def)

lemma sending_shm:
  assumes "sending_env nr b e" "sending_ok nr b d"
  shows "pnc_shm_free e blk d = Some (r, d') \<Longrightarrow> sending_ok nr b d'"
    and "pnc_shm_alloc e n d = Some (r, q, d') \<Longrightarrow> sending_ok nr b d'"
proof -
  have y: "sending_ok nr b (yield e d)"
    using assms by (auto simp: sending_env_def intro: yield_keeps [OF _ sending_tick_free])
  let ?d = "(yield e d)\<lparr>shm_sem := shm_sem (yield e d) - 1\<rparr>"
  have taken: "sending_ok nr b ?d" "heap_tiled ?d" "blocks ?d = blocks d"
    using y assms(2) heap_tiled_cong [of ?d "yield e d"] sending_memory [OF y, of ?d] by (simp_all add: sending_ok_def)
  have given: "sending_ok nr b (x\<lparr>shm_sem := k\<rparr>)" if "heap_tiled x" "x = ?d\<lparr>heap := heap x\<rparr>" for x k
  proof (rule sending_memory [OF taken(1)])
    show "x\<lparr>shm_sem := k\<rparr> = ?d\<lparr>heap := heap (x\<lparr>shm_sem := k\<rparr>), shm_sem := shm_sem (x\<lparr>shm_sem := k\<rparr>)\<rparr>"
      by (subst that(2)) simp
    show "heap_tiled (x\<lparr>shm_sem := k\<rparr>)" using that(1) heap_tiled_cong [of "x\<lparr>shm_sem := k\<rparr>" x] by simp
  qed
  show "pnc_shm_free e blk d = Some (r, d') \<Longrightarrow> sending_ok nr b d'"
    using assms(2) y heap_tiled_free_locked [OF taken(2)] given
    by (auto simp: pnc_shm_free_def down_shm_sem EINTR_def split: option.splits if_splits bind_splits)
  have fresh: "kmalloc_fresh e" using assms(1) by (simp add: sending_env_def)
  show "pnc_shm_alloc e n d = Some (r, q, d') \<Longrightarrow> sending_ok nr b d'"
    using y heap_tiled_alloc_locked [OF taken(2) fresh] given taken(3)
    by (auto simp: pnc_shm_alloc_def down_shm_sem EINTR_def Let_def split: option.splits if_splits bind_splits)
qed

lemma sending_message:
  assumes "sending_ok nr b d" "i < REE_MAX_SESSIONS"
  shows "a \<in> {A_CANCEL, A_CANCEL_ACK, A_TERM, A_TERM_ACK} \<Longrightarrow> protocol_message nr (new_message (s_index (sess d i)) a)"
    and "a \<in> {A_REQUEST, A_RESPONSE} \<Longrightarrow> protocol_message nr ((new_message (s_index (sess d i)) a)\<lparr>msg_p1 := x\<rparr>)"
    and "config_message i sid d = Some m \<Longrightarrow> protocol_message nr m"
proof -
  have idx: "unat (ucast (s_index (sess d i)) :: u8) = i"
    using assms by (simp add: sending_ok_def unsigned_ucast_eq unsigned_of_nat take_bit_nat_eq_self proto_consts)
  note defs = protocol_message_def new_message_def zero_message_def
  show "a \<in> {A_CANCEL, A_CANCEL_ACK, A_TERM, A_TERM_ACK} \<Longrightarrow> protocol_message nr (new_message (s_index (sess d i)) a)"
    "a \<in> {A_REQUEST, A_RESPONSE} \<Longrightarrow> protocol_message nr ((new_message (s_index (sess d i)) a)\<lparr>msg_p1 := x\<rparr>)"
    using idx assms(2) by (auto simp: defs)
  assume m: "config_message i sid d = Some m"
  have marked: "bit (sid OR push_bit 62 1 OR push_bit 63 1) 62" "bit (sid OR push_bit 62 1 OR push_bit 63 1) 63"
    by (simp_all add: bit_or_iff bit_push_bit_iff)
  show "protocol_message nr m"
  proof (cases "s_mem (sess d i)")
    case None
    then show ?thesis using m idx assms(2) marked by (auto simp: config_message_def defs action_of_code_def)
  next
    case (Some p)
    then obtain blk where blk: "heap d p = Some blk"
      "m = (new_message (s_index (sess d i)) A_CONFIG)\<lparr>msg_p0 := sid OR push_bit 62 1 OR push_bit 63 1,
        msg_p1 := blk_offset blk, msg_p2 := ucast (blk_nr_pages blk)\<rparr>"
      using m by (auto simp: config_message_def split: bind_splits)
    have "unat (ucast (blk_nr_pages blk) :: u16) \<le> unat (blk_nr_pages blk)"
      by (simp add: unsigned_ucast_eq)
    then have "{unat (blk_offset blk) ..< unat (blk_offset blk) + unat (ucast (blk_nr_pages blk) :: u16)}
        \<subseteq> {REE_RESERVED_PAGES ..< unat nr}"
      using heap_tiled_block [OF _ blk(1)] assms(1) by (auto simp: sending_ok_def)
    then show ?thesis using blk(2) idx assms(2) marked by (auto simp: defs action_of_code_def)
  qed
qed

lemma sending_upd:
  "sending_ok nr b d \<Longrightarrow> (\<And>s. s_index (f s) = s_index s) \<Longrightarrow> sending_ok nr b (upd_sess i f d)"
  using sending_frame [OF same_sending_upd] by blast

lemma sending_names: "sending_ok nr b d \<Longrightarrow> config_name i name base d = Some (r, d') \<Longrightarrow> sending_ok nr b d'"
proof -
  assume d: "sending_ok nr b d" "config_name i name base d = Some (r, d')"
  then have "same_sending d d'"
    by (cases name) (auto simp: config_name_def same_sending_def split: if_splits bind_splits)
  then show ?thesis using d(1) sending_frame by blast
qed

interpretation sending: kept_by_calls "sending_ok nr b" "sending_env nr b" "protocol_message nr" "\<lambda>i. i < REE_MAX_SESSIONS"
proof unfold_locales
  fix d d' :: drv and e :: "drv drv_env" and i n r x f blk
  show "untouched d d' \<Longrightarrow> sending_ok nr b d' = sending_ok nr b d"
    by (rule sending_frame) (simp add: untouched_def same_sending_def)
  show "sending_env nr b e \<Longrightarrow> env_keeps (sending_ok nr b) e" by (simp add: sending_env_def)
  show "sending_ok nr b d \<Longrightarrow> length (sessions d) = REE_MAX_SESSIONS" by (simp add: sending_ok_def)
  have "same_sending d (d\<lparr>shm := (shm d)\<lparr>signals_ns_to_s := g\<rparr>\<rparr>)" "same_sending d (d\<lparr>shm := (shm d)\<lparr>signals_s_to_ns := g\<rparr>\<rparr>)" for g
    by (simp_all add: same_sending_def)
  then show "sending_ok nr b d \<Longrightarrow> sending_ok nr b (d\<lparr>shm := (shm d)\<lparr>signals_ns_to_s :=
        (signals_ns_to_s (shm d))[unat (s_index (sess d i)) := x]\<rparr>\<rparr>)"
    "sending_ok nr b d \<Longrightarrow> sending_ok nr b (d\<lparr>shm := (shm d)\<lparr>signals_s_to_ns :=
        (signals_s_to_ns (shm d))[unat (s_index (sess d i)) := x]\<rparr>\<rparr>)"
    using sending_frame by blast+
  show "sending_env nr b e \<Longrightarrow> sending_ok nr b d \<Longrightarrow> pnc_shm_alloc e n d = Some (r, blk, d') \<Longrightarrow>
      sending_ok nr b (if blk \<noteq> None then upd_sess i (s_mem_update (\<lambda>_. blk)) d' else d')"
    by (auto intro: sending_shm(2) intro!: sending_upd)
  show "sending_ok nr b (upd_sess i f d')" if "sending_env nr b e" "sending_ok nr b d"
    "pnc_shm_free e (s_mem (sess d i)) d = Some (r, d')" "\<And>s. s_index (f s) = s_index s" for f
    by (rule sending_upd [OF sending_shm(1) [OF that(1,2,3)] that(4)])
qed (assumption | rule sending_write sending_publish sending_message sending_upd sending_names)+

text \<open>A call on an existing session, in an environment where the other threads keep the ring and the secure world reads it.\<close>

inductive sending_step :: "u32 \<Rightarrow> nat option \<Rightarrow> drv \<Rightarrow> drv_call \<Rightarrow> drv \<Rightarrow> bool" where
  sending_step: "sending_env nr b (e :: drv drv_env) \<Longrightarrow> pred_option (\<lambda>i. i < REE_MAX_SESSIONS) (call_session c) \<Longrightarrow>
     drv_exec e c d = Some d' \<Longrightarrow> sending_step nr b d c d'"

inductive_cases sending_stepE: "sending_step nr b d c d'"

lemma sending_start:
  assumes "pnc_sessions_init d0 = Some (0, d)" "heap_tiled d0"
  shows "sending_ok (shm_nr_pages d0) (blocks d0) d"
proof -
  have "shm_base d0 \<noteq> 0" using assms(1) by (auto simp: pnc_sessions_init_def errno split: if_splits)
  then have "ns_actors d \<lparr>c_capacity = 256, c_cons = 0, c_last_published_cons = 0, c_cons_end = 0\<rparr> = fresh_ring"
    "heap d = heap d0" "blocks d = blocks d0" "shm_nr_pages d = shm_nr_pages d0"
    "sessions d = map initial_session [0..<REE_MAX_SESSIONS]"
    using assms(1) ring_sizes
    by (auto simp: pnc_sessions_init_def pnc_shm_init_header_def Let_def ns_actors_def fresh_ring_def uni_initial_def
        uni_shared_init_def zero_shm_def zero_ring_def proto_consts)
  then show ?thesis
    using assms(2) heap_tiled_cong [of d d0] moves_refl [of "ring_event_ok (shm_nr_pages d0)" fresh_ring]
    by (auto simp: sending_ok_def sess_def initial_session_def intro: exI [of _ "\<lparr>c_capacity = 256, c_cons = 0, c_last_published_cons = 0, c_cons_end = 0\<rparr>"])
qed

lemma sent_ok:
  "list_all (ring_event_ok nr) es \<Longrightarrow> run_steps uni_step es r = (sent, got, r') \<Longrightarrow> list_all (protocol_message nr) sent"
proof (induction es arbitrary: r sent got)
  case (Cons x es)
  then show ?case by (cases x) (auto split: prod.splits if_splits)
qed simp

text \<open>
  C6. Whatever calls are made on the sessions from the start of the driver on, in whatever order and whatever the other
  threads do in between, the ring to the secure world is used only through its operations: the secure world receives
  what the driver sends, in order, unchanged and without loss of an accepted message. Every message sent is one of the
  protocol, with the index of a session, and the pages it configures lie in the shared memory outside the reserved part.
\<close>

theorem driver_sends_protocol:
  assumes "pnc_sessions_init d0 = Some (0, d)" "heap_tiled d0"
    and "history (sending_step (shm_nr_pages d0) (blocks d0)) d calls d'"
  shows "\<exists>es c sent received.
    run_steps uni_step es (uni_initial 8 (replicate 256 zero_message)) = (sent, received, ns_actors d' c) \<and>
    sent = received @ uni_content (ns_actors d' c) \<and>
    list_all (protocol_message (shm_nr_pages d0)) sent"
proof -
  let ?nr = "shm_nr_pages d0"
  have "sending_ok ?nr (blocks d0) d'"
  proof (rule history_invariant [where P = "sending_ok ?nr (blocks d0)", OF assms(3) sending_start [OF assms(1,2)]])
    show "sending_ok ?nr (blocks d0) s'" if "sending_step ?nr (blocks d0) s x s'" "sending_ok ?nr (blocks d0) s" for s x s'
      using that sending.kept_exec [OF _ that(2)] by (auto elim!: sending_stepE simp: wlp_iff)
  qed
  then obtain c es a g where run: "list_all (ring_event_ok ?nr) es" "run_steps uni_step es fresh_ring = (a, g, ns_actors d' c)"
    by (auto simp: sending_ok_def moves_def)
  then have "a = g @ uni_content (ns_actors d' c)"
    using uni.run_invar_fifo [OF fresh_ring_wf(1) run(2)] fresh_ring_wf(2) by simp
  then show ?thesis using run sent_ok [OF run] by (auto simp: fresh_ring_def)
qed

end
