(* ===== verification/PncExclusive.thy ===== *)
theory PncExclusive
  imports PncKept
begin

text \<open>
  The memory of the sessions: the locale of PncKept on who has which block. Every session that has memory has a block in
  use, and no two sessions have the same one, so that their pages are disjoint.
\<close>

text \<open>Who has which block, \<open>m\<close>, when the blocks \<open>l\<close> are in use.\<close>

definition own_mem :: "(nat \<rightharpoonup> 'r) \<Rightarrow> (nat \<Rightarrow> nat option) \<Rightarrow> bool" where
  "own_mem l m \<longleftrightarrow>
     (\<forall>i < REE_MAX_SESSIONS. \<forall>p. m i = Some p \<longrightarrow> l p \<noteq> None) \<and>
     (\<forall>i < REE_MAX_SESSIONS. \<forall>k < REE_MAX_SESSIONS. m i = m k \<and> m i \<noteq> None \<longrightarrow> i = k)"

definition session_mem :: "'a drv_scheme \<Rightarrow> nat \<Rightarrow> nat option" where
  "session_mem d i = s_mem (sess d i)"

definition exclusive :: "'a drv_scheme \<Rightarrow> bool" where
  "exclusive d \<longleftrightarrow>
     length (sessions d) = REE_MAX_SESSIONS \<and> (\<forall>i < REE_MAX_SESSIONS. s_index (sess d i) = of_nat i) \<and>
     heap_tiled d \<and> own_mem (live_blocks d) (session_mem d)"

lemma own_mem_changes:
  assumes "own_mem l m"
  shows "own_mem l (m(i := None))" "l \<subseteq>\<^sub>m l' \<Longrightarrow> own_mem l' m"
    and "l p \<noteq> None \<Longrightarrow> (\<And>k. k < REE_MAX_SESSIONS \<Longrightarrow> m k \<noteq> Some p) \<Longrightarrow> own_mem l (m(i := Some p))"
    and "m i = Some p \<Longrightarrow> i < REE_MAX_SESSIONS \<Longrightarrow> own_mem (l(p := None)) (m(i := None))"
proof -
  show "own_mem l (m(i := None))" "l p \<noteq> None \<Longrightarrow> (\<And>k. k < REE_MAX_SESSIONS \<Longrightarrow> m k \<noteq> Some p) \<Longrightarrow> own_mem l (m(i := Some p))"
    using assms unfolding own_mem_def by (auto; metis)+
  show "l \<subseteq>\<^sub>m l' \<Longrightarrow> own_mem l' m" using assms unfolding own_mem_def map_le_def by (metis domIff)
  show "own_mem (l(p := None)) (m(i := None))" if "m i = Some p" "i < REE_MAX_SESSIONS"
  proof -
    have "m k \<noteq> Some p" if "k < REE_MAX_SESSIONS" "k \<noteq> i" for k
      using assms that \<open>m i = Some p\<close> \<open>i < REE_MAX_SESSIONS\<close> unfolding own_mem_def by (metis option.discI)
    then have "m k \<noteq> Some p \<or> k = i" if "k < REE_MAX_SESSIONS" for k using that by blast
    then show ?thesis using assms unfolding own_mem_def by (simp only: fun_upd_apply, intro conjI; metis option.discI)
  qed
qed

lemma session_mem_upd: "i < length (sessions d) \<Longrightarrow> session_mem (upd_sess i f d) = (session_mem d)(i := s_mem (f (sess d i)))"
  by (rule ext) (simp add: session_mem_def)

definition exclusive_ok :: "nat option \<Rightarrow> 'a drv_scheme \<Rightarrow> bool" where
  "exclusive_ok b d \<longleftrightarrow> exclusive d \<and> blocks d = b"

text \<open>The other threads do not close the sessions of \<open>K\<close> that have memory.\<close>

definition exclusive_env :: "nat option \<Rightarrow> nat set \<Rightarrow> ('a drv_scheme, 'b) drv_env_scheme \<Rightarrow> bool" where
  "exclusive_env b K e \<longleftrightarrow>
     env_keeps (exclusive_ok b) e \<and> kmalloc_fresh e \<and>
     (\<forall>n d. \<forall>i \<in> K. s_mem (sess d i) \<noteq> None \<longrightarrow> s_mem (sess (others e n d) i) = s_mem (sess d i))"

lemma exclusive_D:
  assumes "exclusive_ok b d"
  shows "length (sessions d) = REE_MAX_SESSIONS" "heap_tiled d" "own_mem (live_blocks d) (session_mem d)" "blocks d = b"
  using assms by (simp_all add: exclusive_ok_def exclusive_def)

lemma exclusive_keep:
  assumes "exclusive_ok b d" "sessions d' = sessions d" "heap d' = heap d" "blocks d' = blocks d"
    "shm_nr_pages d' = shm_nr_pages d"
  shows "exclusive_ok b d'"
proof -
  have "sess d' = sess d" "session_mem d' = session_mem d" using assms(2) by (simp_all add: sess_def session_mem_def fun_eq_iff)
  then show ?thesis
    using assms heap_tiled_cong [of d' d] live_blocks_cong [of d' d] by (simp add: exclusive_ok_def exclusive_def)
qed

text \<open>An update of a slot leaves the table right, when the blocks are still those of one session each.\<close>

lemma exclusive_upd:
  assumes "exclusive_ok b d" "\<And>s. s_index (f s) = s_index s"
    and "own_mem (live_blocks d) ((session_mem d)(i := s_mem (f (sess d i))))"
  shows "exclusive_ok b (upd_sess i f d)"
proof (cases "i < length (sessions d)")
  case True
  have rest: "heap (upd_sess i f d) = heap d" "blocks (upd_sess i f d) = blocks d" "shm_nr_pages (upd_sess i f d) = shm_nr_pages d"
    by (simp_all add: upd_sess_def)
  have idx: "s_index (sess (upd_sess i f d) k) = s_index (sess d k)" for k using True assms(2) by (cases "k = i") simp_all
  show ?thesis
    using assms(1,3) idx rest heap_tiled_cong [OF rest] live_blocks_cong [OF rest(1,2)] session_mem_upd [OF True, of f]
    by (simp add: exclusive_ok_def exclusive_def)
qed (use assms(1) in \<open>simp add: upd_sess_def list_update_beyond\<close>)

lemma exclusive_upd_keep:
  assumes "exclusive_ok b d" "\<And>s. s_index (f s) = s_index s" "\<And>s. s_mem (f s) = s_mem s \<or> s_mem (f s) = None"
  shows "exclusive_ok b (upd_sess i f d)"
proof (rule exclusive_upd [OF assms(1,2)])
  have "(session_mem d)(i := s_mem (f (sess d i))) = session_mem d \<or> s_mem (f (sess d i)) = None"
    using assms(3) [of "sess d i"] by (auto simp: session_mem_def)
  then show "own_mem (live_blocks d) ((session_mem d)(i := s_mem (f (sess d i))))"
    using own_mem_changes(1) exclusive_D(3) [OF assms(1)] by metis
qed

subsection \<open>The allocator\<close>

text \<open>The state under the semaphore of the allocator, and after an operation on the blocks there.\<close>

lemma exclusive_taken:
  assumes "exclusive_env b K e" "exclusive_ok b d"
  shows "exclusive_ok b (yield e d)" "exclusive_ok b ((yield e d)\<lparr>shm_sem := n\<rparr>)"
    and "i \<in> K \<Longrightarrow> s_mem (sess d i) = Some p \<Longrightarrow> s_mem (sess (yield e d) i) = Some p"
proof -
  have "tick_free (exclusive_ok b)" unfolding tick_free_def by (auto elim!: exclusive_keep)
  then show y: "exclusive_ok b (yield e d)" using assms by (auto simp: exclusive_env_def intro: yield_keeps)
  show "exclusive_ok b ((yield e d)\<lparr>shm_sem := n\<rparr>)" by (rule exclusive_keep [OF y]) simp_all
  show "i \<in> K \<Longrightarrow> s_mem (sess d i) = Some p \<Longrightarrow> s_mem (sess (yield e d) i) = Some p"
    using assms(1) by (simp add: exclusive_env_def yield_def sess_def)
qed

lemma exclusive_heap:
  assumes "exclusive_ok b d" "x = d\<lparr>heap := heap x\<rparr>" "heap_tiled x" "own_mem (live_blocks x) (session_mem d)"
  shows "exclusive_ok b (x\<lparr>shm_sem := n\<rparr>)"
proof -
  have same: "sessions x = sessions d" "blocks x = blocks d" by (subst assms(2); simp)+
  then have "sess (x\<lparr>shm_sem := n\<rparr>) = sess d" "session_mem (x\<lparr>shm_sem := n\<rparr>) = session_mem d"
    by (simp_all add: sess_def session_mem_def fun_eq_iff)
  then show ?thesis
    using assms(1,3,4) same heap_tiled_cong [of "x\<lparr>shm_sem := n\<rparr>" x] live_blocks_cong [of "x\<lparr>shm_sem := n\<rparr>" x]
    by (simp add: exclusive_ok_def exclusive_def)
qed

lemma exclusive_free:
  assumes "exclusive_env b K e" "exclusive_ok b d" "i < REE_MAX_SESSIONS \<and> i \<in> K"
    and "pnc_shm_free e (s_mem (sess d i)) d = Some (r, d')" "\<And>s. s_index (f s) = s_index s" "\<And>s. s_mem (f s) = None"
  shows "exclusive_ok b (upd_sess i f d')"
proof (cases "s_mem (sess d i)")
  case None
  then show ?thesis using assms(2,4-6) by (auto simp: pnc_shm_free_def intro!: exclusive_upd_keep)
next
  case (Some p)
  note y = exclusive_taken [OF assms(1,2)]
  let ?d = "(yield e d)\<lparr>shm_sem := shm_sem (yield e d) - 1\<rparr>"
  consider "d' = yield e d" | x where "shm_free_locked p ?d = Some x" "d' = x\<lparr>shm_sem := Suc (shm_sem x)\<rparr>"
    using assms(4) Some by (auto simp: pnc_shm_free_def down_shm_sem EINTR_def split: if_splits bind_splits)
  then show ?thesis
  proof cases
    case 1
    then show ?thesis using y(1) assms(5,6) by (auto intro!: exclusive_upd_keep)
  next
    case 2
    let ?u = "upd_sess i f ?d" and ?x = "upd_sess i f x"
    have taken: "exclusive_ok b ?d" by (rule y(2))
    then have u: "exclusive_ok b ?u" using assms(5,6) by (intro exclusive_upd_keep) simp_all
    have x: "heap_tiled x" "x = ?d\<lparr>heap := heap x\<rparr>" "live_blocks x = (live_blocks ?d)(p := None)"
      using heap_tiled_free_locked [OF exclusive_D(2) [OF taken] 2(1)] free_locked_live [OF exclusive_D(2) [OF taken] 2(1)] by simp_all
    have ux: "?x = ?u\<lparr>heap := heap ?x\<rparr>" by (subst x(2)) (simp add: upd_sess_def sess_def)
    have same: "heap ?x = heap x" "blocks ?x = blocks x" "shm_nr_pages ?x = shm_nr_pages x" by (simp_all add: upd_sess_def)
    have "session_mem ?d i = Some p" using y(3) [of i p] assms(3) Some by (simp add: session_mem_def sess_def)
    then have "own_mem ((live_blocks ?d)(p := None)) ((session_mem ?d)(i := None))"
      using own_mem_changes(4) exclusive_D(3) [OF taken] assms(3) by blast
    then have "own_mem (live_blocks ?x) (session_mem ?u)"
      using x(3) live_blocks_cong [OF same(1,2)] session_mem_upd [of i ?d f] assms(3,6) exclusive_D(1) [OF taken] by simp
    then have "exclusive_ok b (?x\<lparr>shm_sem := Suc (shm_sem x)\<rparr>)"
      using exclusive_heap [OF u ux] heap_tiled_cong [OF same] x(1) by simp
    then show ?thesis by (rule exclusive_keep) (simp_all add: 2(2) upd_sess_def sess_def)
  qed
qed

lemma exclusive_alloc:
  assumes "exclusive_env b K e" "exclusive_ok b d" "pnc_shm_alloc e n d = Some (r, blk, d')"
  shows "exclusive_ok b (if blk \<noteq> None then upd_sess i (s_mem_update (\<lambda>_. blk)) d' else d')"
proof -
  note y = exclusive_taken [OF assms(1,2)]
  let ?d = "(yield e d)\<lparr>shm_sem := shm_sem (yield e d) - 1\<rparr>"
  have taken: "exclusive_ok b ?d" by (rule y(2))
  note t = exclusive_D(2) [OF taken]
  have fresh: "kmalloc_fresh e" using assms(1) by (simp add: exclusive_env_def)
  consider "d' = yield e d" "blk = None"
    | x where "shm_alloc_locked e n (blocks ?d) ?d = Some (r, blk, x)" "d' = x\<lparr>shm_sem := Suc (shm_sem x)\<rparr>"
    using assms(3) exclusive_D(4) [OF taken] exclusive_D(4) [OF assms(2)]
    by (auto simp: pnc_shm_alloc_def down_shm_sem EINTR_def Let_def split: if_splits bind_splits)
  then show ?thesis
  proof cases
    case 1
    then show ?thesis using y(1) by simp
  next
    case 2
    have x: "heap_tiled x" "x = ?d\<lparr>heap := heap x\<rparr>" using heap_tiled_alloc_locked [OF t fresh 2(1)] by simp_all
    have live: "live_blocks d' = live_blocks x" using live_blocks_cong [of d' x] 2(2) by simp
    have "live_blocks ?d \<subseteq>\<^sub>m live_blocks x"
      using alloc_locked_live(1) [OF t fresh 2(1)] by (force simp: map_le_def)
    then have d': "exclusive_ok b d'"
      unfolding 2(2) using exclusive_heap [OF taken x(2,1)] own_mem_changes(2) exclusive_D(3) [OF taken] by blast
    show ?thesis
    proof (cases blk)
      case (Some p)
      have "sessions d' = sessions ?d" unfolding 2(2) by (subst x(2)) simp
      then have same: "session_mem d' = session_mem ?d" by (simp add: session_mem_def sess_def fun_eq_iff)
      have "live_blocks d' p \<noteq> None" using alloc_locked_new [OF t fresh] 2(1) Some live by simp
      moreover have "session_mem d' k \<noteq> Some p" if "k < REE_MAX_SESSIONS" for k
      proof
        assume "session_mem d' k = Some p"
        then have "live_blocks ?d p \<noteq> None" using exclusive_D(3) [OF taken] same that by (simp add: own_mem_def)
        then show False using alloc_locked_live(2) [OF t fresh 2(1)] Some by blast
      qed
      ultimately have "own_mem (live_blocks d') ((session_mem d')(i := Some p))"
        using own_mem_changes(3) exclusive_D(3) [OF d'] by metis
      then have "exclusive_ok b (upd_sess i (s_mem_update (\<lambda>_. blk)) d')" using Some by (intro exclusive_upd [OF d']) simp_all
      then show ?thesis using Some by simp
    qed (use d' in simp)
  qed
qed

interpretation exclusive: kept_by_calls "exclusive_ok b" "exclusive_env b K" "\<lambda>_. True" "\<lambda>i. i < REE_MAX_SESSIONS \<and> i \<in> K"
proof unfold_locales
  fix d d' :: drv and e :: "drv drv_env" and i x m
  show "exclusive_ok b d' = exclusive_ok b d" if "untouched d d'"
    using that exclusive_keep [of b d d'] exclusive_keep [of b d' d] by (auto simp: untouched_def)
  show "exclusive_env b K e \<Longrightarrow> env_keeps (exclusive_ok b) e" by (simp add: exclusive_env_def)
  show "exclusive_ok b d \<Longrightarrow> length (sessions d) = REE_MAX_SESSIONS" by (simp add: exclusive_ok_def exclusive_def)
  show "exclusive_ok b d \<Longrightarrow> exclusive_ok b (write_ns_message e m d)"
    by (erule exclusive_keep) (simp_all add: write_ns_message_def split: prod.splits)
  show "exclusive_ok b d \<Longrightarrow> exclusive_ok b (d\<lparr>ns_to_s_ring := x, shm := (shm d)\<lparr>ring_ns_to_s := y\<rparr>\<rparr>)" for x y
    by (erule exclusive_keep) simp_all
  show "exclusive_ok b d \<Longrightarrow> exclusive_ok b (d\<lparr>shm := (shm d)\<lparr>signals_ns_to_s := (signals_ns_to_s (shm d))[unat (s_index (sess d i)) := x]\<rparr>\<rparr>)"
    "exclusive_ok b d \<Longrightarrow> exclusive_ok b (d\<lparr>shm := (shm d)\<lparr>signals_s_to_ns := (signals_s_to_ns (shm d))[unat (s_index (sess d i)) := x]\<rparr>\<rparr>)" for x
    by (erule exclusive_keep; simp)+
  show "exclusive_ok b d \<Longrightarrow> config_name i name base d = Some (r, d') \<Longrightarrow> exclusive_ok b d'" for name base r
    by (erule exclusive_keep; cases name) (auto simp: config_name_def split: if_splits bind_splits)
qed (assumption | rule exclusive_upd_keep exclusive_free exclusive_alloc TrueI | simp)+

inductive exclusive_step :: "nat option \<Rightarrow> drv \<Rightarrow> drv_call \<Rightarrow> drv \<Rightarrow> bool" where
  exclusive_step: "exclusive_env b (call_sessions c) (e :: drv drv_env) \<Longrightarrow> pred_option (\<lambda>i. i < REE_MAX_SESSIONS) (call_session c) \<Longrightarrow>
     drv_exec e c d = Some d' \<Longrightarrow> exclusive_step b d c d'"

inductive_cases exclusive_stepE: "exclusive_step b d c d'"

lemma exclusive_start:
  assumes "pnc_sessions_init d0 = Some (0, d)" "heap_tiled d0"
  shows "exclusive_ok (blocks d0) d"
proof -
  have "shm_base d0 \<noteq> 0" using assms(1) by (auto simp: pnc_sessions_init_def errno split: if_splits)
  then have "heap d = heap d0" "blocks d = blocks d0" "shm_nr_pages d = shm_nr_pages d0"
    "sessions d = map initial_session [0..<REE_MAX_SESSIONS]"
    using assms(1) ring_sizes by (auto simp: pnc_sessions_init_def pnc_shm_init_header_def Let_def)
  then show ?thesis
    using assms(2) heap_tiled_cong [of d d0]
    by (simp add: exclusive_ok_def exclusive_def own_mem_def session_mem_def sess_def initial_session_def)
qed

lemma exclusive_history:
  assumes "pnc_sessions_init d0 = Some (0, d)" "heap_tiled d0" "history (exclusive_step (blocks d0)) d calls d'"
  shows "exclusive_ok (blocks d0) d'"
proof (rule history_invariant [where P = "exclusive_ok (blocks d0)", OF assms(3) exclusive_start [OF assms(1,2)]])
  show "exclusive_ok (blocks d0) s'" if "exclusive_step (blocks d0) s x s'" "exclusive_ok (blocks d0) s" for s x s'
    using that exclusive.kept_exec [OF _ that(2), where c = x]
    by (auto elim!: exclusive_stepE simp: wlp_iff call_sessions_def option.pred_set)
qed

text \<open>
  C7. From the start of the driver on, whatever calls are made on the sessions and whatever the other threads do in
  between, as long as they do not close a session that a call is on, every session that has memory has pages in use of
  the shared memory outside the reserved part, and no page belongs to two sessions.
\<close>

theorem sessions_have_own_memory:
  assumes "pnc_sessions_init d0 = Some (0, d)" "heap_tiled d0" "history (exclusive_step (blocks d0)) d calls d'"
    and "i < REE_MAX_SESSIONS" "s_mem (sess d' i) = Some p" "k < REE_MAX_SESSIONS" "s_mem (sess d' k) = Some q" "i \<noteq> k"
  shows "\<exists>r s. live_blocks d' p = Some r \<and> live_blocks d' q = Some s \<and>
    range_pages r \<subseteq> shm_area d' \<and> range_pages s \<subseteq> shm_area d' \<and> range_pages r \<inter> range_pages s = {}"
proof -
  have "exclusive_ok (blocks d0) d'" by (rule exclusive_history [OF assms(1,2,3)])
  then have ex: "exclusive d'" by (simp add: exclusive_ok_def)
  then have wf: "shm_wf d'" using heap_tiled_wf unfolding exclusive_def by blast
  have own: "own_mem (live_blocks d') (session_mem d')" using ex by (simp add: exclusive_def)
  then have "p \<noteq> q" using assms(4-8) unfolding own_mem_def session_mem_def by (metis option.discI)
  moreover obtain r s where "live_blocks d' p = Some r" "live_blocks d' q = Some s"
    using own assms(4-7) unfolding own_mem_def session_mem_def by blast
  ultimately show ?thesis using shmem.in_area [OF wf] shmem.disjoint [OF wf] by blast
qed

end
