(* ===== verification/PncIsolation.thy ===== *)
theory PncIsolation
  imports PncExclusive
begin

text \<open>
  Sessions are isolated: the locale of PncKept on what belongs to one session, its slot, its pages with their bytes, and
  its words of signals. Calls on the other sessions, the opening of new ones and the interrupt leave all of it alone.
\<close>

text \<open>Session \<open>j\<close> is in use and has the block \<open>p\<close>, with the range \<open>r\<close>, for itself.\<close>

definition owns :: "nat \<Rightarrow> nat \<Rightarrow> u32 \<times> u32 \<Rightarrow> 'a drv_scheme \<Rightarrow> bool" where
  "owns j p r d \<longleftrightarrow>
     length (sessions d) = REE_MAX_SESSIONS \<and> (\<forall>i < REE_MAX_SESSIONS. s_index (sess d i) = of_nat i) \<and>
     heap_tiled d \<and> j < REE_MAX_SESSIONS \<and> \<not> s_free (sess d j) \<and> s_mem (sess d j) = Some p \<and> live_blocks d p = Some r \<and>
     (\<forall>i < REE_MAX_SESSIONS. i \<noteq> j \<longrightarrow> s_mem (sess d i) \<noteq> Some p)"

text \<open>The bytes of a range of pages.\<close>

definition range_bytes :: "u32 \<times> u32 \<Rightarrow> nat set" where
  "range_bytes r = {unat (fst r) * PAGE_SIZE ..< (unat (fst r) + unat (snd r)) * PAGE_SIZE}"

text \<open>What belongs to session \<open>j\<close> with the range \<open>r\<close> is as in \<open>d0\<close>.\<close>

definition same_part :: "nat \<Rightarrow> u32 \<times> u32 \<Rightarrow> 'a drv_scheme \<Rightarrow> 'a drv_scheme \<Rightarrow> bool" where
  "same_part j r d0 d \<longleftrightarrow>
     sess d j = sess d0 j \<and> signals_ns_to_s (shm d) ! j = signals_ns_to_s (shm d0) ! j \<and>
     signals_s_to_ns (shm d) ! j = signals_s_to_ns (shm d0) ! j \<and> (\<forall>a \<in> range_bytes r. memory d a = memory d0 a)"

definition isolated :: "nat \<Rightarrow> nat \<Rightarrow> u32 \<times> u32 \<Rightarrow> 'a drv_scheme \<Rightarrow> 'a drv_scheme \<Rightarrow> bool" where
  "isolated j p r d0 d \<longleftrightarrow> owns j p r d \<and> same_part j r d0 d \<and> blocks d = blocks d0"

definition isolated_env :: "nat \<Rightarrow> nat \<Rightarrow> u32 \<times> u32 \<Rightarrow> 'a drv_scheme \<Rightarrow> ('a drv_scheme, 'b) drv_env_scheme \<Rightarrow> bool" where
  "isolated_env j p r d0 e \<longleftrightarrow> env_keeps (isolated j p r d0) e \<and> kmalloc_fresh e"

abbreviation other_session :: "nat \<Rightarrow> nat \<Rightarrow> bool" where
  "other_session j i \<equiv> i < REE_MAX_SESSIONS \<and> i \<noteq> j"

lemma isolated_D:
  assumes "isolated j p r d0 d"
  shows "heap_tiled d" "live_blocks d p = Some r" "blocks d = blocks d0"
  using assms unfolding isolated_def owns_def by blast+

text \<open>The parts of the state that \<open>isolated\<close> reads; the allocator's come with the heap.\<close>

lemma isolated_frame:
  assumes "sessions d' = sessions d" "signals_ns_to_s (shm d') ! j = signals_ns_to_s (shm d) ! j"
    "signals_s_to_ns (shm d') ! j = signals_s_to_ns (shm d) ! j" "\<forall>a \<in> range_bytes r. memory d' a = memory d a"
    "heap d' = heap d" "blocks d' = blocks d" "shm_nr_pages d' = shm_nr_pages d"
  shows "isolated j p r d0 d' = isolated j p r d0 d"
proof -
  have "sess d' = sess d" using assms(1) by (simp add: sess_def fun_eq_iff)
  then show ?thesis
    using assms heap_tiled_cong [of d' d] live_blocks_cong [of d' d]
    by (simp add: isolated_def owns_def same_part_def)
qed

lemmas isolated_keep = isolated_frame [THEN iffD2]

lemma isolated_upd:
  assumes "isolated j p r d0 d" "i \<noteq> j" "\<And>s. s_index (f s) = s_index s" "\<And>s. s_mem (f s) \<noteq> Some p \<or> s_mem (f s) = s_mem s"
  shows "isolated j p r d0 (upd_sess i f d)"
proof (cases "i < length (sessions d)")
  case True
  have part: "sess (upd_sess i f d) j = sess d j" using assms(2) by simp
  have slot: "s_index (sess (upd_sess i f d) k) = s_index (sess d k)"
    "k \<noteq> j \<Longrightarrow> k < REE_MAX_SESSIONS \<Longrightarrow> s_mem (sess (upd_sess i f d) k) \<noteq> Some p" for k
    using assms True by (cases "k = i"; force simp: isolated_def owns_def)+
  have rest: "shm (upd_sess i f d) = shm d" "memory (upd_sess i f d) = memory d" "heap (upd_sess i f d) = heap d"
    "blocks (upd_sess i f d) = blocks d" "shm_nr_pages (upd_sess i f d) = shm_nr_pages d"
    by (simp_all add: upd_sess_def)
  show ?thesis
    using assms(1) part slot rest heap_tiled_cong [OF rest(3,4,5)] live_blocks_cong [OF rest(3,4)]
    by (auto simp: isolated_def owns_def same_part_def)
qed (use assms(1) in \<open>simp add: upd_sess_def list_update_beyond\<close>)

text \<open>Index arithmetic of the words of signals.\<close>

lemma isolated_signals:
  assumes "isolated j p r d0 d" "other_session j i"
  shows "isolated j p r d0 (d\<lparr>shm := (shm d)\<lparr>signals_ns_to_s := (signals_ns_to_s (shm d))[unat (s_index (sess d i)) := x]\<rparr>\<rparr>)"
    "isolated j p r d0 (d\<lparr>shm := (shm d)\<lparr>signals_s_to_ns := (signals_s_to_ns (shm d))[unat (s_index (sess d i)) := x]\<rparr>\<rparr>)"
proof -
  have "unat (s_index (sess d i)) = i"
    using assms by (auto simp: isolated_def owns_def unsigned_of_nat take_bit_nat_eq_self proto_consts)
  then show "isolated j p r d0 (d\<lparr>shm := (shm d)\<lparr>signals_ns_to_s := (signals_ns_to_s (shm d))[unat (s_index (sess d i)) := x]\<rparr>\<rparr>)"
    "isolated j p r d0 (d\<lparr>shm := (shm d)\<lparr>signals_s_to_ns := (signals_s_to_ns (shm d))[unat (s_index (sess d i)) := x]\<rparr>\<rparr>)"
    using assms(2) by (auto intro!: isolated_keep [OF _ _ _ _ _ _ _ assms(1)])
qed

subsection \<open>The allocator\<close>

lemma isolated_memory:
  assumes "isolated j p r d0 d" "d' = d\<lparr>heap := heap d', shm_sem := shm_sem d'\<rparr>" "heap_tiled d'" "live_blocks d' p = Some r"
  shows "isolated j p r d0 d'"
proof -
  have "sessions d' = sessions d" "blocks d' = blocks d" "shm d' = shm d" "memory d' = memory d"
    by (subst assms(2); simp)+
  moreover have "sess d' = sess d" using calculation(1) by (simp add: sess_def fun_eq_iff)
  ultimately show ?thesis using assms(1,3,4) by (auto simp: isolated_def owns_def same_part_def)
qed

lemma isolated_shm:
  assumes "isolated_env j p r d0 e" "isolated j p r d0 d"
  shows "pnc_shm_free e blk d = Some (s, d') \<Longrightarrow> blk \<noteq> Some p \<Longrightarrow> isolated j p r d0 d'"
    and "pnc_shm_alloc e n d = Some (s, q, d') \<Longrightarrow> isolated j p r d0 d' \<and> q \<noteq> Some p"
proof -
  have "tick_free (isolated j p r d0)" unfolding tick_free_def by (intro allI isolated_frame) simp_all
  then have y: "isolated j p r d0 (yield e d)"
    using assms by (auto simp: isolated_env_def intro: yield_keeps)
  let ?d = "(yield e d)\<lparr>shm_sem := shm_sem (yield e d) - 1\<rparr>"
  have taken: "isolated j p r d0 ?d" by (rule isolated_keep [OF _ _ _ _ _ _ _ y]) simp_all
  have d: "heap_tiled ?d" "live_blocks ?d p = Some r" "blocks ?d = blocks d"
    using isolated_D [OF taken] isolated_D(3) [OF assms(2)] by simp_all
  have given: "isolated j p r d0 (x\<lparr>shm_sem := k\<rparr>)"
    if "heap_tiled x" "live_blocks x p = Some r" "x = ?d\<lparr>heap := heap x\<rparr>" for x k
  proof (rule isolated_memory [OF taken])
    show "x\<lparr>shm_sem := k\<rparr> = ?d\<lparr>heap := heap (x\<lparr>shm_sem := k\<rparr>), shm_sem := shm_sem (x\<lparr>shm_sem := k\<rparr>)\<rparr>"
      by (subst that(3)) simp
    show "heap_tiled (x\<lparr>shm_sem := k\<rparr>)" using that(1) heap_tiled_cong [of "x\<lparr>shm_sem := k\<rparr>" x] by simp
    show "live_blocks (x\<lparr>shm_sem := k\<rparr>) p = Some r" using that(2) live_blocks_cong [of "x\<lparr>shm_sem := k\<rparr>" x] by simp
  qed
  show "isolated j p r d0 d'" if "pnc_shm_free e blk d = Some (s, d')" "blk \<noteq> Some p"
    using that assms(2) y heap_tiled_free_locked [OF d(1)] free_locked_live [OF d(1)] d(2) given
    by (auto simp: pnc_shm_free_def down_shm_sem EINTR_def split: option.splits if_splits bind_splits)
  have fresh: "kmalloc_fresh e" using assms(1) by (simp add: isolated_env_def)
  have "heap_tiled x \<and> x = ?d\<lparr>heap := heap x\<rparr> \<and> live_blocks x p = Some r \<and> q \<noteq> Some p"
    if "shm_alloc_locked e n (blocks d) ?d = Some (s, q, x)" for s q x
    using that heap_tiled_alloc_locked [OF d(1) fresh] alloc_locked_live [OF d(1) fresh _ d(2)] d(3) by metis
  then show "isolated j p r d0 d' \<and> q \<noteq> Some p" if "pnc_shm_alloc e n d = Some (s, q, d')"
    using that y given by (fastforce simp: pnc_shm_alloc_def down_shm_sem EINTR_def Let_def split: if_splits bind_splits)
qed

text \<open>A service name is written into the pages of the session it is for.\<close>

lemma isolated_names:
  assumes "isolated j p r d0 d" "other_session j i" "config_name i name base d = Some (s, d')"
  shows "isolated j p r d0 d'"
proof (cases "d' = d")
  case False
  then obtain q blk str where q: "s_mem (sess d i) = Some q" "heap d q = Some blk"
      "length str < unat (blk_nr_pages blk) * PAGE_SIZE"
      "d' = d\<lparr>memory := write_bytes (unat (blk_offset blk) * PAGE_SIZE) (str @ [0]) (memory d)\<rparr>"
    using assms(3) by (cases name) (auto simp: config_name_def not_le split: if_splits bind_splits)
  have "q \<noteq> p" "heap_tiled d" "live_blocks d p = Some (fst r, snd r)" using assms(1,2) q(1) by (auto simp: isolated_def owns_def)
  then have apart: "block_pages blk \<inter> {unat (fst r) ..< unat (fst r) + unat (snd r)} = {}"
    using heap_tiled_disjoint q(2) by blast
  have "write_bytes (unat (blk_offset blk) * PAGE_SIZE) (str @ [0]) (memory d) a = memory d a" if a: "a \<in> range_bytes r" for a
  proof (rule write_bytes_outside, rule ccontr)
    assume "\<not> (a < unat (blk_offset blk) * PAGE_SIZE \<or> unat (blk_offset blk) * PAGE_SIZE + length (str @ [0]) \<le> a)"
    then have "unat (blk_offset blk) * PAGE_SIZE \<le> a" "a < (unat (blk_offset blk) + unat (blk_nr_pages blk)) * PAGE_SIZE"
      using q(3) by (simp_all add: distrib_right)
    then have "a div PAGE_SIZE \<in> block_pages blk"
      by (simp add: block_pages_def less_eq_div_iff_mult_less_eq div_less_iff_less_mult proto_consts)
    moreover have "a div PAGE_SIZE \<in> {unat (fst r) ..< unat (fst r) + unat (snd r)}"
      using a by (simp add: range_bytes_def less_eq_div_iff_mult_less_eq div_less_iff_less_mult proto_consts)
    ultimately show False using apart by blast
  qed
  then show ?thesis by (intro isolated_keep [OF _ _ _ _ _ _ _ assms(1)]) (simp_all add: q(4))
qed (use assms(1) in simp)

interpretation isolated: kept_by_calls "isolated j p r d0" "isolated_env j p r d0" "\<lambda>_. True" "other_session j"
proof unfold_locales
  fix d d' :: drv and e :: "drv drv_env" and i n s x f blk m
  show "untouched d d' \<Longrightarrow> isolated j p r d0 d' = isolated j p r d0 d"
    by (rule isolated_frame) (simp_all add: untouched_def)
  show "isolated_env j p r d0 e \<Longrightarrow> env_keeps (isolated j p r d0) e" by (simp add: isolated_env_def)
  show "isolated j p r d0 d \<Longrightarrow> length (sessions d) = REE_MAX_SESSIONS" by (simp add: isolated_def owns_def)
  show "isolated j p r d0 d \<Longrightarrow> isolated j p r d0 (write_ns_message e m d)"
    by (erule isolated_keep [rotated -1]) (simp_all add: write_ns_message_def split: prod.splits)
  show "isolated j p r d0 d \<Longrightarrow> isolated j p r d0 (d\<lparr>ns_to_s_ring := x, shm := (shm d)\<lparr>ring_ns_to_s := y\<rparr>\<rparr>)" for x y
    by (erule isolated_keep [rotated -1]) simp_all
  show "isolated j p r d0 (upd_sess i f d)" if "i < REE_MAX_SESSIONS" "s_free (sess d i)" "isolated j p r d0 d"
    "\<And>s. s_index (f s) = s_index s" "\<And>s. s_mem (f s) = s_mem s"
    using that by (intro isolated_upd) (auto simp: isolated_def owns_def)
  show "isolated j p r d0 (upd_sess i f d)" if "other_session j i" "isolated j p r d0 d"
    "\<And>s. s_index (f s) = s_index s" "\<And>s. s_mem (f s) = s_mem s \<or> s_mem (f s) = None" for f
    using that(1,2,3) that(4) by (intro isolated_upd) fastforce+
  show "isolated j p r d0 (upd_sess i f d')" if "other_session j i" "isolated_env j p r d0 e" "isolated j p r d0 d"
    "pnc_shm_free e (s_mem (sess d i)) d = Some (s, d')" "\<And>s. s_index (f s) = s_index s" "\<And>s. s_mem (f s) = None" for s f
    using isolated_shm(1) [OF that(2,3,4)] that(1,3,5,6) by (intro isolated_upd) (simp_all add: isolated_def owns_def)
  show "isolated j p r d0 (if blk \<noteq> None then upd_sess i (s_mem_update (\<lambda>_. blk)) d' else d')"
    if "other_session j i" "isolated_env j p r d0 e" "isolated j p r d0 d" "pnc_shm_alloc e n d = Some (s, blk, d')" for n s blk
    using isolated_shm(2) [OF that(2,3,4)] that(1) by (auto intro!: isolated_upd)
qed (assumption | rule isolated_signals isolated_names TrueI | simp)+

text \<open>
  A call that is not on session \<open>j\<close>, in an environment where the other threads do not touch what belongs to it either. The
  worker and the end of the driver are on all the sessions.
\<close>

inductive other_step :: "nat \<Rightarrow> nat \<Rightarrow> u32 \<times> u32 \<Rightarrow> drv \<Rightarrow> drv \<Rightarrow> drv_call \<Rightarrow> drv \<Rightarrow> bool" where
  other_step: "isolated_env j p r d0 (e :: drv drv_env) \<Longrightarrow> pred_option (other_session j) (call_session c) \<Longrightarrow>
     \<not> on_all c \<Longrightarrow> drv_exec e c d = Some d' \<Longrightarrow> other_step j p r d0 d c d'"

inductive_cases other_stepE: "other_step j p r d0 d c d'"

lemma exclusive_owns:
  assumes "exclusive_ok b d" "j < REE_MAX_SESSIONS" "\<not> s_free (sess d j)" "s_mem (sess d j) = Some p" "live_blocks d p = Some r"
  shows "owns j p r d"
proof -
  have "s_mem (sess d i) \<noteq> Some p" if "i < REE_MAX_SESSIONS" "i \<noteq> j" for i
    using exclusive_D(3) [OF assms(1)] assms(2,4) that unfolding own_mem_def session_mem_def by (metis option.discI)
  then show ?thesis using assms by (simp add: owns_def exclusive_ok_def exclusive_def)
qed

text \<open>
  C8. Sessions are isolated. When a session has memory, at any time after the start of the driver, then whatever calls
  are made from there on on the other sessions and whatever they answer, with new sessions opened and interrupts coming
  in, the session keeps its state and its pages, every byte of them is the same, and so are its words of signals.
\<close>

theorem sessions_isolated:
  assumes "pnc_sessions_init d0 = Some (0, d)" "heap_tiled d0" "history (exclusive_step (blocks d0)) d calls d1"
    and "j < REE_MAX_SESSIONS" "\<not> s_free (sess d1 j)" "s_mem (sess d1 j) = Some p" "live_blocks d1 p = Some r"
    and "history (other_step j p r d1) d1 calls' d2"
  shows "sess d2 j = sess d1 j \<and> live_blocks d2 p = Some r \<and> (\<forall>a \<in> range_bytes r. memory d2 a = memory d1 a) \<and>
    signals_ns_to_s (shm d2) ! j = signals_ns_to_s (shm d1) ! j \<and> signals_s_to_ns (shm d2) ! j = signals_s_to_ns (shm d1) ! j"
proof -
  have "owns j p r d1" by (rule exclusive_owns [OF exclusive_history [OF assms(1-3)] assms(4-7)])
  then have start: "isolated j p r d1 d1" by (simp add: isolated_def same_part_def)
  have "isolated j p r d1 d2"
  proof (rule history_invariant [where P = "isolated j p r d1", OF assms(8) start])
    show "isolated j p r d1 s'" if "other_step j p r d1 s x s'" "isolated j p r d1 s" for s x s'
      using that(1) isolated.kept_exec [OF _ that(2), where c = x] by (auto elim!: other_stepE simp: wlp_iff simp del: split_paired_All)
  qed
  then show ?thesis by (simp add: isolated_def owns_def same_part_def)
qed

end
