(* ===== verification/PncSemaphores.thy ===== *)
theory PncSemaphores
  imports PncCalls
begin

text \<open>
  The semaphores, on every path: a call gives given what it takes, error returns, timeouts and interrupted waits included,
  and never gives given what it has not taken. The other threads may take and give semaphores whenever they run.
\<close>

named_theorems balance_rules \<open>rules of the operations for the semaphores\<close>

text \<open>The count of a semaphore: of session \<open>i\<close>, or (\<open>None\<close>) of the allocator.\<close>

definition sem_count :: "'a drv_scheme \<Rightarrow> nat option \<Rightarrow> int" where
  "sem_count d k =
     (case k of None \<Rightarrow> int (shm_sem d)
      | Some i \<Rightarrow> if i < length (sessions d) then int (s_sem (sess d i)) else 0)"

text \<open>
  What the other threads hold is an auxiliary variable of the state, an account beside the state of the driver that no
  operation of the driver reads or writes. Whenever the others run they may take and give any semaphore, depending on
  the state in any way, and enter it there: the sum of the count and of what they hold stays.
\<close>

record drv_held = drv +
  others_held :: "nat option \<Rightarrow> int"

definition sem_total :: "'a drv_held_scheme \<Rightarrow> nat option \<Rightarrow> int" where
  "sem_total d k = sem_count d k + others_held d k"

definition accounted :: "('a drv_held_scheme, 'b) drv_env_scheme \<Rightarrow> bool" where
  "accounted e \<longleftrightarrow>
     (\<forall>n d. length (sessions (others e n d)) = length (sessions d) \<and> sem_total (others e n d) = sem_total d)"

definition full_table :: "'a drv_scheme \<Rightarrow> bool" where
  "full_table d \<longleftrightarrow> length (sessions d) = REE_MAX_SESSIONS"

definition take_one :: "nat \<Rightarrow> (nat option \<Rightarrow> int) \<Rightarrow> nat option \<Rightarrow> int" where
  "take_one i b = (if i < REE_MAX_SESSIONS then b(Some i := b (Some i) - 1) else b)"

definition give_one :: "nat \<Rightarrow> (nat option \<Rightarrow> int) \<Rightarrow> nat option \<Rightarrow> int" where
  "give_one i b = (if i < REE_MAX_SESSIONS then b(Some i := b (Some i) + 1) else b)"

lemma give_take [simp]: "give_one i (take_one i b) = b"
  by (simp add: give_one_def take_one_def)

lemma sem_total_frame:
  "sem_count d' = sem_count d \<Longrightarrow> others_held d' = others_held d \<Longrightarrow> sem_total d' = sem_total d"
  by (simp add: sem_total_def fun_eq_iff)

lemma sem_total_sessions:
  assumes "sessions d' = sessions d" "shm_sem d' = shm_sem d" "others_held d' = others_held d"
  shows "sem_total d' = sem_total d" "full_table d' = full_table d"
  using assms by (auto intro!: sem_total_frame simp: sem_count_def sess_def full_table_def split: option.split)

lemma sem_total_yield [simp]:
  assumes "accounted e"
  shows "sem_total (yield e d) = sem_total d" "full_table (yield e d) = full_table d"
proof -
  have "sem_total (yield e d) = sem_total (others e (tick d) d)" by (rule sem_total_sessions) (simp_all add: yield_def)
  then show "sem_total (yield e d) = sem_total d" using assms by (simp add: accounted_def)
  show "full_table (yield e d) = full_table d" using assms by (simp add: accounted_def full_table_def yield_def)
qed

lemma sem_total_simps [simp]:
  "sem_total (d\<lparr>smc_log := l\<rparr>) = sem_total d"
  "sem_total (d\<lparr>work_pending := w\<rparr>) = sem_total d"
  "sem_total (d\<lparr>session_ready := r\<rparr>) = sem_total d"
  "sem_total (d\<lparr>signal_session := j\<rparr>) = sem_total d"
  "sem_total (d\<lparr>s_to_ns_ring := c\<rparr>) = sem_total d"
  "sem_total (d\<lparr>ns_to_s_ring := p\<rparr>) = sem_total d"
  "sem_total (d\<lparr>shm := s\<rparr>) = sem_total d"
  "sem_total (d\<lparr>memory := m\<rparr>) = sem_total d"
  "sem_total (write_ns_message e' x d) = sem_total d"
  "sem_total (clear_ns_to_s_signals w0 d) = sem_total d"
  "accounted e \<Longrightarrow> sem_total (lock_sessions e d) = sem_total d"
  by ((rule sem_total_sessions; simp add: write_ns_message_def clear_ns_to_s_signals_def split: prod.split)
      | simp add: lock_sessions_def)+

lemma full_table_simps [simp]:
  "full_table (d\<lparr>smc_log := l\<rparr>) = full_table d"
  "full_table (d\<lparr>work_pending := w\<rparr>) = full_table d"
  "full_table (d\<lparr>session_ready := w\<rparr>) = full_table d"
  "full_table (d\<lparr>signal_session := j\<rparr>) = full_table d"
  "full_table (d\<lparr>s_to_ns_ring := c\<rparr>) = full_table d"
  "full_table (d\<lparr>ns_to_s_ring := p\<rparr>) = full_table d"
  "full_table (d\<lparr>shm := s\<rparr>) = full_table d"
  "full_table (d\<lparr>memory := m\<rparr>) = full_table d"
  "full_table (write_ns_message e' x d) = full_table d"
  "full_table (clear_ns_to_s_signals w0 d) = full_table d"
  "full_table (upd_sess i f d) = full_table d"
  "full_table (upd_sem i g d) = full_table d"
  "full_table (up_session i d) = full_table d"
  "accounted e \<Longrightarrow> full_table (lock_sessions e d) = full_table d"
  by (simp_all add: full_table_def write_ns_message_def clear_ns_to_s_signals_def upd_sess_def upd_sem_def up_session_def
      lock_sessions_def accounted_def yield_def split: prod.split)

lemma sem_total_upd [simp]:
  assumes "\<And>s. s_sem (f s) = s_sem s"
  shows "sem_total (upd_sess i f d) = sem_total d"
proof (rule sem_total_frame)
  have "s_sem (sess (upd_sess i f d) j) = s_sem (sess d j)" if "j < length (sessions d)" for j
    using that assms by (cases "j = i") simp_all
  then show "sem_count (upd_sess i f d) = sem_count d"
    by (auto simp: sem_count_def upd_sess_def fun_eq_iff split: option.split)
qed (simp add: upd_sess_def)

lemma sem_count_upd_sem:
  "full_table d \<Longrightarrow> sem_count (upd_sem i g d) k =
     (if k = Some i \<and> i < REE_MAX_SESSIONS then int (g (s_sem (sess d i))) else sem_count d k)"
  by (cases k) (auto simp: sem_count_def upd_sem_def full_table_def upd_sess_def sess_def nth_list_update)

lemma sem_total_up_session [simp]:
  assumes "full_table d"
  shows "sem_total (up_session i d) = give_one i (sem_total d)"
proof
  fix k
  have "others_held (up_session i d) = others_held d" by (simp add: up_session_def upd_sem_def upd_sess_def)
  then show "sem_total (up_session i d) k = give_one i (sem_total d) k"
    using assms sem_count_upd_sem [OF assms, of i Suc k]
    by (simp add: up_session_def sem_total_def sem_count_def full_table_def give_one_def)
qed

lemma sem_total_down:
  assumes "full_table d" "0 < s_sem (sess d i)"
  shows "sem_total (upd_sem i (\<lambda>n. n - Suc 0) d) = take_one i (sem_total d)"
proof
  fix k
  have "others_held (upd_sem i (\<lambda>n. n - Suc 0) d) = others_held d" by (simp add: upd_sem_def upd_sess_def)
  then show "sem_total (upd_sem i (\<lambda>n. n - Suc 0) d) k = take_one i (sem_total d) k"
    using assms sem_count_upd_sem [OF assms(1), of i "\<lambda>n. n - Suc 0" k]
    by (simp add: sem_total_def sem_count_def full_table_def take_one_def)
qed

lemma balance_sleeps [balance_rules]:
  assumes "accounted e" "full_table d"
  shows "(\<And>d'. sem_total d' = take_one i (sem_total d) \<Longrightarrow> full_table d' \<Longrightarrow> Q (0, d')) \<Longrightarrow>
      (\<And>r d'. r \<noteq> 0 \<Longrightarrow> sem_total d' = sem_total d \<Longrightarrow> full_table d' \<Longrightarrow> Q (r, d')) \<Longrightarrow>
      wlp (down_session_interruptible e i d) Q"
    and "(\<And>d'. sem_total d' = take_one i (sem_total d) \<Longrightarrow> full_table d' \<Longrightarrow> Q1 d') \<Longrightarrow> wlp (down_session e i d) Q1"
    and "(\<And>r d'. sem_total d' = sem_total d \<Longrightarrow> full_table d' \<Longrightarrow> Q (r, d')) \<Longrightarrow>
      wlp (wait_event_interruptible e timeout cond d) Q"
    and "(\<And>d'. sem_total d' = sem_total d \<Longrightarrow> full_table d' \<Longrightarrow> Q1 d') \<Longrightarrow> wlp (wait_event e cond d) Q1"
  using assms
  by (auto simp: down_session_interruptible_def down_interruptible_def down_session_def down_def EINTR_def
      wait_event_interruptible_def wait_event_def sem_total_down Let_def)

lemma balance_shm [balance_rules]:
  assumes "accounted e" "full_table d"
  shows "(\<And>r d'. sem_total d' = sem_total d \<Longrightarrow> full_table d' \<Longrightarrow> Q2 (r, d')) \<Longrightarrow> wlp (pnc_shm_free e b d) Q2"
    and "(\<And>r blk d'. sem_total d' = sem_total d \<Longrightarrow> full_table d' \<Longrightarrow> Q3 (r, blk, d')) \<Longrightarrow> wlp (pnc_shm_alloc e n d) Q3"
proof -
  have y: "sem_total (yield e d) = sem_total d" "full_table (yield e d)" using assms by simp_all
  let ?d = "(yield e d)\<lparr>shm_sem := shm_sem (yield e d) - 1\<rparr>"
  have given: "sem_total (x\<lparr>shm_sem := Suc (shm_sem x)\<rparr>) = sem_total d \<and> full_table (x\<lparr>shm_sem := Suc (shm_sem x)\<rparr>)"
    if "x = ?d\<lparr>heap := h\<rparr>" "0 < shm_sem (yield e d)" for x h
    using sem_total_sessions [of "x\<lparr>shm_sem := Suc (shm_sem x)\<rparr>" "yield e d"] that y by simp
  have free: "sem_total (x\<lparr>shm_sem := Suc (shm_sem x)\<rparr>) = sem_total d \<and> full_table (x\<lparr>shm_sem := Suc (shm_sem x)\<rparr>)"
    if "shm_free_locked p ?d = Some x" "0 < shm_sem (yield e d)" for p x
    using that(1) given [OF _ that(2)] by (auto simp: shm_free_locked_def split: option.splits)
  have alloc: "sem_total (x\<lparr>shm_sem := Suc (shm_sem x)\<rparr>) = sem_total d \<and> full_table (x\<lparr>shm_sem := Suc (shm_sem x)\<rparr>)"
    if "shm_alloc_locked e n q ?d = Some (r, blk, x)" "0 < shm_sem (yield e d)" for q r blk x
    using that(1) given [OF _ that(2)] by (auto simp: shm_alloc_locked_def split: option.splits alloc_exit.splits)
  show "wlp (pnc_shm_free e b d) Q2" if "\<And>r d'. sem_total d' = sem_total d \<Longrightarrow> full_table d' \<Longrightarrow> Q2 (r, d')"
    using that y assms free by (auto simp: pnc_shm_free_def down_shm_sem EINTR_def wlp_iff split: option.splits if_splits bind_splits)
  show "wlp (pnc_shm_alloc e n d) Q3" if "\<And>r blk d'. sem_total d' = sem_total d \<Longrightarrow> full_table d' \<Longrightarrow> Q3 (r, blk, d')"
    using that y assms alloc by (auto simp: pnc_shm_alloc_def down_shm_sem EINTR_def wlp_iff Let_def split: if_splits bind_splits)
qed

lemma balance_primitives [balance_rules]:
  assumes "accounted e" "full_table d"
  shows "(\<And>d'. sem_total d' = sem_total d \<Longrightarrow> full_table d' \<Longrightarrow> Q1 d') \<Longrightarrow> wlp (notify_s e d) Q1"
    and "(\<And>d'. sem_total d' = sem_total d \<Longrightarrow> full_table d' \<Longrightarrow> Q1 d') \<Longrightarrow> wlp (raise_notification e bits d) Q1"
    and "(\<And>d'. sem_total d' = sem_total d \<Longrightarrow> full_table d' \<Longrightarrow> Q1 d') \<Longrightarrow> wlp (notify_ns_message e d) Q1"
    and "(\<And>d'. sem_total d' = sem_total d \<Longrightarrow> full_table d' \<Longrightarrow> Q1 d') \<Longrightarrow> wlp (invalidate_sessions d) Q1"
    and "(\<And>d'. sem_total d' = sem_total d \<Longrightarrow> full_table d' \<Longrightarrow> Q1 d') \<Longrightarrow> wlp (pnc_shm_forward e stack d) Q1"
proof -
  have smc: "wlp (map_option snd (pnc_sched_smc e x d)) Q1"
    if "full_table d" "\<And>d'. sem_total d' = sem_total d \<Longrightarrow> full_table d' \<Longrightarrow> Q1 d'" for x d
    using that assms(1) by (auto simp: pnc_sched_smc_def do_smc_def Let_def wlp_def split: option.splits)
  then have n: "wlp (notify_s e d) Q1"
    if "full_table d" "\<And>d'. sem_total d' = sem_total d \<Longrightarrow> full_table d' \<Longrightarrow> Q1 d'" for d
    using that by (simp add: notify_s_def)
  then have r: "wlp (raise_notification e bits d) Q1"
    if "full_table d" "\<And>d'. sem_total d' = sem_total d \<Longrightarrow> full_table d' \<Longrightarrow> Q1 d'" for d bits
    using that assms(1) by (simp add: raise_notification_def Let_def)
  show "(\<And>d'. sem_total d' = sem_total d \<Longrightarrow> full_table d' \<Longrightarrow> Q1 d') \<Longrightarrow> wlp (notify_s e d) Q1"
    "(\<And>d'. sem_total d' = sem_total d \<Longrightarrow> full_table d' \<Longrightarrow> Q1 d') \<Longrightarrow> wlp (raise_notification e bits d) Q1"
    using n r assms by blast+
  show "(\<And>d'. sem_total d' = sem_total d \<Longrightarrow> full_table d' \<Longrightarrow> Q1 d') \<Longrightarrow> wlp (notify_ns_message e d) Q1"
    using r [of "d\<lparr>ns_to_s_ring := p, shm := s\<rparr>" for p s] assms by (auto simp: notify_ns_message_def Let_def split: prod.splits)
  show "(\<And>d'. sem_total d' = sem_total d \<Longrightarrow> full_table d' \<Longrightarrow> Q1 d') \<Longrightarrow> wlp (pnc_shm_forward e stack d) Q1"
    using smc assms by (simp add: pnc_shm_forward_def Let_def)
  show "(\<And>d'. sem_total d' = sem_total d \<Longrightarrow> full_table d' \<Longrightarrow> Q1 d') \<Longrightarrow> wlp (invalidate_sessions d) Q1"
    using assms by (simp add: invalidate_sessions_def pnc_shm_init_header_def)
qed

subsection \<open>Waiting and closing\<close>

lemma balance_checks [balance_rules]:
  assumes "accounted e" "full_table d"
  shows "(\<And>r d'. sem_total d' = sem_total d \<Longrightarrow> full_table d' \<Longrightarrow> Q2 (r, d')) \<Longrightarrow> wlp (check_session_configured e i d) Q2"
    and "(\<And>r d'. sem_total d' = sem_total d \<Longrightarrow> full_table d' \<Longrightarrow> Q2 (r, d')) \<Longrightarrow> wlp (check_and_handle_terminated_session e i d) Q2"
  using assms
  by (auto simp: check_session_configured_def check_and_handle_terminated_session_def Let_def intro!: balance_rules)

lemma balance_wait_session_event [balance_rules]:
  assumes "accounted e" "full_table d"
  shows "(\<And>r v d'. sem_total d' = sem_total d \<Longrightarrow> full_table d' \<Longrightarrow> Q3 (r, v, d')) \<Longrightarrow> wlp (wait_session_event e i m t d) Q3"
  using assms by (auto simp: wait_session_event_def clear_event_def Let_def intro!: balance_rules)

lemma balance_send_term [balance_rules]:
  assumes "accounted e" "full_table d"
  shows "(\<And>d'. sem_total d' = sem_total d \<Longrightarrow> full_table d' \<Longrightarrow> Q1 d') \<Longrightarrow> wlp (send_term e i d) Q1"
  using assms by (auto simp: send_term_def Let_def intro!: balance_rules)

lemma balance_close [balance_rules]:
  assumes "accounted e" "full_table d"
  shows "(\<And>d'. sem_total d' = sem_total d \<Longrightarrow> full_table d' \<Longrightarrow> Q1 d') \<Longrightarrow> wlp (pnc_session_close e session d) Q1"
  using assms by (cases session) (auto simp: pnc_session_close_def Let_def intro!: balance_rules)

subsection \<open>Handlers\<close>

lemma balance_dispatch [simp]:
  assumes "accounted e" "full_table d"
  shows "sem_total (dispatch_message e m d) = sem_total d \<and> full_table (dispatch_message e m d)"
  using assms
  by (simp add: dispatch_message_def handle_s_request_def handle_s_response_def handle_s_config_ack_def
      handle_s_cancel_def handle_s_cancel_ack_def handle_s_term_def handle_s_term_ack_def post_event_def Let_def
      split: option.splits session_action.splits session_state.splits)

lemma balance_handlers [balance_rules]:
  assumes "accounted e" "full_table d"
  shows "(\<And>d'. sem_total d' = sem_total d \<Longrightarrow> full_table d' \<Longrightarrow> Q1 d') \<Longrightarrow> wlp (handle_s_message e m d) Q1"
    and "(\<And>d'. sem_total d' = sem_total d \<Longrightarrow> full_table d' \<Longrightarrow> Q1 d') \<Longrightarrow> wlp (handle_s_signal e i d) Q1"
  using assms by (auto simp: handle_s_message_def handle_s_signal_def post_event_def intro!: balance_rules)

text \<open>What a loop has to keep.\<close>

definition balanced :: "'a drv_held_scheme \<Rightarrow> 'a drv_held_scheme \<Rightarrow> bool" where
  "balanced d d' \<longleftrightarrow> sem_total d' = sem_total d \<and> full_table d'"

lemma balance_close_sessions:
  assumes "accounted e" "full_table d"
  shows "wlp (close_sessions e i d) (balanced d)"
  using assms(2)
proof (induction "REE_MAX_SESSIONS - i" arbitrary: i d)
  case 0
  then show ?case by (subst close_sessions.simps) (simp add: balanced_def)
next
  case (Suc n)
  have "wlp (close_sessions e (Suc i) x) (balanced d)" if "sem_total x = sem_total d" "full_table x" for x
    using Suc.hyps(1) [of "Suc i" x] Suc.hyps(2) that by (simp add: balanced_def [abs_def])
  then show ?case
    using Suc.prems assms(1) by (subst close_sessions.simps) (auto simp: balanced_def intro!: balance_close)
qed

lemma balance_signal_loop:
  assumes "signal_loop e signals i d = Some d'" "accounted e" "full_table d"
  shows "balanced d d'"
  using assms(2,3)
proof (induction rule: signal_loop.raw_induct [OF _ assms(1), consumes 0])
  case (1 loop e signals i d d')
  have ih: "wlp (loop e j k x) (balanced d)" if "sem_total x = sem_total d" "full_table x" for x j k
    using 1(1) [OF _ 1(3) that(2)] that(1) by (simp add: wlp_iff balanced_def)
  have "wlp (do {
       d \<leftarrow> (if signals AND push_bit (unat (s_index (sess d i))) 1 \<noteq> 0 then handle_s_signal e i d
             else Some d);
       if next_session i d \<noteq> signal_session d then loop e signals (next_session i d) d
       else Some d}) (balanced d)"
    using 1(3,4) by (auto simp: balanced_def [abs_def] intro!: balance_rules ih [unfolded balanced_def [abs_def]])
  then show ?case using 1(2) by (simp add: wlp_iff)
qed

lemma balance_consume_loop:
  assumes "consume_loop e d = Some d'" "accounted e" "full_table d"
  shows "balanced d d'"
  using assms(2,3)
proof (induction rule: consume_loop.raw_induct [OF _ assms(1), consumes 0])
  case (1 loop e d d')
  have ih: "wlp (loop e x) (balanced d)" if "sem_total x = sem_total d" "full_table x" for x
    using 1(1) [OF _ 1(3) that(2)] that(1) by (simp add: wlp_iff balanced_def)
  have "wlp (let (m, c) = consumer_consume (s_to_ns_ring d) (ring_s_to_ns (shm d)); d = d\<lparr>s_to_ns_ring := c\<rparr>
      in case m of None \<Rightarrow> Some d | Some m \<Rightarrow> do { d \<leftarrow> handle_s_message e m d; loop e d }) (balanced d)"
    using 1(3,4) by (auto simp: Let_def balanced_def [abs_def] split: prod.splits option.splits
        intro!: balance_rules ih [unfolded balanced_def [abs_def]])
  then show ?case using 1(2) by (simp add: wlp_iff)
qed

lemma balance_message_loop:
  assumes "message_loop e d = Some d'" "accounted e" "full_table d"
  shows "balanced d d'"
  using assms(2,3)
proof (induction rule: message_loop.raw_induct [OF _ assms(1), consumes 0])
  case (1 loop e d d')
  have ih: "wlp (loop e x) (balanced d)" if "sem_total x = sem_total d" "full_table x" for x
    using 1(1) [OF _ 1(3) that(2)] that(1) by (simp add: wlp_iff balanced_def)
  have consume: "wlp (consume_loop e x) (\<lambda>y. wlp (loop e y) (balanced d))" if "sem_total x = sem_total d" "full_table x" for x
  proof -
    have "wlp (loop e y) (balanced d)" if y: "consume_loop e x = Some y" for y
      using balance_consume_loop [OF y 1(3) \<open>full_table x\<close>] \<open>sem_total x = sem_total d\<close> by (intro ih) (simp_all add: balanced_def)
    then show ?thesis by (simp add: wlp_iff [of "consume_loop e x"])
  qed
  have "wlp (let (ok, c, sh) = consumer_checkout (ring_peer e (tick d)) (s_to_ns_ring d) (ring_s_to_ns (shm d));
        d = d\<lparr>s_to_ns_ring := c, shm := (shm d)\<lparr>ring_s_to_ns := sh\<rparr>\<rparr>
      in if ok then do { d \<leftarrow> consume_loop e d; loop e d } else Some d) (balanced d)"
    using 1(3,4) by (auto simp: Let_def balanced_def split: prod.splits intro!: consume)
  then show ?case using 1(2) by (simp add: wlp_iff)
qed

lemma balance_loops [balance_rules]:
  assumes "accounted e" "full_table d"
  shows "(\<And>d'. sem_total d' = sem_total d \<Longrightarrow> full_table d' \<Longrightarrow> Q1 d') \<Longrightarrow> wlp (close_sessions e 0 d) Q1"
    and "(\<And>d'. sem_total d' = sem_total d \<Longrightarrow> full_table d' \<Longrightarrow> Q1 d') \<Longrightarrow> wlp (handle_signals e s d) Q1"
    and "(\<And>d'. sem_total d' = sem_total d \<Longrightarrow> full_table d' \<Longrightarrow> Q1 d') \<Longrightarrow> wlp (handle_messages e d) Q1"
proof -
  show "(\<And>d'. sem_total d' = sem_total d \<Longrightarrow> full_table d' \<Longrightarrow> Q1 d') \<Longrightarrow> wlp (close_sessions e 0 d) Q1"
    using balance_close_sessions [OF assms, of 0] by (auto simp: wlp_iff balanced_def)
  show "(\<And>d'. sem_total d' = sem_total d \<Longrightarrow> full_table d' \<Longrightarrow> Q1 d') \<Longrightarrow> wlp (handle_signals e s d) Q1"
    using balance_signal_loop [OF _ assms] assms
    by (auto simp: handle_signals_def wlp_iff [of "signal_loop e s i d" for i] balanced_def)
  show "wlp (handle_messages e d) Q1" if "\<And>d'. sem_total d' = sem_total d \<Longrightarrow> full_table d' \<Longrightarrow> Q1 d'"
  proof -
    have "wlp (notify_ns_message e (commit_messages x)) Q1" if "message_loop e d = Some x" for x
      using balance_message_loop [OF that assms] assms(1) \<open>\<And>d'. sem_total d' = sem_total d \<Longrightarrow> full_table d' \<Longrightarrow> Q1 d'\<close>
      by (auto simp: commit_messages_def balanced_def Let_def split: prod.split intro!: balance_primitives)
    then show ?thesis by (simp add: handle_messages_def wlp_iff [of "message_loop e d"])
  qed
qed

lemma balance_worker [balance_rules]:
  assumes "accounted e" "full_table d"
  shows "(\<And>d'. sem_total d' = sem_total d \<Longrightarrow> full_table d' \<Longrightarrow> Q1 d') \<Longrightarrow> wlp (handle_s_notification e stack d) Q1"
  using assms by (auto simp: handle_s_notification_def handle_s_reset_def Let_def intro!: balance_rules)

lemma balance_exit [balance_rules]:
  assumes "accounted e" "full_table d"
  shows "(\<And>d'. sem_total d' = sem_total d \<Longrightarrow> full_table d' \<Longrightarrow> Q1 d') \<Longrightarrow> wlp (pnc_sessions_exit e stack d) Q1"
  using assms by (auto simp: pnc_sessions_exit_def intro!: balance_rules)

lemma balance_interrupt [simp]: "accounted e \<Longrightarrow> sem_total (pnc_session_interrupt_handler d) = sem_total d"
  "full_table (pnc_session_interrupt_handler d) = full_table d"
  by (rule sem_total_sessions; simp add: pnc_session_interrupt_handler_def)
     (simp add: full_table_def pnc_session_interrupt_handler_def)

subsection \<open>The API\<close>

lemma balance_open_alloc [balance_rules]:
  assumes "accounted e" "full_table d"
  shows "(\<And>r v d'. sem_total d' = sem_total d \<Longrightarrow> full_table d' \<Longrightarrow> Q3 (r, v, d')) \<Longrightarrow> wlp (pnc_session_open e d) Q3"
    and "(\<And>r d'. sem_total d' = sem_total d \<Longrightarrow> full_table d' \<Longrightarrow> Q2 (r, d')) \<Longrightarrow> wlp (pnc_session_alloc e i sz d) Q2"
  using assms
  by (auto simp: pnc_session_open_def pnc_session_alloc_def Let_def split: option.splits intro!: balance_rules)

lemma balance_requests [balance_rules]:
  assumes "accounted e" "full_table d"
  shows "(\<And>r d'. sem_total d' = sem_total d \<Longrightarrow> full_table d' \<Longrightarrow> Q2 (r, d')) \<Longrightarrow> wlp (send_request e i x d) Q2"
    and "(\<And>r v d'. sem_total d' = sem_total d \<Longrightarrow> full_table d' \<Longrightarrow> Q3 (r, v, d')) \<Longrightarrow> wlp (get_response e i buf d) Q3"
    and "(\<And>r v d'. sem_total d' = sem_total d \<Longrightarrow> full_table d' \<Longrightarrow> Q3 (r, v, d')) \<Longrightarrow> wlp (pnc_session_get_request e i buf d) Q3"
    and "(\<And>r v d'. sem_total d' = sem_total d \<Longrightarrow> full_table d' \<Longrightarrow> Q3 (r, v, d')) \<Longrightarrow> wlp (cancel_wait e i t d) Q3"
  using assms
  by (auto simp: send_request_def get_response_def pnc_session_get_request_def cancel_wait_def clear_event_def Let_def
      intro!: balance_rules)

lemma balance_calls [balance_rules]:
  assumes "accounted e" "full_table d"
  shows "(\<And>r d'. sem_total d' = sem_total d \<Longrightarrow> full_table d' \<Longrightarrow> Q2 (r, d')) \<Longrightarrow> wlp (pnc_session_send_request e i x d) Q2"
    and "(\<And>r d'. sem_total d' = sem_total d \<Longrightarrow> full_table d' \<Longrightarrow> Q2 (r, d')) \<Longrightarrow> wlp (pnc_session_send_response e i x d) Q2"
    and "(\<And>r d'. sem_total d' = sem_total d \<Longrightarrow> full_table d' \<Longrightarrow> Q2 (r, d')) \<Longrightarrow> wlp (pnc_session_send_signal e i x d) Q2"
  using assms
  by (auto simp: pnc_session_send_request_def pnc_session_send_response_def pnc_session_send_signal_def Let_def
      intro!: balance_rules)

lemma balance_value_calls [balance_rules]:
  assumes "accounted e" "full_table d"
  shows "(\<And>r v d'. sem_total d' = sem_total d \<Longrightarrow> full_table d' \<Longrightarrow> Q3 (r, v, d')) \<Longrightarrow> wlp (pnc_session_get_response e i buf d) Q3"
    and "(\<And>r v d'. sem_total d' = sem_total d \<Longrightarrow> full_table d' \<Longrightarrow> Q3 (r, v, d')) \<Longrightarrow> wlp (pnc_session_wait_response e i buf t d) Q3"
    and "(\<And>r v d'. sem_total d' = sem_total d \<Longrightarrow> full_table d' \<Longrightarrow> Q3 (r, v, d')) \<Longrightarrow> wlp (pnc_session_wait_request e i buf t d) Q3"
    and "(\<And>r v d'. sem_total d' = sem_total d \<Longrightarrow> full_table d' \<Longrightarrow> Q3 (r, v, d')) \<Longrightarrow> wlp (pnc_session_send_request_and_wait_response e i x t buf d) Q3"
    and "(\<And>r v d'. sem_total d' = sem_total d \<Longrightarrow> full_table d' \<Longrightarrow> Q3 (r, v, d')) \<Longrightarrow> wlp (pnc_session_get_signal e i buf d) Q3"
    and "(\<And>r v d'. sem_total d' = sem_total d \<Longrightarrow> full_table d' \<Longrightarrow> Q3 (r, v, d')) \<Longrightarrow> wlp (pnc_session_wait_signal e i buf t d) Q3"
    and "(\<And>r v d'. sem_total d' = sem_total d \<Longrightarrow> full_table d' \<Longrightarrow> Q3 (r, v, d')) \<Longrightarrow> wlp (pnc_session_wait_event e i buf x t d) Q3"
    and "(\<And>r v d'. sem_total d' = sem_total d \<Longrightarrow> full_table d' \<Longrightarrow> Q3 (r, v, d')) \<Longrightarrow> wlp (pnc_session_get_pending_events e i buf d) Q3"
    and "(\<And>r v d'. sem_total d' = sem_total d \<Longrightarrow> full_table d' \<Longrightarrow> Q3 (r, v, d')) \<Longrightarrow> wlp (pnc_session_cancel_request e i buf t d) Q3"
  using assms
  by (auto simp: pnc_session_get_response_def pnc_session_wait_response_def pnc_session_wait_request_def
      pnc_session_send_request_and_wait_response_def pnc_session_get_signal_def pnc_session_wait_signal_def
      pnc_session_wait_event_def pnc_session_get_pending_events_def pnc_session_cancel_request_def
      take_s_to_ns_signals_def clear_event_def Let_def split: session_state.splits intro!: balance_rules)

lemma balance_poll [balance_rules]:
  assumes "accounted e" "full_table d"
  shows "(\<And>r d'. sem_total d' = sem_total d \<Longrightarrow> full_table d' \<Longrightarrow> Q2 (r, d')) \<Longrightarrow> wlp (pnc_session_poll_wait e session args d) Q2"
  using assms by (cases session) (auto simp: pnc_session_poll_wait_def intro!: balance_rules)

text \<open>A configuration whose name is refused keeps the semaphore of the session.\<close>

lemma balance_configure [balance_rules]:
  assumes "accounted e" "full_table d" "\<And>r d'. sem_total d' = sem_total d \<Longrightarrow> full_table d' \<Longrightarrow> Q (r, d')"
    and "\<And>r d'. name \<noteq> None \<Longrightarrow> r \<in> {- ENOTSUPP, - ENOMEM, - EOVERFLOW} \<Longrightarrow> sem_total d' = take_one i (sem_total d) \<Longrightarrow>
      full_table d' \<Longrightarrow> Q (r, d')"
  shows "wlp (configure_session e i sid name d) Q"
proof -
  have result: "wlp (config_result e i r x) Q" if "sem_total x = sem_total d" "full_table x" for r x
    using that assms(1,3) by (auto simp: config_result_def Let_def intro!: balance_rules)
  have names: "wlp (config_name i name base x) R"
    if "full_table x" "\<And>x'. sem_total x' = sem_total x \<Longrightarrow> full_table x' \<Longrightarrow> R (0, x')"
      "\<And>r. name \<noteq> None \<Longrightarrow> r \<in> {- ENOTSUPP, - ENOMEM, - EOVERFLOW} \<Longrightarrow> r \<noteq> 0 \<Longrightarrow> R (r, x)" for base x R
    using that assms(1) by (cases name) (auto simp: config_name_def errno wlp_iff split: if_splits bind_splits)
  show ?thesis
    using assms
    by (auto simp: configure_session_def Let_def wlp_iff [of "config_message i sid x" for x]
        intro!: names balance_sleeps balance_primitives balance_wait_session_event result)
qed

subsection \<open>All calls\<close>

lemma balance_exec:
  assumes "accounted e" "full_table d"
  shows "wlp (drv_exec e c d) (\<lambda>d'. full_table d' \<and>
    (sem_total d' = sem_total d \<or> (\<exists>i n. c = Config_by_name i (Some n) \<and> sem_total d' = take_one i (sem_total d))))"
  using assms
  by (cases c) (auto simp: pnc_session_config_def pnc_session_config_by_name_def intro!: balance_rules)

text \<open>
  C9. Every call gives back exactly the semaphores it takes, on every path, whatever the other threads take and give
  while it sleeps: an error, a timeout, a signal during a wait, a session that is terminated under it. What the others
  do may depend on the state in any way; for every semaphore the sum of its count and of what the others hold is the
  same before and after the call. Only the configuration by name may keep one, that of its session.
\<close>

theorem calls_balance_semaphores:
  assumes "accounted e" "length (sessions d) = REE_MAX_SESSIONS" "drv_exec e c d = Some d'"
  shows "sem_total d' = sem_total d \<or>
    (\<exists>i n. c = Config_by_name i (Some n) \<and> sem_total d' = take_one i (sem_total d))"
  using balance_exec [of e d c] assms by (simp add: full_table_def wlp_iff)

end
