(* ===== verification/PncReturns.thy ===== *)
theory PncReturns
  imports PncExclusive
begin

text \<open>
  Nobody waits for ever who may be interrupted: a thread with a pending signal returns from every call of the API on its
  session. The accesses through pointers on the way are valid because the sessions own their blocks (PncExclusive).
\<close>

named_theorems returns_rules \<open>rules of the operations for total correctness\<close>

text \<open>The sessions own their blocks and the work queue for monitor calls is there.\<close>

definition running :: "nat option \<Rightarrow> 'a drv_scheme \<Rightarrow> bool" where
  "running b d \<longleftrightarrow> exclusive_ok b d \<and> smc_wq d"

text \<open>A thread of session \<open>i\<close> with a pending signal; no other thread closes its session.\<close>

definition interrupted :: "nat option \<Rightarrow> nat \<Rightarrow> ('a drv_scheme, 'b) drv_env_scheme \<Rightarrow> bool" where
  "interrupted b i e \<longleftrightarrow> exclusive_env b {i} e \<and> env_keeps smc_wq e \<and> (\<forall>n. intr e n)"

lemma running_keep:
  assumes "running b d" "sessions d' = sessions d" "heap d' = heap d" "blocks d' = blocks d" "shm_nr_pages d' = shm_nr_pages d"
    "smc_wq d' = smc_wq d"
  shows "running b d'"
  using assms exclusive_keep [of b d d'] by (simp add: running_def)

lemma running_simps [simp]:
  assumes "running b d"
  shows "running b (d\<lparr>tick := n\<rparr>)" "running b (d\<lparr>smc_log := l\<rparr>)" "running b (d\<lparr>shm := s\<rparr>)"
    "running b (d\<lparr>ns_to_s_ring := p, shm := s\<rparr>)" "running b (d\<lparr>memory := m\<rparr>)" "running b (write_ns_message e x d)"
    "running b (clear_ns_to_s_signals w d)"
  by (rule running_keep [OF assms]; simp add: write_ns_message_def clear_ns_to_s_signals_def split: prod.split)+

lemma running_upd [simp]:
  assumes "running b d" "\<And>s. s_index (f s) = s_index s" "\<And>s. s_mem (f s) = s_mem s \<or> s_mem (f s) = None"
  shows "running b (upd_sess k f d)" 
  using assms exclusive_upd_keep [of b d f k] by (simp add: running_def upd_sess_def)

lemma running_sem [simp]: "running b d \<Longrightarrow> running b (upd_sem k g d)" "running b d \<Longrightarrow> running b (up_session k d)"
  by (simp_all add: upd_sem_def up_session_def)

lemma running_yield [simp]:
  assumes "interrupted b i e" "running b d"
  shows "running b (yield e d)" "running b (lock_sessions e d)"
proof -
  have "smc_wq (yield e d)" using assms by (auto simp: interrupted_def running_def yield_def env_keeps_def)
  then show "running b (yield e d)" "running b (lock_sessions e d)"
    using assms exclusive_taken(1) by (auto simp: interrupted_def running_def lock_sessions_def)
qed

lemma returns_sleeps [returns_rules]:
  assumes "interrupted b i e" "running b d"
  shows "(\<And>r d'. running b d' \<Longrightarrow> Q (r, d')) \<Longrightarrow> returns (down_session_interruptible e k d) Q"
    and "(\<And>r d'. running b d' \<Longrightarrow> Q (r, d')) \<Longrightarrow> returns (wait_event_interruptible e timeout cond d) Q"
  using assms running_yield [OF assms]
  by (auto simp: down_session_interruptible_def down_interruptible_def wait_event_interruptible_def interrupted_def Let_def)

lemma running_block: "running b d \<Longrightarrow> k < REE_MAX_SESSIONS \<Longrightarrow> s_mem (sess d k) = Some p \<Longrightarrow> \<exists>blk. heap d p = Some blk"
proof -
  assume d: "running b d" "k < REE_MAX_SESSIONS" "s_mem (sess d k) = Some p"
  then have "live_blocks d p \<noteq> None" using exclusive_D(3) [of b d] by (auto simp: running_def own_mem_def session_mem_def)
  then show ?thesis by (auto simp: live_blocks_def allocated_def split: option.splits if_splits)
qed

lemma returns_free [returns_rules]:
  assumes "interrupted b i e" "running b d" "i < REE_MAX_SESSIONS"
    and "\<And>r d'. (\<And>f. (\<And>s. s_index (f s) = s_index s) \<Longrightarrow> (\<And>s. s_mem (f s) = None) \<Longrightarrow> running b (upd_sess i f d')) \<Longrightarrow> Q (r, d')"
  shows "returns (pnc_shm_free e (s_mem (sess d i)) d) Q"
proof -
  have env: "exclusive_env b {i} e" "intr e n" for n using assms(1) by (simp_all add: interrupted_def)
  have ex: "exclusive_ok b d" using assms(2) by (simp add: running_def)
  have "\<exists>r d'. pnc_shm_free e (s_mem (sess d i)) d = Some (r, d') \<and> smc_wq d'"
  proof (cases "s_mem (sess d i)")
    case None
    then show ?thesis using assms(2) by (simp add: pnc_shm_free_def running_def)
  next
    case (Some p)
    have y: "running b (yield e d)" by (rule running_yield(1) [OF assms(1,2)])
    moreover have "s_mem (sess (yield e d) i) = Some p" using exclusive_taken(3) [OF env(1) ex _ Some] by simp
    ultimately obtain blk where "heap (yield e d) p = Some blk" using running_block assms(3) by blast
    moreover obtain blk' where "heap d p = Some blk'" using running_block [OF assms(2,3) Some] by blast
    ultimately show ?thesis
      using Some env(2) y by (simp add: pnc_shm_free_def down_shm_sem shm_free_locked_def running_def)
  qed
  then obtain r d' where f: "pnc_shm_free e (s_mem (sess d i)) d = Some (r, d')" "smc_wq d'" by blast
  have "running b (upd_sess i f d')" if "\<And>s. s_index (f s) = s_index s" "\<And>s. s_mem (f s) = None" for f
    using exclusive_free [OF env(1) ex _ f(1) that] assms(3) f(2) by (simp add: running_def upd_sess_def)
  then show ?thesis using assms(4) f(1) by (simp add: returns_iff)
qed

lemma returns_alloc:
  assumes "interrupted b i e" "running b d"
  shows "\<exists>r blk d'. pnc_shm_alloc e n d = Some (r, blk, d') \<and>
    running b (if blk \<noteq> None then upd_sess i (s_mem_update (\<lambda>_. blk)) d' else d')"
proof -
  have env: "exclusive_env b {i} e" "intr e n" "kmalloc_fresh e" for n using assms(1) by (simp_all add: interrupted_def exclusive_env_def)
  have ex: "exclusive_ok b d" using assms(2) by (simp add: running_def)
  let ?d = "(yield e d)\<lparr>shm_sem := shm_sem (yield e d) - 1\<rparr>"
  have y: "running b (yield e d)" by (rule running_yield(1) [OF assms])
  have taken: "exclusive_ok b ?d" using exclusive_taken(2) [OF env(1) ex] .
  have "shm_wf ?d" by (rule heap_tiled_wf [OF exclusive_D(2) [OF taken]])
  moreover have "blocks ?d = blocks d" using exclusive_D(4) [OF taken] exclusive_D(4) [OF ex] by simp
  ultimately obtain r blk h where "shm_alloc_locked e n (blocks d) ?d = Some (r, blk, ?d\<lparr>heap := h\<rparr>)"
    using shm_alloc_locked_ok [of ?d e n] env(3) by metis
  then have "\<exists>r blk d'. pnc_shm_alloc e n d = Some (r, blk, d') \<and> smc_wq d'"
    using y env(2) by (simp add: pnc_shm_alloc_def down_shm_sem running_def EINTR_def)
  then obtain r blk d' where d': "pnc_shm_alloc e n d = Some (r, blk, d')" "smc_wq d'" by blast
  then show ?thesis using exclusive_alloc [OF env(1) ex d'(1), of i] by (auto simp: running_def upd_sess_def)
qed

lemma returns_notify [returns_rules]:
  assumes "interrupted b i e" "running b d"
  shows "(\<And>d'. running b d' \<Longrightarrow> Q d') \<Longrightarrow> returns (raise_notification e bits d) Q"
    and "(\<And>d'. running b d' \<Longrightarrow> Q d') \<Longrightarrow> returns (notify_ns_message e d) Q"
proof -
  have smc: "returns (notify_s e d) Q" if "running b d" "\<And>d'. running b d' \<Longrightarrow> Q d'" for d
    using that by (simp add: notify_s_def pnc_sched_smc_Some running_def do_smc_def) (metis running_def running_simps(2))
  then have r: "returns (raise_notification e bits d) Q" if "running b d" "\<And>d'. running b d' \<Longrightarrow> Q d'" for d bits
    using that by (simp add: raise_notification_def Let_def)
  then show "(\<And>d'. running b d' \<Longrightarrow> Q d') \<Longrightarrow> returns (raise_notification e bits d) Q" using assms by blast
  show "(\<And>d'. running b d' \<Longrightarrow> Q d') \<Longrightarrow> returns (notify_ns_message e d) Q"
    using r assms by (auto simp: notify_ns_message_def Let_def split: prod.splits)
qed

lemma returns_config_message [returns_rules]:
  assumes "interrupted b i e" "running b d" "i < REE_MAX_SESSIONS" "\<And>m. Q m"
  shows "returns (config_message i sid d) Q"
  using assms running_block [OF assms(2,3)] by (cases "s_mem (sess d i)") (auto simp: config_message_def Let_def)

lemma returns_config_name:
  assumes "running b d" "i < REE_MAX_SESSIONS" "name = None \<or> s_mem (sess d i) \<noteq> None"
    and "\<And>r d'. running b d' \<Longrightarrow> Q (r, d')"
  shows "returns (config_name i name base d) Q"
  using assms running_block [OF assms(1,2)] by (cases name) (auto simp: config_name_def)

subsection \<open>The API\<close>

lemma returns_checks [returns_rules]:
  assumes "interrupted b i e" "running b d" "i < REE_MAX_SESSIONS"
  shows "(\<And>r d'. running b d' \<Longrightarrow> Q2 (r, d')) \<Longrightarrow> returns (check_session_configured e i d) Q2"
    and "(\<And>r d'. running b d' \<Longrightarrow> Q2 (r, d')) \<Longrightarrow> returns (check_and_handle_terminated_session e i d) Q2"
  using assms
  by (auto simp: check_session_configured_def check_and_handle_terminated_session_def Let_def intro!: returns_rules [OF assms(1)])

lemma returns_wait_session_event [returns_rules]:
  assumes "interrupted b i e" "running b d" "i < REE_MAX_SESSIONS"
  shows "(\<And>r v d'. running b d' \<Longrightarrow> Q3 (r, v, d')) \<Longrightarrow> returns (wait_session_event e i m t d) Q3"
  using assms by (auto simp: wait_session_event_def clear_event_def Let_def intro!: returns_rules [OF assms(1)])

lemma returns_close [returns_rules]:
  assumes "interrupted b i e" "running b d" "i < REE_MAX_SESSIONS"
  shows "(\<And>d'. running b d' \<Longrightarrow> Q1 d') \<Longrightarrow> returns (send_term e i d) Q1"
    and "(\<And>d'. running b d' \<Longrightarrow> Q1 d') \<Longrightarrow> returns (pnc_session_close e (Some i) d) Q1"
proof -
  have sent: "returns (send_term e i d) R" if "running b d" "\<And>d'. running b d' \<Longrightarrow> R d'" for d R
    using assms(1,3) that by (auto simp: send_term_def Let_def intro!: returns_rules [OF assms(1)])
  then show "(\<And>d'. running b d' \<Longrightarrow> Q1 d') \<Longrightarrow> returns (send_term e i d) Q1" using assms(2) by blast
  show "(\<And>d'. running b d' \<Longrightarrow> Q1 d') \<Longrightarrow> returns (pnc_session_close e (Some i) d) Q1"
    using assms by (auto simp: pnc_session_close_def Let_def intro!: sent returns_rules [OF assms(1)])
qed

lemma returns_session_alloc [returns_rules]:
  assumes "interrupted b i e" "running b d" "i < REE_MAX_SESSIONS"
  shows "(\<And>r d'. running b d' \<Longrightarrow> Q2 (r, d')) \<Longrightarrow> returns (pnc_session_alloc e i sz d) Q2"
  using assms(2) returns_alloc [OF assms(1,2), of "ucast (drop_bit PAGE_SHIFT (sz + of_nat (PAGE_SIZE - 1)))"]
  by (auto simp: pnc_session_alloc_def Let_def)

lemma returns_requests [returns_rules]:
  assumes "interrupted b i e" "running b d" "i < REE_MAX_SESSIONS"
  shows "(\<And>r d'. running b d' \<Longrightarrow> Q2 (r, d')) \<Longrightarrow> returns (send_request e i x d) Q2"
    and "(\<And>r v d'. running b d' \<Longrightarrow> Q3 (r, v, d')) \<Longrightarrow> returns (get_response e i buf d) Q3"
    and "(\<And>r v d'. running b d' \<Longrightarrow> Q3 (r, v, d')) \<Longrightarrow> returns (pnc_session_get_request e i buf d) Q3"
    and "(\<And>r v d'. running b d' \<Longrightarrow> Q3 (r, v, d')) \<Longrightarrow> returns (cancel_wait e i t d) Q3"
  using assms
  by (auto simp: send_request_def get_response_def pnc_session_get_request_def cancel_wait_def clear_event_def Let_def
      intro!: returns_rules [OF assms(1)])

lemma returns_calls [returns_rules]:
  assumes "interrupted b i e" "running b d" "i < REE_MAX_SESSIONS"
  shows "(\<And>r d'. running b d' \<Longrightarrow> Q2 (r, d')) \<Longrightarrow> returns (pnc_session_send_request e i x d) Q2"
    and "(\<And>r d'. running b d' \<Longrightarrow> Q2 (r, d')) \<Longrightarrow> returns (pnc_session_send_response e i x d) Q2"
    and "(\<And>r d'. running b d' \<Longrightarrow> Q2 (r, d')) \<Longrightarrow> returns (pnc_session_send_signal e i x d) Q2"
  using assms
  by (auto simp: pnc_session_send_request_def pnc_session_send_response_def pnc_session_send_signal_def Let_def
      intro!: returns_rules [OF assms(1)])

lemma returns_value_calls [returns_rules]:
  assumes "interrupted b i e" "running b d" "i < REE_MAX_SESSIONS"
  shows "(\<And>r v d'. running b d' \<Longrightarrow> Q3 (r, v, d')) \<Longrightarrow> returns (pnc_session_get_response e i buf d) Q3"
    and "(\<And>r v d'. running b d' \<Longrightarrow> Q3 (r, v, d')) \<Longrightarrow> returns (pnc_session_wait_response e i buf t d) Q3"
    and "(\<And>r v d'. running b d' \<Longrightarrow> Q3 (r, v, d')) \<Longrightarrow> returns (pnc_session_wait_request e i buf t d) Q3"
    and "(\<And>r v d'. running b d' \<Longrightarrow> Q3 (r, v, d')) \<Longrightarrow> returns (pnc_session_send_request_and_wait_response e i x t buf d) Q3"
    and "(\<And>r v d'. running b d' \<Longrightarrow> Q3 (r, v, d')) \<Longrightarrow> returns (pnc_session_get_signal e i buf d) Q3"
    and "(\<And>r v d'. running b d' \<Longrightarrow> Q3 (r, v, d')) \<Longrightarrow> returns (pnc_session_wait_signal e i buf t d) Q3"
    and "(\<And>r v d'. running b d' \<Longrightarrow> Q3 (r, v, d')) \<Longrightarrow> returns (pnc_session_wait_event e i buf x t d) Q3"
    and "(\<And>r v d'. running b d' \<Longrightarrow> Q3 (r, v, d')) \<Longrightarrow> returns (pnc_session_get_pending_events e i buf d) Q3"
    and "(\<And>r v d'. running b d' \<Longrightarrow> Q3 (r, v, d')) \<Longrightarrow> returns (pnc_session_cancel_request e i buf t d) Q3"
  using assms
  by (auto simp: pnc_session_get_response_def pnc_session_wait_response_def pnc_session_wait_request_def
      pnc_session_send_request_and_wait_response_def pnc_session_get_signal_def pnc_session_wait_signal_def
      pnc_session_wait_event_def pnc_session_get_pending_events_def pnc_session_cancel_request_def
      take_s_to_ns_signals_def clear_event_def Let_def split: session_state.splits intro!: returns_rules [OF assms(1)])

lemma returns_poll [returns_rules]:
  assumes "interrupted b i e" "running b d" "i < REE_MAX_SESSIONS"
  shows "(\<And>r d'. running b d' \<Longrightarrow> Q2 (r, d')) \<Longrightarrow> returns (pnc_session_poll_wait e (Some i) args d) Q2"
  using assms by (auto simp: pnc_session_poll_wait_def intro!: returns_rules [OF assms(1)])

lemma returns_configure [returns_rules]:
  assumes "interrupted b i e" "running b d" "i < REE_MAX_SESSIONS" "name = None \<or> s_mem (sess d i) \<noteq> None"
    and "\<And>r d'. running b d' \<Longrightarrow> Q (r, d')"
  shows "returns (configure_session e i sid name d) Q"
proof -
  have down: "returns (down_session_interruptible e i d) R"
    if "\<And>r d'. running b d' \<Longrightarrow> s_mem (sess d i) \<noteq> None \<longrightarrow> s_mem (sess d' i) \<noteq> None \<Longrightarrow> R (r, d')" for R
  proof -
    have "s_mem (sess d i) \<noteq> None \<longrightarrow> s_mem (sess (yield e d) i) \<noteq> None"
      using assms(1,2) exclusive_taken(3) [of b "{i}" e d i] by (auto simp: interrupted_def running_def)
    moreover have "s_mem (sess (upd_sem i g x) i) = s_mem (sess x i)" for g and x :: "'a drv_scheme"
      by (cases "i < length (sessions x)") (simp_all add: upd_sem_def upd_sess_def list_update_beyond sess_def)
    ultimately show ?thesis
      using that running_yield(1) [OF assms(1,2)] assms(1)
      by (auto simp: down_session_interruptible_def down_interruptible_def interrupted_def Let_def)
  qed
  have result: "returns (config_result e i r x) Q" if "running b x" for r x
    using that assms(1,5) by (auto simp: config_result_def Let_def intro!: returns_rules [OF assms(1)])
  have name_ok: "returns (config_name i name base x) R"
    if "running b x" "s_mem (sess d i) \<noteq> None \<longrightarrow> s_mem (sess x i) \<noteq> None" "\<And>r d'. running b d' \<Longrightarrow> R (r, d')" for base x R
    using that assms(3,4) by (intro returns_config_name) auto
  show ?thesis
    using assms(2,3,5)
    by (auto simp: configure_session_def Let_def intro!: down name_ok result returns_rules [OF assms(1)])
qed

lemma returns_exec:
  assumes "interrupted b i e" "running b d" "i < REE_MAX_SESSIONS" "call_session c = Some i"
    and "\<And>n. c = Config_by_name i (Some n) \<Longrightarrow> s_mem (sess d i) \<noteq> None"
  shows "returns (drv_exec e c d) (running b)"
  using assms(2-)
  by (cases c) (auto simp: pnc_session_config_def pnc_session_config_by_name_def intro!: returns_rules [OF assms(1)])

text \<open>
  C10. A thread with a pending signal returns from every call on its session, whatever the other threads and the secure
  world do or fail to do, as long as no other thread closes the session: it neither sleeps for ever nor follows an
  invalid pointer. A configuration by name needs a session that has memory.
\<close>

theorem interrupted_calls_return:
  assumes "interrupted b i e" "exclusive_ok b d" "smc_wq d" "i < REE_MAX_SESSIONS" "call_session c = Some i"
    and "\<And>n. c = Config_by_name i (Some n) \<Longrightarrow> s_mem (sess d i) \<noteq> None"
  shows "\<exists>d'. drv_exec e c d = Some d' \<and> exclusive_ok b d'"
  using returns_exec [of b i e d c] assms by (auto simp: running_def returns_iff)

end
