(* ===== verification/PncHistory_Examples.thy ===== *)
theory PncHistory_Examples
  imports PncExamples PncChannel PncIsolation PncSemaphores PncReturns
begin

text \<open>
  Histories of calls on the driver of PncExamples, from its start on: the theorems on the ring to the secure world, on the
  memory of the sessions, on their isolation, on the semaphores and on interrupted calls are applied to them.
\<close>

subsection \<open>The driver in use\<close>

text \<open>A secure world that has started, and other threads that have opened and configured their sessions.\<close>

definition started_env :: "drv drv_env" where
  "started_env = quiet_drv_env\<lparr>others := (\<lambda>n d. drv_example)\<rparr>"

lemma drv_example_sending: "heap_tiled drv_example" "sending_ok 100 (Some 1) drv_example"
proof -
  show tiled: "heap_tiled drv_example"
    using shm_example_list by (auto simp: heap_tiled_def shm_example_def proto_consts intro!: exI [of _ "[1, 2]"] split: if_splits)
  have "ns_actors drv_example s_consumer = fresh_ring" 
    by (simp add: ns_actors_def s_consumer_def fresh_ring_def uni_initial_def)
  then show "sending_ok 100 (Some 1) drv_example"
    using tiled moves_refl [of "ring_event_ok 100" fresh_ring] by (auto simp: sending_ok_def proto_consts intro: exI [of _ s_consumer])
qed

lemma sending_envs: "sending_env 100 (Some 1) (quiet_drv_env :: drv drv_env)" "sending_env 100 (Some 1) started_env"
proof -
  have "kmalloc_fresh (quiet_drv_env :: drv drv_env)"
    using quiet_env_fresh by (simp add: quiet_drv_env_def quiet_smc_env_def kmalloc_fresh_def smc_env.defs env.defs)
  moreover have "\<exists>c. moves consumer_event r (r\<lparr>rg_consumer := c\<rparr>)" for r :: "pnc_message uni_ring"
    by (intro exI [of _ "rg_consumer r"]) simp
  ultimately show "sending_env 100 (Some 1) (quiet_drv_env :: drv drv_env)" "sending_env 100 (Some 1) started_env"
    using drv_example_sending
    by (simp_all add: sending_env_def secure_consumes_def started_env_def env_keeps_def kmalloc_fresh_def)
qed

text \<open>The driver in use, when one more process has opened a session.\<close>

definition drv_opened :: drv where
  "drv_opened = snd (snd (the (pnc_session_open started_env drv_start)))"

lemma drv_opened:
  "drv_exec started_env Open drv_start = Some drv_opened"
  "\<exists>n. drv_opened = (upd_sess 4 (\<lambda>s. s\<lparr>s_free := False, s_event_pending := 0, s_client_message := zero_message,
     s_server_message := zero_message\<rparr>) drv_example)\<lparr>tick := n\<rparr>"
proof -
  have y: "yield started_env d = drv_example\<lparr>tick := Suc (tick d)\<rparr>" for d by (simp add: yield_def started_env_def)
  have free: "find_free 0 (drv_example\<lparr>tick := n\<rparr>) = Some 4" for n
    by (simp add: find_free.simps example_session_def initial_session_def proto_consts Let_def)
  have "\<not> session_ready drv_start" using drv_start(2) by (auto simp: pnc_session_interrupt_handler_def split: if_splits)
  then obtain n where n: "pnc_session_open started_env drv_start = Some (0, Some 4, (upd_sess 4 (\<lambda>s. s\<lparr>s_free := False,
     s_event_pending := 0, s_client_message := zero_message, s_server_message := zero_message\<rparr>) drv_example)\<lparr>tick := n\<rparr>)"
    using free by (simp add: pnc_session_open_def wait_event_def lock_sessions_def y Let_def)
  then show "drv_exec started_env Open drv_start = Some drv_opened" by (simp add: drv_opened_def)
  show "\<exists>n. drv_opened = (upd_sess 4 (\<lambda>s. s\<lparr>s_free := False, s_event_pending := 0, s_client_message := zero_message,
     s_server_message := zero_message\<rparr>) drv_example)\<lparr>tick := n\<rparr>"
    using n by (auto simp: drv_opened_def)
qed

lemma drv_opened_fields [simp]:
  "heap drv_opened = heap shm_example" "blocks drv_opened = Some 1" "shm_nr_pages drv_opened = 100" "shm_sem drv_opened = 1"
  "shm_base drv_opened = 0x1000" "session_ready drv_opened"
  "shm drv_opened = shm drv_example" "memory drv_opened = memory drv_example" "length (sessions drv_opened) = 28"
  "i < 28 \<Longrightarrow> i \<noteq> 4 \<Longrightarrow> sess drv_opened i = example_session i" "i < 28 \<Longrightarrow> s_index (sess drv_opened i) = of_nat i"
  "i < 28 \<Longrightarrow> s_mem (sess drv_opened i) = s_mem (example_session i)"
proof -
  let ?free = "\<lambda>s. s\<lparr>s_free := False, s_event_pending := 0, s_client_message := zero_message, s_server_message := zero_message\<rparr>"
  obtain n where n: "drv_opened = (upd_sess 4 ?free drv_example)\<lparr>tick := n\<rparr>" using drv_opened(2) by blast
  have s: "sess drv_opened i = (if i = 4 then ?free (example_session i) else example_session i)" if "i < 28" for i
    using that by (cases "i = 4") (simp_all add: n sess_def upd_sess_def)
  show "heap drv_opened = heap shm_example" "blocks drv_opened = Some 1" "shm_nr_pages drv_opened = 100"
    "shm_sem drv_opened = 1" "shm_base drv_opened = 0x1000" "session_ready drv_opened" "shm drv_opened = shm drv_example"
    "memory drv_opened = memory drv_example" "length (sessions drv_opened) = 28"
    by (simp_all add: n upd_sess_def)
  show "i < 28 \<Longrightarrow> i \<noteq> 4 \<Longrightarrow> sess drv_opened i = example_session i" "i < 28 \<Longrightarrow> s_index (sess drv_opened i) = of_nat i"
    "i < 28 \<Longrightarrow> s_mem (sess drv_opened i) = s_mem (example_session i)"
    using s by simp_all
qed

lemma example_session_mem: "s_mem (example_session i) = (if i = 0 then Some 1 else None)"
  by (simp add: example_session_def initial_session_def Let_def)

lemma drv_start_tiled: "heap_tiled (drv_example\<lparr>session_ready := False\<rparr>)"
  using heap_tiled_cong [of "drv_example\<lparr>session_ready := False\<rparr>" drv_example] drv_example_sending(1) by simp

lemma exclusive_examples: "exclusive_ok (Some 1) drv_example" "exclusive_ok (Some 1) drv_opened" "live_blocks drv_opened 1 = Some (3, 4)"
proof -
  have t: "heap_tiled drv_opened" using heap_tiled_cong [of drv_opened drv_example] drv_example_sending(1) by simp
  have l: "live_blocks drv_opened = live_blocks drv_example" by (rule live_blocks_cong) simp_all
  show "exclusive_ok (Some 1) drv_example"  "exclusive_ok (Some 1) drv_opened"
    using t l drv_example_sending(1) drv_example_shm(2)
    by (simp_all add: exclusive_ok_def exclusive_def own_mem_def session_mem_def example_session_mem proto_consts)
  show "live_blocks drv_opened 1 = Some (3, 4)" using l drv_example_shm(2) by simp
qed

lemma exclusive_envs: "exclusive_env (Some 1) K (quiet_drv_env :: drv drv_env)" "exclusive_env (Some 1) {} started_env"
  using exclusive_examples sending_envs
  by (simp_all add: exclusive_env_def sending_env_def started_env_def env_keeps_def)

text \<open>Session 1 gets two pages.\<close>

lemma session_mem_simps:
  "sess (upd_sess i f (d\<lparr>tick := n, heap := h, shm_sem := k\<rparr>)) j = sess (upd_sess i f d) j"
  "sess (d\<lparr>tick := n, heap := h, shm_sem := k\<rparr>) j = sess d j"
  by (simp_all add: sess_def upd_sess_def)

definition drv_served :: drv where
  "drv_served = snd (the (pnc_session_alloc (quiet_drv_env :: drv drv_env) 1 8192 drv_opened))"

definition served_heap :: "bool \<Rightarrow> block_heap" where
  "served_heap f =
     [1 \<mapsto> \<lparr>blk_free = False, blk_offset = 3, blk_nr_pages = 4, blk_next = Some 2\<rparr>,
      2 \<mapsto> \<lparr>blk_free = f, blk_offset = 7, blk_nr_pages = 2, blk_next = Some 0\<rparr>,
      0 \<mapsto> \<lparr>blk_free = True, blk_offset = 9, blk_nr_pages = 91, blk_next = None\<rparr>]"

lemma drv_served:
  "drv_exec quiet_drv_env (Alloc 1 8192) drv_opened = Some drv_served"
  "drv_served = upd_sess 1 (s_mem_update (\<lambda>_. Some 2)) (drv_opened\<lparr>tick := Suc (tick drv_opened), heap := served_heap False, shm_sem := 1\<rparr>)"
proof -
  have loop: "alloc_loop 2 (heap shm_example) (Some 1) = Some (Split 2, heap shm_example)"
    by (subst alloc_loop.simps, simp add: shm_example_def, subst alloc_loop.simps, simp)
  have "kmalloc (quiet_drv_env :: drv drv_env) n u = find (\<lambda>a. \<not> u a) [0..<64]" for n u
    by (simp add: quiet_drv_env_def quiet_smc_env_def quiet_env_def smc_env.defs env.defs)
  moreover have "find (\<lambda>a. heap shm_example a = None) [0..<64] = Some 0"
    by (simp add: shm_example_def upt_rec)
  moreover have "take_block 2 (split_block 2 2 0 (heap shm_example)) = served_heap False"
    by (simp add: served_heap_def shm_example_def take_block_def split_block_def fun_eq_iff)
  moreover have "s_mem (sess drv_opened 1) = None" by (simp add: example_session_mem)
  moreover have "ucast (drop_bit PAGE_SHIFT (8192 + of_nat (PAGE_SIZE - 1) :: u64)) = (2 :: u32)" by code_simp
  ultimately have "pnc_session_alloc (quiet_drv_env :: drv drv_env) 1 8192 drv_opened = Some (0,
      upd_sess 1 (s_mem_update (\<lambda>_. Some 2)) (drv_opened\<lparr>tick := Suc (tick drv_opened), heap := served_heap False, shm_sem := 1\<rparr>))"
    using loop by (simp add: pnc_session_alloc_def pnc_shm_alloc_def down_shm_sem yield_calm shm_alloc_locked_def)
  then show "drv_exec quiet_drv_env (Alloc 1 8192) drv_opened = Some drv_served"
    "drv_served = upd_sess 1 (s_mem_update (\<lambda>_. Some 2)) (drv_opened\<lparr>tick := Suc (tick drv_opened), heap := served_heap False, shm_sem := 1\<rparr>)"
    by (simp_all add: drv_served_def)
qed

lemma drv_served_fields:
  "heap drv_served = served_heap False" "shm_sem drv_served = 1" "blocks drv_served = Some 1" "length (sessions drv_served) = 28"
  "sess drv_served 1 = (example_session 1)\<lparr>s_mem := Some 2\<rparr>" "s_mem (sess drv_served 0) = Some 1"
  "s_mem (sess drv_served 4) = None" "session_ready drv_served" "pnc_shm_ready drv_served"
proof -
  show "heap drv_served = served_heap False" "shm_sem drv_served = 1" "blocks drv_served = Some 1" "length (sessions drv_served) = 28"
    "session_ready drv_served" "pnc_shm_ready drv_served"
    by (simp_all add: drv_served(2) upd_sess_def pnc_shm_ready_def)
  show "sess drv_served 1 = (example_session 1)\<lparr>s_mem := Some 2\<rparr>" "s_mem (sess drv_served 0) = Some 1"
    "s_mem (sess drv_served 4) = None"
    unfolding drv_served(2) by (simp_all add: session_mem_simps example_session_mem)
qed

subsection \<open>The properties, on these histories\<close>

theorem driver_sends_protocol_witness:
  "\<exists>d' c. history (sending_step 100 (Some 1)) drv_start [Open, Send_request 0 42] d' \<and>
    uni_visible (ns_actors d' s_consumer) = [request_message 0 42] \<and>
    list_all (protocol_message 100) (uni_content (ns_actors d' c))"
proof -
  have s1: "sending_step 100 (Some 1) drv_start Open drv_opened"
    using drv_opened(1) by (intro sending_step [OF sending_envs(2)]) simp_all
  obtain n where d1: "drv_opened = (upd_sess 4 (\<lambda>s. s\<lparr>s_free := False, s_event_pending := 0, s_client_message := zero_message,
     s_server_message := zero_message\<rparr>) drv_example)\<lparr>tick := n\<rparr>" using drv_opened(2) by blast
  have "configured drv_opened 0 = configured drv_example 0" "ns_full drv_opened = ns_full drv_example"
    by (simp_all add: d1 configured_def pnc_shm_ready_def ns_full_def)
  then have up: "configured drv_opened 0" "\<not> ns_full drv_opened" using drv_example_sessions(1) drv_example_ring(3) by simp_all
  have ok: "drv_inv drv_opened" "uni_wf 8 (ns_actors drv_opened s_consumer)" "uni_content (ns_actors drv_opened s_consumer) = []"
    "s_client (sess drv_opened 0) = S_IDLE"
    using drv_example_ring by (simp_all add: d1 example_session_def initial_session_def)
  then obtain d' where d': "pnc_session_send_request (quiet_drv_env :: drv drv_env) 0 42 drv_opened = Some (0, d')"
      "uni_visible (ns_actors d' s_consumer) = [request_message 0 42]"
    using request_reaches_secure_world [OF quiet_drv_env_calm(1) ok(1) up(1) ok(4,2) up(2), of 42] ok(3) by auto
  have s2: "sending_step 100 (Some 1) drv_opened (Send_request 0 42) d'"
    using d'(1) by (intro sending_step [OF sending_envs(1)]) (simp_all add: proto_consts)
  have h: "history (sending_step 100 (Some 1)) drv_start [Open, Send_request 0 42] d'"
    using s1 s2 by (meson history_cons history_nil)
  obtain c where "list_all (protocol_message 100) (uni_content (ns_actors d' c))"
    using driver_sends_protocol [OF drv_start(1) drv_start_tiled, of "[Open, Send_request 0 42]" d'] h by auto
  then show ?thesis using h d'(2) by blast
qed

lemma drv_opened_step: "exclusive_step (Some 1) drv_start Open drv_opened"
  using drv_opened(1) exclusive_envs(2) by (intro exclusive_step [of _ _ started_env]) (simp_all add: call_sessions_def)

theorem sessions_have_own_memory_witness:
  "history (exclusive_step (Some 1)) drv_start [Open, Alloc 1 8192] drv_served \<and>
    (\<exists>r s. live_blocks drv_served 1 = Some r \<and> live_blocks drv_served 2 = Some s \<and>
       range_pages r \<subseteq> shm_area drv_served \<and> range_pages s \<subseteq> shm_area drv_served \<and> range_pages r \<inter> range_pages s = {})"
proof -
  have "exclusive_step (Some 1) drv_opened (Alloc 1 8192) drv_served"
    using drv_served(1) by (intro exclusive_step [OF exclusive_envs(1)]) (simp_all add: proto_consts)
  then have h: "history (exclusive_step (Some 1)) drv_start [Open, Alloc 1 8192] drv_served"
    using drv_opened_step by (meson history_cons history_nil)
  then show ?thesis
    using sessions_have_own_memory [OF drv_start(1) drv_start_tiled, of "[Open, Alloc 1 8192]" drv_served 0 1 1 2] drv_served_fields(5,6)
    by (auto simp: proto_consts)
qed

theorem sessions_isolated_witness:
  "history (other_step 0 1 (3, 4) drv_opened) drv_opened [Alloc 1 8192] drv_served \<and> sess drv_served 0 = example_session 0 \<and>
    live_blocks drv_served 1 = Some (3, 4) \<and> memory drv_served 12288 = memory drv_opened 12288"
proof -
  have start: "history (exclusive_step (Some 1)) drv_start [Open] drv_opened"
    using drv_opened_step by (meson history_cons history_nil)
  have env: "isolated_env 0 1 (3, 4) drv_opened (quiet_drv_env :: drv drv_env)"
    using sending_envs(1) by (simp add: isolated_env_def sending_env_def)
  have "other_step 0 1 (3, 4) drv_opened drv_opened (Alloc 1 8192) drv_served"
    using drv_served(1) by (intro other_step [OF env]) (simp_all add: proto_consts)
  then have h: "history (other_step 0 1 (3, 4) drv_opened) drv_opened [Alloc 1 8192] drv_served" by (meson history_cons history_nil)
  have "sess drv_served 0 = sess drv_opened 0 \<and> live_blocks drv_served 1 = Some (3, 4) \<and>
      (\<forall>a \<in> range_bytes (3, 4). memory drv_served a = memory drv_opened a)"
    using sessions_isolated [OF drv_start(1) drv_start_tiled _ _ _ _ exclusive_examples(3) h, of "[Open]"] start
    by (simp add: proto_consts example_session_def initial_session_def)
  moreover have "12288 \<in> range_bytes (3, 4)" by (simp add: range_bytes_def proto_consts)
  ultimately show ?thesis using h by auto
qed

text \<open>A thread with a pending signal.\<close>

definition interrupted_env :: "drv drv_env" where
  "interrupted_env = quiet_drv_env\<lparr>intr := (\<lambda>n. True)\<rparr>"

lemma interrupted_env_simps [simp]:
  "others interrupted_env n d = d" "intr interrupted_env n" "ring_peer interrupted_env n = id"
  by (simp_all add: interrupted_env_def)

theorem interrupted_calls_return_witness:
  "\<exists>d'. drv_exec interrupted_env (Wait_response 0 True 0) drv_example = Some d' \<and> exclusive_ok (Some 1) d'"
proof (rule interrupted_calls_return)
  show "interrupted (Some 1) 0 interrupted_env"
    using exclusive_envs(1) [of "{0}"]
    by (simp add: interrupted_def exclusive_env_def interrupted_env_def env_keeps_def kmalloc_fresh_def)
  show "exclusive_ok (Some 1) drv_example" by (rule exclusive_examples(1))
qed (simp_all add: proto_consts)

text \<open>
  Another thread takes the semaphore of session 3 whenever it is free and gives it back otherwise, while the thread of
  session 0 has a pending signal.
\<close>

definition others_toggle :: "drv_held \<Rightarrow> drv_held" where
  "others_toggle d =
     (if length (sessions d) \<le> 3 then d
      else if 0 < s_sem (sess d 3)
      then (upd_sem 3 (\<lambda>n. n - 1) d)\<lparr>others_held := (others_held d)(Some 3 := others_held d (Some 3) + 1)\<rparr>
      else (upd_sem 3 (\<lambda>n. n + 1) d)\<lparr>others_held := (others_held d)(Some 3 := others_held d (Some 3) - 1)\<rparr>)"

definition toggling_env :: "drv_held drv_env" where
  "toggling_env = quiet_drv_env\<lparr>intr := (\<lambda>n. True), others := (\<lambda>n. others_toggle)\<rparr>"

definition held_example :: drv_held where
  "held_example = drv.extend drv_example \<lparr>others_held = (\<lambda>k. 0)\<rparr>"

lemma held_example_fields:
  "sessions held_example = sessions drv_example" "heap held_example = heap drv_example" "blocks held_example = blocks drv_example"
  "shm_nr_pages held_example = shm_nr_pages drv_example" "smc_wq held_example" "others_held held_example k = 0"
  "shm_sem held_example = 1"
  by (simp_all add: held_example_def drv.defs)

lemma others_toggle_sessions:
  "length (sessions (others_toggle d)) = length (sessions d)" "s_mem (sess (others_toggle d) i) = s_mem (sess d i)"
  "s_index (sess (others_toggle d) i) = s_index (sess d i)"
proof -
  have "s_mem (sess (upd_sem 3 g d) i) = s_mem (sess d i) \<and> s_index (sess (upd_sem 3 g d) i) = s_index (sess d i)"
    if "3 < length (sessions d)" for g
    using that by (cases "i = 3") (simp_all add: upd_sem_def)
  moreover have "sess (x\<lparr>others_held := h\<rparr>) i = sess x i" for x :: drv_held and h by (simp add: sess_def)
  ultimately show "length (sessions (others_toggle d)) = length (sessions d)" "s_mem (sess (others_toggle d) i) = s_mem (sess d i)"
    "s_index (sess (others_toggle d) i) = s_index (sess d i)"
    by (simp_all add: others_toggle_def upd_sem_def)
qed

lemma toggling_accounted: "accounted toggling_env"
proof -
  have "sem_total (others_toggle d) k = sem_total d k" for d k
  proof -
    have held: "sem_count (x\<lparr>others_held := h\<rparr>) j = sem_count x j" for x :: drv_held and h j
      by (simp add: sem_count_def sess_def split: option.split)
    have "sem_count (upd_sem 3 g d) k = (if k = Some 3 then int (g (s_sem (sess d 3))) else sem_count d k)"
      if "3 < length (sessions d)" for g
      using that by (cases k) (auto simp: sem_count_def upd_sem_def upd_sess_def sess_def nth_list_update)
    then show ?thesis by (auto simp: others_toggle_def sem_total_def held) (simp_all add: sem_count_def)
  qed
  then show ?thesis by (simp add: accounted_def toggling_env_def others_toggle_sessions(1) fun_eq_iff)
qed

lemma toggling_interrupted: "interrupted (Some 1) 0 toggling_env"
proof -
  have held: "exclusive_ok (Some 1) (x\<lparr>others_held := h\<rparr>)" if "exclusive_ok (Some 1) x" for x :: drv_held and h
    by (rule exclusive_keep [OF that]) simp_all
  have "exclusive_ok (Some 1) (others_toggle d)" if "exclusive_ok (Some 1) d" for d
    using held exclusive_upd_keep [OF that] that by (simp add: others_toggle_def upd_sem_def)
  moreover have "smc_wq (others_toggle d) = smc_wq d" for d by (simp add: others_toggle_def upd_sem_def upd_sess_def)
  moreover have "kmalloc_fresh toggling_env"
    by (auto simp: kmalloc_fresh_def toggling_env_def quiet_drv_env_def quiet_smc_env_def quiet_env_def smc_env.defs env.defs find_Some_iff)
  ultimately show ?thesis
    by (simp add: interrupted_def exclusive_env_def env_keeps_def toggling_env_def others_toggle_sessions kmalloc_fresh_def)
qed

theorem calls_balance_semaphores_witness:
  "sem_count (others toggling_env 0 held_example) (Some 3) = 0 \<and>
    (\<exists>d'. drv_exec toggling_env (Wait_response 0 True 0) held_example = Some d' \<and>
       sem_total d' (Some 0) = 1 \<and> sem_total d' (Some 3) = 1 \<and> sem_total d' None = 1)"
proof -
  have ok: "exclusive_ok (Some 1) held_example"
    by (rule exclusive_keep [OF exclusive_examples(1)]) (simp_all only: held_example_fields)
  have "returns (drv_exec toggling_env (Wait_response 0 True 0) held_example) (running (Some 1))"
    using ok held_example_fields by (intro returns_exec [OF toggling_interrupted]) (simp_all add: running_def proto_consts)
  then obtain d' where d': "drv_exec toggling_env (Wait_response 0 True 0) held_example = Some d'" by (auto simp: returns_iff)
  have "sem_total d' = sem_total held_example"
    using calls_balance_semaphores [OF toggling_accounted _ d'] held_example_fields(1) by (simp add: proto_consts)
  moreover have "sem_total held_example (Some 0) = 1" "sem_total held_example (Some 3) = 1" "sem_total held_example None = 1"
    using held_example_fields by (simp_all add: sem_total_def sem_count_def sess_def example_session_def initial_session_def)
  moreover have "sem_count (others toggling_env 0 held_example) (Some 3) = 0"
    using held_example_fields(1)
    by (simp add: toggling_env_def others_toggle_def sem_count_def upd_sem_def upd_sess_def sess_def example_session_def initial_session_def)
  ultimately show ?thesis using d' by metis
qed

subsection \<open>Closing under a close\<close>

definition close_and_alloc :: "drv \<Rightarrow> drv" where
  "close_and_alloc d =
     (case do { d \<leftarrow> drv_exec interrupted_env (Close (Some 1)) d; drv_exec quiet_drv_env (Alloc 4 8192) d } of
        None \<Rightarrow> d | Some d' \<Rightarrow> d')"

text \<open>They run when \<open>pnc_session_close\<close> waits for the semaphore of the allocator.\<close>

definition racing_env :: "drv drv_env" where
  "racing_env = quiet_drv_env\<lparr>others := (\<lambda>n d. if n = tick drv_served + 2 then close_and_alloc d else d)\<rparr>"

lemma live_not_free: "heap d p = Some blk \<Longrightarrow> blk_free blk \<Longrightarrow> live_blocks d p = None"
  by (simp add: live_blocks_def allocated_def split: option.split)

lemma served_alloc:
  assumes "heap d = served_heap True" "blocks d = Some 1" "shm_sem d = 1" "length (sessions d) = 28" "s_mem (sess d 4) = None"
  shows "\<exists>d'. drv_exec quiet_drv_env (Alloc 4 8192) d = Some d' \<and> heap d' = served_heap False \<and> shm_sem d' = 1 \<and>
    length (sessions d') = 28 \<and> s_mem (sess d' 4) = Some 2"
proof -
  have "alloc_loop 2 (served_heap True) (Some 1) = Some (Found 2, served_heap True)"
    by (subst alloc_loop.simps, simp add: served_heap_def, subst alloc_loop.simps, simp)
  moreover have "take_block 2 (served_heap True) = served_heap False" by (simp add: served_heap_def take_block_def fun_eq_iff)
  moreover have "ucast (drop_bit PAGE_SHIFT (8192 + of_nat (PAGE_SIZE - 1) :: u64)) = (2 :: u32)" by code_simp
  ultimately show ?thesis
    using assms by (simp add: pnc_session_alloc_def pnc_shm_alloc_def down_shm_sem yield_calm shm_alloc_locked_def session_mem_simps)
qed

lemma served_close:
  assumes "heap d = served_heap False" "shm_sem d = 1" "length (sessions d) = 28" "s_mem (sess d 1) = Some 2" "s_sem (sess d 1) = 0"
  shows "\<exists>d'. drv_exec interrupted_env (Close (Some 1)) d = Some d' \<and> heap d' = served_heap True \<and> blocks d' = blocks d \<and>
    shm_sem d' = 1 \<and> length (sessions d') = 28 \<and> s_mem (sess d' 4) = s_mem (sess d 4)"
proof -
  have y: "yield interrupted_env d = d\<lparr>tick := Suc (tick d)\<rparr>" for d by (simp add: yield_def)
  have down: "down_session_interruptible interrupted_env 1 d = Some (- EINTR, d\<lparr>tick := Suc (tick d)\<rparr>)" if "s_sem (sess d 1) = 0" for d
    using that by (simp add: down_session_interruptible_def down_interruptible_def y Let_def sess_def)
  have "\<exists>r n. check_session_configured interrupted_env 1 d = Some (r, d\<lparr>tick := n\<rparr>) \<and> r \<noteq> 0"
  proof (cases "session_ready d \<and> pnc_shm_ready d")
    case True
    then show ?thesis
      using down [OF assms(5)] by (intro exI [of _ "- ERESTARTSYS"] exI [of _ "Suc (tick d)"]) (simp add: check_session_configured_def errno)
  next
    case False
    then have "\<exists>r. check_session_configured interrupted_env 1 d = Some (r, d\<lparr>tick := tick d\<rparr>) \<and> r \<noteq> 0"
      by (auto simp: check_session_configured_def errno)
    then show ?thesis by blast
  qed
  then obtain r n where check: "check_session_configured interrupted_env 1 d = Some (r, d\<lparr>tick := n\<rparr>)" "r \<noteq> 0" by blast
  have "(served_heap False)(2 \<mapsto> \<lparr>blk_free = True, blk_offset = 7, blk_nr_pages = 2, blk_next = Some 0\<rparr>) = served_heap True"
    by (simp add: served_heap_def fun_eq_iff)
  then show ?thesis
    using assms check down [of "d\<lparr>tick := n\<rparr>"]
    by (simp add: pnc_session_close_def pnc_shm_free_def down_shm_sem y shm_free_locked_def served_heap_def lock_sessions_def
        EINTR_def Let_def sess_def upd_sess_def)
qed

lemma racing_yield:
  "yield racing_env d = (if tick d = tick drv_served + 2 then close_and_alloc d else d)\<lparr>tick := Suc (tick d)\<rparr>"
  by (simp add: yield_def racing_env_def)

lemma racing_down:
  assumes "0 < s_sem (sess d 1)" "tick d \<noteq> tick drv_served + 2"
  shows "down_session_interruptible racing_env 1 d = Some (0, (upd_sem 1 (\<lambda>n. n - 1) d)\<lparr>tick := Suc (tick d)\<rparr>)"
  using assms
  by (simp add: down_session_interruptible_def down_interruptible_def racing_yield Let_def sess_def upd_sem_def upd_sess_def)

lemma racing_check:
  "check_session_configured racing_env 1 drv_served = Some (- ENODEV, drv_served\<lparr>tick := tick drv_served + 1\<rparr>)"
proof -
  have "0 < s_sem (sess drv_served 1)" "s_global (sess drv_served 1) \<noteq> S_CONFIGURED"
    using drv_served_fields(5) by (simp_all add: example_session_def initial_session_def)
  then show ?thesis
    using racing_down [of drv_served] drv_served_fields up_down [of drv_served 1]
    by (simp add: word_le_nat_alt check_session_configured_def Let_def proto_consts upd_sem_def example_session_def
        initial_session_def)
qed

lemma racing_close:
  "\<exists>d'. pnc_session_close racing_env (Some 1) drv_served = Some d' \<and> s_mem (sess d' 4) = Some 2 \<and> live_blocks d' 2 = None"
proof -
  note s = drv_served_fields
  let ?n = "tick drv_served" and ?down = "upd_sem 1 (\<lambda>n. n - 1)"
  let ?d = "upd_sess 1 (s_global_update (\<lambda>_. S_NULL)) (?down (drv_served\<lparr>tick := ?n + 2\<rparr>))"
  have "heap ?d = served_heap False" "shm_sem ?d = 1" "length (sessions ?d) = 28" "s_mem (sess ?d 1) = Some 2" "s_sem (sess ?d 1) = 0"
    "blocks ?d = Some 1" "s_mem (sess ?d 4) = None"
    using s by (simp_all add: upd_sem_def example_session_def initial_session_def upd_sess_def [of _ _ "d\<lparr>tick := n\<rparr>" for d n])
  then obtain d where d: "close_and_alloc ?d = d" "heap d = served_heap False" "shm_sem d = 1" "length (sessions d) = 28" "s_mem (sess d 4) = Some 2"
    using served_close [of ?d] served_alloc by (fastforce simp: close_and_alloc_def)
  have free: "shm_free_locked 2 (d\<lparr>tick := k, shm_sem := m\<rparr>) =
      Some (d\<lparr>tick := k, shm_sem := m, heap := served_heap True\<rparr>)" for k m
    using d(2) by (simp add: shm_free_locked_def served_heap_def fun_eq_iff)
  have "pnc_shm_free racing_env (Some 2) ?d = Some (0, d\<lparr>tick := ?n + 3, heap := served_heap True, shm_sem := 1\<rparr>)"
    using s d free by (simp add: pnc_shm_free_def down_shm_sem racing_yield) (simp add: served_heap_def)
  moreover have "s_mem (sess ?d 1) = Some 2" "down_session_interruptible racing_env 1 (drv_served\<lparr>tick := ?n + 1\<rparr>) =
      Some (0, ?down (drv_served\<lparr>tick := ?n + 2\<rparr>))"
    using racing_down [of "drv_served\<lparr>tick := ?n + 1\<rparr>"] s by (simp_all add: upd_sem_def example_session_def initial_session_def)
  ultimately obtain d' where "pnc_session_close racing_env (Some 1) drv_served = Some d'" "heap d' = served_heap True"
      "s_mem (sess d' 4) = s_mem (sess d 4)"
    using racing_check d(4)
    by (simp add: errno pnc_session_close_def lock_sessions_def racing_yield up_session_def upd_sem_def Let_def session_mem_simps)
  then show ?thesis using d(5) live_not_free [of d' 2] by (simp add: served_heap_def)
qed

text \<open>
  C25. Closing does not exclude closing. \<open>pnc_session_close\<close> goes on when its wait for the semaphore of the session is
  interrupted; the thread that has the semaphore, the worker after a reset say, then releases a block that has been
  released under it. In between, the block may have been allocated by another session, which is left with memory that
  is not in use. The other threads only make calls that keep the memory of the sessions right on their own.
\<close>

theorem close_releases_foreign_block:
  "exclusive_ok (Some 1) drv_served \<and> env_keeps (exclusive_ok (Some 1)) racing_env \<and>
   (\<exists>d'. pnc_session_close racing_env (Some 1) drv_served = Some d' \<and> s_mem (sess d' 4) = Some 2 \<and> live_blocks d' 2 = None)"
proof (intro conjI)
  note exec = exclusive.kept_exec [where b = "Some 1" and K = UNIV]
  have "exclusive_env (Some 1) UNIV interrupted_env"
    using exclusive_envs(1) [of UNIV] by (simp add: exclusive_env_def interrupted_env_def env_keeps_def kmalloc_fresh_def)
  then have close: "drv_exec interrupted_env (Close (Some 1)) d = Some d' \<Longrightarrow> exclusive_ok (Some 1) d \<Longrightarrow> exclusive_ok (Some 1) d'"
    for d d' :: drv using exec [of interrupted_env d "Close (Some 1)"] by (simp add: wlp_iff proto_consts)
  have alloc: "drv_exec quiet_drv_env (Alloc i n) d = Some d' \<Longrightarrow> i < 28 \<Longrightarrow> exclusive_ok (Some 1) d \<Longrightarrow> exclusive_ok (Some 1) d'"
    for d d' :: drv and i n using exec [of quiet_drv_env d "Alloc i n"] exclusive_envs(1) [of UNIV] by (simp add: wlp_iff proto_consts)
  show served: "exclusive_ok (Some 1) drv_served" using alloc [OF drv_served(1) _ exclusive_examples(2)] by simp
  have "exclusive_ok (Some 1) (close_and_alloc d)" if "exclusive_ok (Some 1) d" for d
    using that close [of d] alloc [of 4 8192]
    by (auto simp: close_and_alloc_def simp del: drv_exec.simps split: option.splits bind_splits)
  then show "env_keeps (exclusive_ok (Some 1)) racing_env" by (simp add: env_keeps_def racing_env_def)
  show "\<exists>d'. pnc_session_close racing_env (Some 1) drv_served = Some d' \<and> s_mem (sess d' 4) = Some 2 \<and> live_blocks d' 2 = None"
    by (rule racing_close)
qed

end
