(* ===== verification/PncDevice.thy ===== *)
theory PncDevice
  imports PncApi
begin

text \<open>
  The character device \<open>/dev/trustzone\<close> (the file operations of \<open>drivers/provencore/ree/main.c\<close>). The memory of
  the calling process maps addresses to bytes; an address that it does not map faults. A file is the session in its
  \<open>private_data\<close>. What an automatic variable holds before it is written is an argument.
\<close>

subsection \<open>The memory of the process\<close>

type_synonym user_mem = "u64 \<rightharpoonup> u8"

text \<open>
  \<open>copy_to_user\<close> and \<open>copy_from_user\<close> stop at the first address that faults and return the number of bytes that
  they did not copy; \<open>copy_from_user\<close> fills the rest of its buffer with 0.
\<close>

fun copy_to_user :: "u64 \<Rightarrow> u8 list \<Rightarrow> user_mem \<Rightarrow> nat \<times> user_mem" where
  "copy_to_user a [] m = (0, m)"
| "copy_to_user a (b # bs) m =
     (if m a = None then (Suc (length bs), m) else copy_to_user (a + 1) bs (m(a \<mapsto> b)))"

fun copy_from_user :: "u64 \<Rightarrow> nat \<Rightarrow> user_mem \<Rightarrow> nat \<times> u8 list" where
  "copy_from_user a 0 m = (0, [])"
| "copy_from_user a (Suc n) m =
     (case m a of None \<Rightarrow> (Suc n, replicate (Suc n) 0)
      | Some b \<Rightarrow> (let (r, bs) = copy_from_user (a + 1) n m in (r, b # bs)))"

text \<open>A \<open>uint32_t\<close> in memory, least significant byte first.\<close>

definition bytes_of_u32 :: "u32 \<Rightarrow> u8 list" where
  "bytes_of_u32 x = [ucast x, ucast (drop_bit 8 x), ucast (drop_bit 16 x), ucast (drop_bit 24 x)]"

fun u32_of_bytes :: "u8 list \<Rightarrow> u32" where
  "u32_of_bytes [] = 0"
| "u32_of_bytes (b # bs) = ucast b OR push_bit 8 (u32_of_bytes bs)"

subsection \<open>Parameter vectors\<close>

record pnc_send_params =
  sp_type :: u32
  sp_flags :: u32
  sp_timeout :: u32
  sp_status :: u32

record pnc_ioctl_params =
  io_sent :: u32
  io_returned :: u32
  io_timeout :: u32

definition bytes_of_ioctl_params :: "pnc_ioctl_params \<Rightarrow> u8 list" where
  "bytes_of_ioctl_params p =
     bytes_of_u32 (io_sent p) @ bytes_of_u32 (io_returned p) @ bytes_of_u32 (io_timeout p)"

definition ioctl_params_of_bytes :: "u8 list \<Rightarrow> pnc_ioctl_params" where
  "ioctl_params_of_bytes bs =
     \<lparr>io_sent = u32_of_bytes (take 4 bs), io_returned = u32_of_bytes (take 4 (drop 4 bs)),
      io_timeout = u32_of_bytes (take 4 (drop 8 bs))\<rparr>"

definition bytes_of_send_params :: "pnc_send_params \<Rightarrow> u8 list" where
  "bytes_of_send_params p =
     bytes_of_u32 (sp_type p) @ bytes_of_u32 (sp_flags p) @ bytes_of_u32 (sp_timeout p) @
     bytes_of_u32 (sp_status p)"

definition send_params_of_bytes :: "u8 list \<Rightarrow> pnc_send_params" where
  "send_params_of_bytes bs =
     \<lparr>sp_type = u32_of_bytes (take 4 bs), sp_flags = u32_of_bytes (take 4 (drop 4 bs)),
      sp_timeout = u32_of_bytes (take 4 (drop 8 bs)), sp_status = u32_of_bytes (take 4 (drop 12 bs))\<rparr>"

subsection \<open>The obsolete extended request\<close>

text \<open>\<open>flags\<close> is passed to \<open>pnc_session_request\<close>, which does not use it.\<close>

definition pnc_send_ext ::
  "('a drv_scheme, 'b) drv_env_scheme \<Rightarrow> nat \<Rightarrow> u64 \<Rightarrow> user_mem \<Rightarrow> 'a drv_scheme
     \<Rightarrow> (int \<times> user_mem \<times> 'a drv_scheme) option" where
  "pnc_send_ext e i params user d =
     (let (res, bs) = copy_from_user params 16 user;
          loc_params = send_params_of_bytes bs
      in if res \<noteq> 0 then Some (- EINVAL, user, d)
      else do {
        (res, status, d) \<leftarrow> pnc_session_request e i (sp_type loc_params) (sp_timeout loc_params) True d;
        if res \<noteq> 0 then Some (res, user, d)
        else
          let loc_params = loc_params\<lparr>sp_status := (case status of None \<Rightarrow> sp_status loc_params | Some x \<Rightarrow> x)\<rparr>;
              (res, user) = copy_to_user params (bytes_of_send_params loc_params) user
          in if res \<noteq> 0 then Some (- EINVAL, user, d) else Some (0, user, d)
      })"

subsection \<open>Requests of the \<open>ioctl\<close> call\<close>

definition TZ_IOCTL_ALLOC :: u32 where "TZ_IOCTL_ALLOC = 1"
definition TZ_IOCTL_SEND_OBSOLETE :: u32 where "TZ_IOCTL_SEND_OBSOLETE = 3"
definition TZ_IOCTL_CONFIG_PROHIBITED :: u32 where "TZ_IOCTL_CONFIG_PROHIBITED = 4"
definition TZ_IOCTL_CONFIG_SID :: u32 where "TZ_IOCTL_CONFIG_SID = 6"
definition TZ_IOCTL_SEND_EXT_OBSOLETE :: u32 where "TZ_IOCTL_SEND_EXT_OBSOLETE = 7"
definition TZ_IOCTL_VERSION :: u32 where "TZ_IOCTL_VERSION = 8224"
definition TZ_IOCTL_SEND_RESP :: u32 where "TZ_IOCTL_SEND_RESP = 8"
definition TZ_IOCTL_GET_RESP :: u32 where "TZ_IOCTL_GET_RESP = 9"
definition TZ_IOCTL_WAIT_RESP :: u32 where "TZ_IOCTL_WAIT_RESP = 10"
definition TZ_IOCTL_SEND_REQ :: u32 where "TZ_IOCTL_SEND_REQ = 11"
definition TZ_IOCTL_GET_REQ :: u32 where "TZ_IOCTL_GET_REQ = 12"
definition TZ_IOCTL_WAIT_REQ :: u32 where "TZ_IOCTL_WAIT_REQ = 13"
definition TZ_IOCTL_CANCEL_REQ :: u32 where "TZ_IOCTL_CANCEL_REQ = 14"
definition TZ_IOCTL_SEND_SIGNAL :: u32 where "TZ_IOCTL_SEND_SIGNAL = 15"
definition TZ_IOCTL_GET_SIGNAL :: u32 where "TZ_IOCTL_GET_SIGNAL = 16"
definition TZ_IOCTL_WAIT_SIGNAL :: u32 where "TZ_IOCTL_WAIT_SIGNAL = 17"
definition TZ_IOCTL_WAIT_EVENT :: u32 where "TZ_IOCTL_WAIT_EVENT = 18"
definition TZ_IOCTL_GET_PENDING_EVENTS :: u32 where "TZ_IOCTL_GET_PENDING_EVENTS = 19"

lemmas ioctl_codes = TZ_IOCTL_ALLOC_def TZ_IOCTL_SEND_OBSOLETE_def TZ_IOCTL_CONFIG_PROHIBITED_def
  TZ_IOCTL_CONFIG_SID_def TZ_IOCTL_SEND_EXT_OBSOLETE_def TZ_IOCTL_VERSION_def TZ_IOCTL_SEND_RESP_def
  TZ_IOCTL_GET_RESP_def TZ_IOCTL_WAIT_RESP_def TZ_IOCTL_SEND_REQ_def TZ_IOCTL_GET_REQ_def
  TZ_IOCTL_WAIT_REQ_def TZ_IOCTL_CANCEL_REQ_def TZ_IOCTL_SEND_SIGNAL_def TZ_IOCTL_GET_SIGNAL_def
  TZ_IOCTL_WAIT_SIGNAL_def TZ_IOCTL_WAIT_EVENT_def TZ_IOCTL_GET_PENDING_EVENTS_def

text \<open>
  The three shapes of a case of the \<open>switch\<close>: a call without output; a call that fills \<open>val\<close>, which is copied to the
  process; and a call between reading and writing back \<open>ioctl_params\<close>, when the code of the call is \<open>good\<close>.
\<close>

definition ioctl_call ::
  "(int \<times> 'd) option \<Rightarrow> user_mem \<Rightarrow> (int \<times> user_mem \<times> 'd) option" where
  "ioctl_call m user = do { (ret, d) \<leftarrow> m; Some (ret, user, d) }"

definition ioctl_get ::
  "u32 \<Rightarrow> (int \<times> u32 option \<times> 'd) option \<Rightarrow> u64 \<Rightarrow> user_mem \<Rightarrow> (int \<times> user_mem \<times> 'd) option" where
  "ioctl_get val m arg user =
     do {
       (ret, v, d) \<leftarrow> m;
       if ret = 0 then
         let (n, user) = copy_to_user arg (bytes_of_u32 (case v of None \<Rightarrow> val | Some x \<Rightarrow> x)) user
         in Some (int n, user, d)
       else Some (ret, user, d)
     }"

definition ioctl_put_params ::
  "pnc_ioctl_params \<Rightarrow> u32 option \<Rightarrow> u64 \<Rightarrow> user_mem \<Rightarrow> nat \<times> user_mem" where
  "ioctl_put_params p v arg user =
     copy_to_user arg
       (bytes_of_ioctl_params (p\<lparr>io_returned := (case v of None \<Rightarrow> io_returned p | Some x \<Rightarrow> x)\<rparr>)) user"

definition ioctl_wait ::
  "int \<Rightarrow> (pnc_ioctl_params \<Rightarrow> (int \<times> u32 option \<times> 'd) option) \<Rightarrow> u64 \<Rightarrow> user_mem \<Rightarrow> 'd
     \<Rightarrow> (int \<times> user_mem \<times> 'd) option" where
  "ioctl_wait good f arg user d =
     (let (n, bs) = copy_from_user arg 12 user;
          p = ioctl_params_of_bytes bs
      in if n \<noteq> 0 then Some (int n, user, d)
      else do {
        (ret, v, d) \<leftarrow> f p;
        if ret = good then
          let (n, user) = ioctl_put_params p v arg user
          in Some (if n = 0 then good else int n, user, d)
        else Some (ret, user, d)
      })"

text \<open>
  The call. \<open>val\<close> and \<open>ioctl_params\<close> are what the automatic variables hold at its start. \<open>arg\<close> is cut to 32 bits
  where a request, a response or signal bits are meant.
\<close>

definition pnc_miscdev_ioctl ::
  "('a drv_scheme, 'b) drv_env_scheme \<Rightarrow> u32 \<Rightarrow> pnc_ioctl_params \<Rightarrow> nat \<Rightarrow> u32 \<Rightarrow> u64 \<Rightarrow> user_mem
     \<Rightarrow> 'a drv_scheme \<Rightarrow> (int \<times> user_mem \<times> 'a drv_scheme) option" where
  "pnc_miscdev_ioctl e val ioctl_params i cmd arg user d =
     (let nr = cmd AND 0xffff
      in if nr = TZ_IOCTL_VERSION then
           (let (ret, v) = pnc_session_get_version (Some i) True d in ioctl_get val (Some (ret, v, d)) arg user)
         else if nr = TZ_IOCTL_ALLOC then ioctl_call (pnc_session_alloc e i arg d) user
         else if nr = TZ_IOCTL_CONFIG_SID then ioctl_call (pnc_session_config e i arg d) user
         else if nr = TZ_IOCTL_SEND_OBSOLETE then do {
           (ret, _, d) \<leftarrow> pnc_session_request e i (ucast arg) 0 False d;
           Some (ret, user, d)
         }
         else if nr = TZ_IOCTL_SEND_EXT_OBSOLETE then pnc_send_ext e i arg user d
         else if nr = TZ_IOCTL_CONFIG_PROHIBITED then Some (- ENOTSUPP, user, d)
         else if nr = TZ_IOCTL_SEND_RESP then ioctl_call (pnc_session_send_response e i (ucast arg) d) user
         else if nr = TZ_IOCTL_GET_RESP then ioctl_get val (pnc_session_get_response e i True d) arg user
         else if nr = TZ_IOCTL_WAIT_RESP then
           ioctl_wait 0 (\<lambda>p. pnc_session_wait_response e i True (io_timeout p) d) arg user d
         else if nr = TZ_IOCTL_SEND_REQ then ioctl_call (pnc_session_send_request e i (ucast arg) d) user
         else if nr = TZ_IOCTL_GET_REQ then ioctl_get val (pnc_session_get_request e i True d) arg user
         else if nr = TZ_IOCTL_WAIT_REQ then
           ioctl_wait 0 (\<lambda>p. pnc_session_wait_request e i True (io_timeout p) d) arg user d
         else if nr = TZ_IOCTL_CANCEL_REQ then
           ioctl_wait (int_of_u32 REQUEST_CANCEL_RESPONSE)
             (\<lambda>p. pnc_session_cancel_request e i True (io_timeout p) d) arg user d
         else if nr = TZ_IOCTL_SEND_SIGNAL then ioctl_call (pnc_session_send_signal e i (ucast arg) d) user
         else if nr = TZ_IOCTL_GET_SIGNAL then ioctl_get val (pnc_session_get_signal e i True d) arg user
         else if nr = TZ_IOCTL_WAIT_SIGNAL then
           ioctl_wait 0 (\<lambda>p. pnc_session_wait_signal e i True (io_timeout p) d) arg user d
         else if nr = TZ_IOCTL_WAIT_EVENT then
           ioctl_wait 0 (\<lambda>p. pnc_session_wait_event e i True (io_sent p) (io_timeout p) d) arg user d
         else if nr = TZ_IOCTL_GET_PENDING_EVENTS then do {
           (ret, v, d) \<leftarrow> pnc_session_get_pending_events e i True d;
           if ret = 0 then
             let (n, user) = ioctl_put_params ioctl_params v arg user in Some (int n, user, d)
           else Some (ret, user, d)
         }
         else Some (- ENOTTY, user, d))"

subsection \<open>Open, release, poll\<close>

definition pnc_miscdev_open ::
  "('a drv_scheme, 'b) drv_env_scheme \<Rightarrow> 'a drv_scheme \<Rightarrow> (int \<times> nat option \<times> 'a drv_scheme) option" where
  "pnc_miscdev_open e d = pnc_session_open e d"

text \<open>The result is the code and the new \<open>private_data\<close>.\<close>

definition pnc_miscdev_release ::
  "('a drv_scheme, 'b) drv_env_scheme \<Rightarrow> nat option \<Rightarrow> 'a drv_scheme
     \<Rightarrow> (int \<times> nat option \<times> 'a drv_scheme) option" where
  "pnc_miscdev_release e private_data d =
     do { d \<leftarrow> pnc_session_close e private_data d; Some (0, None, d) }"

definition pnc_miscdev_poll ::
  "('a drv_scheme, 'b) drv_env_scheme \<Rightarrow> nat option \<Rightarrow> bool \<Rightarrow> 'a drv_scheme \<Rightarrow> (u32 \<times> 'a drv_scheme) option" where
  "pnc_miscdev_poll e private_data args d = pnc_session_poll_wait e private_data args d"

subsection \<open>Mapping the memory of a session\<close>

text \<open>\<open>vm_pages\<close>: the pages inserted, each with its address and its page frame number.\<close>

record vma =
  vm_start :: u64
  vm_end :: u64
  vm_pgoff :: u64
  vm_flags :: u64
  vm_pages :: "(u64 \<times> u64) list"

definition VM_SHARED :: u64 where "VM_SHARED = 0x8"
definition VM_RESERVED :: u64 where "VM_RESERVED = 0x04040000"

text \<open>
  The loop, from its counter \<open>i\<close> on, for \<open>n\<close> more pages. \<open>ins\<close> is the answer of \<open>vm_insert_page\<close> for an address
  and a page.
\<close>

fun insert_pages :: "(u64 \<Rightarrow> u64 \<Rightarrow> int) \<Rightarrow> nat \<Rightarrow> u64 \<Rightarrow> u64 \<Rightarrow> vma \<Rightarrow> int \<times> vma" where
  "insert_pages ins 0 i pfn v = (0, v)"
| "insert_pages ins (Suc n) i pfn v =
     (let a = vm_start v + i * of_nat PAGE_SIZE;
          r = ins a pfn
      in if r \<noteq> 0 then (r, v)
         else insert_pages ins n (i + 1) (pfn + 1) (v\<lparr>vm_pages := vm_pages v @ [(a, pfn)]\<rparr>))"

definition pnc_miscdev_mmap ::
  "(u64 \<Rightarrow> u64 \<Rightarrow> int) \<Rightarrow> u64 \<Rightarrow> nat option \<Rightarrow> vma \<Rightarrow> 'a drv_scheme \<Rightarrow> (int \<times> vma) option" where
  "pnc_miscdev_mmap ins base session v d =
     (let offset = vm_pgoff v;
          nr_pages = drop_bit PAGE_SHIFT (vm_end v - vm_start v)
      in do {
        (ret, r) \<leftarrow> pnc_session_get_mem_offset session d;
        if ret < 0 then Some (- ENODEV, v)
        else
          let (mem_offset, mem_nr_pages) =
                (case r of None \<Rightarrow> (0, 0) | Some (a, b) \<Rightarrow> (ucast a, ucast b))
          in if vm_flags v AND VM_SHARED = 0 then Some (- EINVAL, v)
             else if mem_nr_pages \<le> offset \<or> mem_nr_pages < offset + nr_pages then Some (- EINVAL, v)
             else Some (insert_pages ins (unat nr_pages) 0 (base + mem_offset + offset)
                    (v\<lparr>vm_flags := vm_flags v OR VM_RESERVED\<rparr>))
      })"

end
