(* ===== verification/PncDevice_Props.thy ===== *)
theory PncDevice_Props
  imports PncDevice PncExamples
begin

text \<open>
  What a process can do through the character device: the driver writes only to the parameter vector the process
  named, a mapping shows only pages of the session's own memory, and what happens when the process's memory faults.
\<close>

subsection \<open>Copies\<close>

text \<open>Only the \<open>n\<close> bytes from \<open>a\<close> on may differ, and nothing is mapped or unmapped.\<close>

definition writes_within :: "u64 \<Rightarrow> nat \<Rightarrow> user_mem \<Rightarrow> user_mem \<Rightarrow> bool" where
  "writes_within a n m m' \<longleftrightarrow> dom m' = dom m \<and> (\<forall>x. n \<le> unat (x - a) \<longrightarrow> m' x = m x)"

lemma writes_within_refl [simp]: "writes_within a n m m"
  by (simp add: writes_within_def)

lemma writes_within_mono: "writes_within a k m m' \<Longrightarrow> k \<le> n \<Longrightarrow> writes_within a n m m'"
  by (auto simp: writes_within_def)

lemma unat_u64_Suc:
  assumes "(x::u64) \<noteq> a"
  shows "unat (x - a) = Suc (unat (x - (a + 1)))"
proof -
  have "x - a \<noteq> 0" using assms by simp
  then have "unat (x - a) = Suc (unat (x - a - 1))" by (simp add: unat_minus_one unat_gt_0)
  then show ?thesis by (simp add: algebra_simps)
qed

lemma copy_to_user_within: "copy_to_user a bs m = (n, m') \<Longrightarrow> writes_within a (length bs) m m'"
proof (induction bs arbitrary: a m)
  case (Cons b bs)
  show ?case
  proof (cases "m a = None")
    case False
    then have "copy_to_user (a + 1) bs (m(a \<mapsto> b)) = (n, m')" using Cons.prems by (auto split: if_splits)
    then have w: "writes_within (a + 1) (length bs) (m(a \<mapsto> b)) m'" by (rule Cons.IH)
    have "m' x = m x" if "Suc (length bs) \<le> unat (x - a)" for x
    proof -
      have "x \<noteq> a" using that by auto
      then show ?thesis using w that unat_u64_Suc [of x a] by (auto simp: writes_within_def)
    qed
    then show ?thesis using w False by (auto simp: writes_within_def)
  qed (use Cons in simp)
qed simp

lemma copy_from_to_user:
  "copy_to_user a bs m = (0, m') \<Longrightarrow> length bs < 2 ^ 64 \<Longrightarrow> copy_from_user a (length bs) m' = (0, bs)"
proof (induction bs arbitrary: a m)
  case (Cons b bs)
  then have ok: "copy_to_user (a + 1) bs (m(a \<mapsto> b)) = (0, m')" by (auto split: if_splits)
  have "a - (a + 1) = - 1" by simp
  then have "unat (a - (a + 1)) = 18446744073709551615" by (simp only:) (simp add: unsigned_minus_1_eq_mask mask_eq_exp_minus_1)
  then have "length bs \<le> unat (a - (a + 1))" using Cons.prems(2) by simp
  then have "m' a = Some b" using copy_to_user_within [OF ok] by (simp add: writes_within_def)
  then show ?case using Cons ok by simp
qed simp

lemma copy_to_user_ok:
  "(\<And>k. k < length bs \<Longrightarrow> m (a + of_nat k) \<noteq> None) \<Longrightarrow> \<exists>m'. copy_to_user a bs m = (0, m')"
proof (induction bs arbitrary: a m)
  case (Cons b bs)
  have "m a \<noteq> None" using Cons.prems [of 0] by simp
  moreover have "\<exists>m'. copy_to_user (a + 1) bs (m(a \<mapsto> b)) = (0, m')"
    using Cons.prems [of "Suc _"] by (intro Cons.IH) (simp add: add.assoc)
  ultimately show ?case by simp
qed simp

lemma u32_bytes [simp]: "length (bytes_of_u32 x) = 4" "u32_of_bytes (bytes_of_u32 x) = x"
proof -
  show "length (bytes_of_u32 x) = 4" by (simp add: bytes_of_u32_def)
  have "bit (u32_of_bytes (bytes_of_u32 x)) n = bit x n" if "n < 32" for n
  proof -
    consider "n < 8" | "8 \<le> n" "n < 16" | "16 \<le> n" "n < 24" | "24 \<le> n" using that by linarith
    then show ?thesis using that by cases (auto simp: bytes_of_u32_def bit_simps)
  qed
  then show "u32_of_bytes (bytes_of_u32 x) = x" by (intro bit_word_eqI) simp
qed

lemma params_bytes [simp]:
  "length (bytes_of_ioctl_params p) = 12" "ioctl_params_of_bytes (bytes_of_ioctl_params p) = p"
  "length (bytes_of_send_params q) = 16" "send_params_of_bytes (bytes_of_send_params q) = q"
  by (simp_all add: bytes_of_ioctl_params_def ioctl_params_of_bytes_def bytes_of_send_params_def
      send_params_of_bytes_def)


subsection \<open>The driver writes only to the parameter vector\<close>

definition ioctl_post :: "u64 \<Rightarrow> user_mem \<Rightarrow> int \<times> user_mem \<times> 'a drv_scheme \<Rightarrow> bool" where
  "ioctl_post arg user = (\<lambda>(ret, user', d). drv_inv d \<and> writes_within arg 16 user user')"

lemma ioctl_post_iff [simp]:
  "ioctl_post arg user (ret, user', d) \<longleftrightarrow> drv_inv d \<and> writes_within arg 16 user user'"
  by (simp add: ioctl_post_def)

lemma ioctl_post_copy:
  assumes "copy_to_user arg bs user = (n, user')" "length bs \<le> 16"
  shows "writes_within arg 16 user user'"
  using copy_to_user_within [OF assms(1)] assms(2) by (rule writes_within_mono)

lemma wlp_ioctl_call:
  assumes "wlp m (\<lambda>(ret, d). drv_inv d)"
  shows "wlp (ioctl_call m user) (ioctl_post arg user)"
  using assms by (cases m) (auto simp: ioctl_call_def ioctl_post_def)

lemma wlp_ioctl_get:
  assumes "wlp m (\<lambda>(ret, v, d). drv_inv d)"
  shows "wlp (ioctl_get val m arg user) (ioctl_post arg user)"
  using assms
  by (cases m) (auto simp: ioctl_get_def ioctl_post_def Let_def split: prod.splits intro!: ioctl_post_copy)

lemma wlp_ioctl_put_params:
  "ioctl_put_params p v arg user = (n, user') \<Longrightarrow> writes_within arg 16 user user'"
  unfolding ioctl_put_params_def by (erule ioctl_post_copy) simp

lemma wlp_ioctl_wait:
  assumes "drv_inv d" "\<And>p. wlp (f p) (\<lambda>(ret, v, d). drv_inv d)"
  shows "wlp (ioctl_wait good f arg user d) (ioctl_post arg user)"
proof -
  obtain n bs where c: "copy_from_user arg 12 user = (n, bs)" by fastforce
  show ?thesis
    using assms(1) assms(2) [of "ioctl_params_of_bytes bs"]
    by (cases "f (ioctl_params_of_bytes bs)")
       (auto simp: ioctl_wait_def c ioctl_post_def Let_def split: prod.splits dest: wlp_ioctl_put_params)
qed

lemma wlp_request:
  assumes "env_keeps drv_inv e" "drv_inv d" "\<And>r v d. drv_inv d \<Longrightarrow> Q (r, v, d)"
  shows "wlp (pnc_session_request e i x t buf d) Q"
  unfolding pnc_session_request_def using assms by (auto intro!: wlp_rules)

lemma wlp_send_ext:
  assumes "env_keeps drv_inv e" "drv_inv d"
  shows "wlp (pnc_send_ext e i arg user d) (ioctl_post arg user)"
proof -
  obtain n bs where c: "copy_from_user arg 16 user = (n, bs)" by fastforce
  show ?thesis
    unfolding pnc_send_ext_def c Let_def using assms
    by (auto simp: ioctl_post_def split: prod.splits intro!: wlp_request dest: ioctl_post_copy)
qed

lemma wlp_ioctl:
  assumes "env_keeps drv_inv e" "drv_inv d"
  shows "wlp (pnc_miscdev_ioctl e val p i cmd arg user d) (ioctl_post arg user)"
proof -
  note rules = wlp_ioctl_call wlp_ioctl_get wlp_ioctl_wait wlp_send_ext wlp_request
  show ?thesis
    unfolding pnc_miscdev_ioctl_def Let_def pnc_session_config_def
    using assms
    by (auto simp: pnc_session_get_version_def split: prod.splits intro!: rules wlp_rules dest: wlp_ioctl_put_params)
qed

text \<open>
  C27. Whatever a process asks for with \<open>ioctl\<close>, the driver writes at most the 16 bytes from the address it was given,
  maps or unmaps nothing of the process, and the framework keeps its invariant.
\<close>

theorem ioctl_confined:
  assumes "pnc_miscdev_ioctl e val p i cmd arg user d = Some (ret, user', d')"
    and "env_keeps drv_inv e" and "drv_inv d"
  shows "drv_inv d' \<and> dom user' = dom user \<and> (16 \<le> unat (a - arg) \<longrightarrow> user' a = user a)"
  using wlp_ioctl [OF assms(2,3), of val p i cmd arg user] assms(1)
  by (simp add: ioctl_post_def writes_within_def)

text \<open>
  The parameter vectors survive the way to the process and back: what the driver has copied to a mapped
  address is what its next copy from there reads.
\<close>

theorem ioctl_params_roundtrip:
  assumes "ioctl_put_params p v arg user = (0, user')"
  shows "\<exists>bs. copy_from_user arg 12 user' = (0, bs) \<and>
    ioctl_params_of_bytes bs = p\<lparr>io_returned := (case v of None \<Rightarrow> io_returned p | Some x \<Rightarrow> x)\<rparr>"
  using copy_from_to_user [OF assms [unfolded ioctl_put_params_def]] by simp

subsection \<open>Faults\<close>

text \<open>
  C29. A fault of the process loses its response: when the address of the result is not mapped, the call has already
  taken the response, and returns the positive number of bytes not copied instead of an error.
\<close>

theorem ioctl_fault_loses_response:
  assumes "calm e" "drv_inv d" "configured d i" "s_client (sess d i) = S_NOTIFIED" and "user arg = None"
  shows "\<exists>d'. pnc_miscdev_ioctl e val p i TZ_IOCTL_GET_RESP arg user d = Some (4, user, d') \<and>
    s_client (sess d' i) = S_IDLE \<and> s_client_message (sess d' i) = zero_message"
proof -
  have i: "i < length (sessions d)" using assms(2,3) by (simp add: configured_def drv_inv_def)
  have "copy_to_user arg (bytes_of_u32 x) user = (4, user)" for x
    using assms(5) by (simp add: bytes_of_u32_def)
  then show ?thesis
    using get_response_calm [OF assms(1-4)] i
    by (simp add: pnc_miscdev_ioctl_def ioctl_codes ioctl_get_def Let_def clear_event_def)
qed

text \<open>
  C30. The call for the pending events copies to the process the two words of its parameter vector that it never
  wrote: what the kernel stack held there.
\<close>

theorem ioctl_leaks_stack:
  assumes "calm e" "drv_inv d" "configured d i" and "\<And>k. k < 12 \<Longrightarrow> user (arg + of_nat k) \<noteq> None"
  shows "\<exists>user' d' bs. pnc_miscdev_ioctl e val stack i TZ_IOCTL_GET_PENDING_EVENTS arg user d = Some (0, user', d') \<and>
    copy_from_user arg 12 user' = (0, bs) \<and> io_sent (ioctl_params_of_bytes bs) = io_sent stack \<and>
    io_timeout (ioctl_params_of_bytes bs) = io_timeout stack"
proof -
  let ?p = "stack\<lparr>io_returned := s_event_pending (sess d i)\<rparr>"
  obtain user' where c: "copy_to_user arg (bytes_of_ioctl_params ?p) user = (0, user')"
    using copy_to_user_ok [of "bytes_of_ioctl_params ?p" user arg] assms(4) by auto
  then show ?thesis
    using check_calm [OF assms(1-3)] copy_from_to_user [OF c]
    by (simp add: pnc_miscdev_ioctl_def ioctl_codes pnc_session_get_pending_events_def ioctl_put_params_def Let_def)
qed

subsection \<open>Mappings\<close>

lemma insert_pages_list:
  "insert_pages ins n i pfn v = (r, v') \<Longrightarrow>
   \<exists>m \<le> n. vm_pages v' = vm_pages v @
       map (\<lambda>k. (vm_start v + (i + of_nat k) * of_nat PAGE_SIZE, pfn + of_nat k)) [0..<m] \<and> (r = 0 \<longrightarrow> m = n)"
proof (induction n arbitrary: i pfn v)
  case (Suc n)
  let ?a = "vm_start v + i * of_nat PAGE_SIZE"
  show ?case
  proof (cases "ins ?a pfn = 0")
    case True
    obtain m where m: "m \<le> n" "r = 0 \<longrightarrow> m = n"
      "vm_pages v' = (vm_pages v @ [(?a, pfn)]) @
        map (\<lambda>k. (vm_start v + (i + 1 + of_nat k) * of_nat PAGE_SIZE, pfn + 1 + of_nat k)) [0..<m]"
      using Suc True by (fastforce simp: Let_def)
    have "map (\<lambda>k. (vm_start v + (i + of_nat k) * of_nat PAGE_SIZE, pfn + of_nat k)) [0..<Suc m] =
        (?a, pfn) # map (\<lambda>k. (vm_start v + (i + 1 + of_nat k) * of_nat PAGE_SIZE, pfn + 1 + of_nat k)) [0..<m]"
      by (simp add: upt_conv_Cons map_Suc_upt [symmetric] algebra_simps del: upt_Suc)
    then show ?thesis using m by (intro exI [of _ "Suc m"]) simp
  next
    case False
    then show ?thesis using Suc.prems by (intro exI [of _ 0]) (auto simp: Let_def)
  qed
qed simp

text \<open>The bounds of the code, in 64 bits, are those of the pages.\<close>

lemma mapping_fits:
  fixes n :: u32 and off len :: u64
  assumes "\<not> ucast n \<le> off" "\<not> ucast n < off + drop_bit PAGE_SHIFT len"
  shows "unat off + unat (drop_bit PAGE_SHIFT len) \<le> unat n"
proof -
  have n: "unat (ucast n :: u64) = unat n" using unat_u32_less [of n]
    by (simp add: unsigned_ucast_eq take_bit_nat_eq_self)
  have nr: "unat (drop_bit PAGE_SHIFT len) \<le> 2 ^ 52"
    by (simp add: unat_drop_bit_eq drop_bit_eq_div PAGE_SHIFT_def unat_div) (use unsigned_less [of len, where ?'a = nat] in simp)
  have "unat off < unat n" "unat n < 2 ^ 32"
    using assms(1) n unsigned_less [of n, where ?'a = nat] by (simp_all add: word_le_nat_alt not_le)
  moreover from this have "unat (off + drop_bit PAGE_SHIFT len) = unat off + unat (drop_bit PAGE_SHIFT len)"
    using nr by (simp add: unat_word_ariths)
  ultimately show ?thesis using assms(2) n by (simp add: word_less_nat_alt not_less)
qed

text \<open>
  C28. A mapping shows the process only pages of the memory of its own session: each page inserted is a page of
  the block of the session, inside the shared area and outside the block of any other session; and when the call
  succeeds the whole range is mapped, page after page.
\<close>

theorem mmap_maps_own_pages:
  assumes "pnc_miscdev_mmap ins base (Some i) v d = Some (r, v')" and "vm_pages v = []"
    and "s_mem (sess d i) = Some p" and "live_blocks d p = Some (offset, n)" and "shm_wf d"
  shows "(\<forall>(a, pfn) \<in> set (vm_pages v'). \<exists>pg. pfn = base + of_nat pg \<and> pg \<in> range_pages (offset, n) \<and> pg \<in> shm_area d \<and>
      (\<forall>q r. live_blocks d q = Some r \<and> q \<noteq> p \<longrightarrow> pg \<notin> range_pages r)) \<and>
    (r = 0 \<longrightarrow> vm_pages v' =
       map (\<lambda>k. (vm_start v + of_nat (k * PAGE_SIZE), base + ucast offset + vm_pgoff v + of_nat k))
         [0..<unat (drop_bit PAGE_SHIFT (vm_end v - vm_start v))])"
proof -
  obtain ps where ps: "block_list (heap d) REE_RESERVED_PAGES (unat (shm_nr_pages d)) (blocks d) ps"
    "live_blocks d = allocated (heap d) ps"
    using assms(5) by (rule shm_wfE)
  then obtain blk where blk: "heap d p = Some blk" "blk_offset blk = offset" "blk_nr_pages blk = n"
    using assms(4) by (auto simp: allocated_def split: if_splits option.splits)
  let ?nr = "drop_bit PAGE_SHIFT (vm_end v - vm_start v)" and ?off = "vm_pgoff v"
  note iso = live_blocks_isolated [OF assms(5,4)]
  show ?thesis
  proof (cases "vm_flags v AND VM_SHARED = 0 \<or> ucast n \<le> ?off \<or> ucast n < ?off + ?nr")
    case True
    then have "r = - EINVAL" "vm_pages v' = []"
      using assms(1,2,3) blk by (auto simp: pnc_miscdev_mmap_def pnc_session_get_mem_offset_def Let_def split: if_splits)
    then show ?thesis by (simp add: errno)
  next
    case False
    have run: "insert_pages ins (unat ?nr) 0 (base + ucast offset + ?off) (v\<lparr>vm_flags := vm_flags v OR VM_RESERVED\<rparr>) = (r, v')"
      using assms(1,3) blk False by (simp add: pnc_miscdev_mmap_def pnc_session_get_mem_offset_def Let_def)
    obtain m where m: "m \<le> unat ?nr" "r = 0 \<longrightarrow> m = unat ?nr"
      "vm_pages v' = map (\<lambda>k. (vm_start v + of_nat k * of_nat PAGE_SIZE, base + ucast offset + ?off + of_nat k)) [0..<m]"
      using insert_pages_list [OF run] assms(2) by auto
    have fit: "unat ?off + unat ?nr \<le> unat n" using False by (intro mapping_fits) auto
    have pg: "\<exists>pg. base + ucast offset + ?off + of_nat k = base + of_nat pg \<and> pg \<in> range_pages (offset, n) \<and> pg \<in> shm_area d \<and>
        (\<forall>q r. live_blocks d q = Some r \<and> q \<noteq> p \<longrightarrow> pg \<notin> range_pages r)" if "k < m" for k
    proof (intro exI conjI)
      let ?pg = "unat offset + unat ?off + k"
      show "base + ucast offset + ?off + of_nat k = base + of_nat ?pg"
        by (simp add: add.assoc)
      show "?pg \<in> range_pages (offset, n)" using fit that m(1) by (simp add: range_pages_def)
      then show "?pg \<in> shm_area d" using iso(1,2) by (simp add: range_pages_def shm_area_def)
      show "\<forall>q r. live_blocks d q = Some r \<and> q \<noteq> p \<longrightarrow> ?pg \<notin> range_pages r"
        using iso(3) \<open>?pg \<in> range_pages (offset, n)\<close> by (fastforce simp: range_pages_def)
    qed
    show ?thesis
      using m pg by auto
  qed
qed


subsection \<open>The properties on a concrete process\<close>

text \<open>A process with 64 bytes at address \<open>0x8000\<close>.\<close>

definition process :: user_mem where
  "process = (\<lambda>a. if 0x8000 \<le> a \<and> a < 0x8040 then Some 0 else None)"

definition garbage :: pnc_ioctl_params where
  "garbage = \<lparr>io_sent = 0xdead, io_returned = 0xbeef, io_timeout = 0xf00d\<rparr>"

theorem ioctl_confined_witness:
  "\<exists>ret user' d'. pnc_miscdev_ioctl (quiet_drv_env :: drv drv_env) 0 garbage 0 TZ_IOCTL_GET_PENDING_EVENTS 0x8000
      process drv_example = Some (ret, user', d') \<and> user' 0x8010 = process 0x8010 \<and> drv_inv d'"
proof -
  let ?e = "quiet_drv_env :: drv drv_env"
  have "pnc_miscdev_ioctl ?e 0 garbage 0 TZ_IOCTL_GET_PENDING_EVENTS 0x8000 process drv_example \<noteq> None"
    using check_calm [OF quiet_drv_env_calm(1) drv_example_inv drv_example_sessions(1)]
    by (simp add: pnc_miscdev_ioctl_def ioctl_codes pnc_session_get_pending_events_def Let_def split: prod.splits)
  then obtain ret user' d' where r: "pnc_miscdev_ioctl ?e 0 garbage 0 TZ_IOCTL_GET_PENDING_EVENTS 0x8000 process drv_example =
      Some (ret, user', d')" by auto
  show ?thesis
    using ioctl_confined [OF r quiet_drv_env_calm(2) drv_example_inv, of "0x8010"] r by auto
qed

theorem ioctl_params_roundtrip_witness:
  "\<exists>user' bs. ioctl_put_params garbage (Some 5) 0x8000 process = (0, user') \<and>
    copy_from_user 0x8000 12 user' = (0, bs) \<and> ioctl_params_of_bytes bs = garbage\<lparr>io_returned := 5\<rparr>"
proof -
  have "\<exists>user'. ioctl_put_params garbage (Some 5) 0x8000 process = (0, user')"
    unfolding ioctl_put_params_def by (rule copy_to_user_ok) (auto simp: process_def word_le_nat_alt word_less_nat_alt
      unat_word_ariths unsigned_of_nat take_bit_nat_eq_self)
  then obtain user' where u: "ioctl_put_params garbage (Some 5) 0x8000 process = (0, user')" ..
  from ioctl_params_roundtrip [OF u] u show ?thesis by auto
qed

text \<open>Session 0 of this driver has a response.\<close>

definition drv_answered :: drv where
  "drv_answered = upd_sess 0 (\<lambda>s. s\<lparr>s_client := S_NOTIFIED, s_client_message := s_response\<rparr>) drv_example"

theorem ioctl_fault_loses_response_witness:
  "\<exists>d'. pnc_miscdev_ioctl (quiet_drv_env :: drv drv_env) 0 garbage 0 TZ_IOCTL_GET_RESP 0 process drv_answered =
      Some (4, process, d') \<and> s_client_message (sess d' 0) = zero_message"
proof -
  have i: "drv_inv drv_answered" unfolding drv_answered_def
    by (rule drv_inv_upd_sess [OF drv_example_inv]) (simp add: session_ok_def)
  have c: "configured drv_answered 0"
    using drv_example_sessions(1) configured_cong [of drv_answered drv_example 0] by (simp add: drv_answered_def)
  have "s_client (sess drv_answered 0) = S_NOTIFIED" "process 0 = None" by (simp_all add: drv_answered_def process_def)
  from ioctl_fault_loses_response [where user = process and arg = 0, OF quiet_drv_env_calm(1) i c this] show ?thesis by blast
qed

theorem ioctl_leaks_stack_witness:
  "\<exists>user' d' bs. pnc_miscdev_ioctl (quiet_drv_env :: drv drv_env) 0 garbage 0 TZ_IOCTL_GET_PENDING_EVENTS 0x8000
      process drv_example = Some (0, user', d') \<and> copy_from_user 0x8000 12 user' = (0, bs) \<and>
    io_sent (ioctl_params_of_bytes bs) = 0xdead"
proof -
  have "process (0x8000 + of_nat k) \<noteq> None" if "k < 12" for k
    using that by (auto simp: process_def word_le_nat_alt word_less_nat_alt unat_word_ariths unsigned_of_nat
        take_bit_nat_eq_self)
  from ioctl_leaks_stack [where user = process and arg = "0x8000" and stack = garbage and val = 0,
      OF quiet_drv_env_calm(1) drv_example_inv drv_example_sessions(1) this]
  moreover have "io_sent garbage = 0xdead" by (simp add: garbage_def)
  ultimately show ?thesis by metis
qed

lemma insert_pages_ok: "\<exists>v'. insert_pages (\<lambda>a pfn. 0) n i pfn v = (0, v')"
  by (induction n arbitrary: i pfn v) (simp_all add: Let_def)

theorem mmap_maps_own_pages_witness:
  "\<exists>v'. pnc_miscdev_mmap (\<lambda>a pfn. 0) 0x880000 (Some 0)
      \<lparr>vm_start = 0x10000, vm_end = 0x12000, vm_pgoff = 1, vm_flags = VM_SHARED, vm_pages = []\<rparr> drv_example =
      Some (0, v') \<and> vm_pages v' = [(0x10000, 0x880004), (0x11000, 0x880005)]"
proof -
  let ?v = "\<lparr>vm_start = 0x10000, vm_end = 0x12000, vm_pgoff = 1, vm_flags = VM_SHARED, vm_pages = []\<rparr>"
  have m: "s_mem (sess drv_example 0) = Some 1" by (simp add: example_session_def)
  have two: "drop_bit PAGE_SHIFT (0x2000 :: u64) = 2" by code_simp
  have "pnc_session_get_mem_offset (Some 0) drv_example = Some (0, Some (3, 4))"
    by (simp add: pnc_session_get_mem_offset_def example_session_def shm_example_def)
  then have "\<exists>v'. pnc_miscdev_mmap (\<lambda>a pfn. 0) 0x880000 (Some 0) ?v drv_example = Some (0, v')"
    by (simp add: pnc_miscdev_mmap_def two VM_SHARED_def insert_pages_ok word_le_nat_alt)
  then obtain v' where r: "pnc_miscdev_mmap (\<lambda>a pfn. 0) 0x880000 (Some 0) ?v drv_example = Some (0, v')" ..
  have "live_blocks drv_example 1 = Some (3, 4)" by (simp add: drv_example_shm)
  from mmap_maps_own_pages [OF r _ m this drv_example_shm(1)] r show ?thesis
    by (simp add: two PAGE_SIZE_def upt_rec)
qed

end
