(* ===== verification/PncModule.thy ===== *)
theory PncModule
  imports PncApi
begin

text \<open>
  Start and end of the module (\<open>drivers/provencore/ree/main.c\<close>): where the shared memory comes from, the order in
  which the parts are set up, and the labels through which a failure undoes them. The record has the globals of
  the file and the resources the module holds in the kernel; \<open>boot_env\<close> has the answers of the kernel functions it
  calls and the configuration. References to nodes of the device tree are not counted.
\<close>

record module_state = drv +
  pfn_base :: u64
  vbase :: u64
  nr_pages :: u64
  irq :: u32
  misc_registered :: bool
  kernel_pages :: "u64 set"
  vmaps :: "u64 set"
  irq_handlers :: "u32 set"
  sync_work :: bool

record 's boot_env = "'s drv_env" +
  dts_configuration :: bool
  misc_register :: int
  of_reserved_memory :: bool
  of_pnc_reserved :: bool
  of_address :: "(u64 \<times> u64) option"
  irq_of_parse :: u32
  pfn_valid :: "u64 \<Rightarrow> bool"
  order :: u32
  alloc_pages :: "u32 \<Rightarrow> u64 option"
  of_gic_compatible :: bool
  of_gic_name :: bool
  arm_gic_v3 :: bool
  irq_create_of_mapping :: "u32 list \<Rightarrow> u32"
  kmalloc_shmem :: bool
  vmap :: "u64 list \<Rightarrow> u64"
  request_irq :: "u32 \<Rightarrow> int"
  alloc_workqueue :: bool

subsection \<open>The reserved memory of the device tree\<close>

text \<open>The result of a search is its code and, on success, address, size and interrupt.\<close>

definition pnc_find_reserved_mem_bootargs :: "int \<times> (u64 \<times> u64 \<times> u32) option" where
  "pnc_find_reserved_mem_bootargs = (- ENOENT, None)"

definition pnc_find_reserved_mem_of ::
  "('s, 'b) boot_env_scheme \<Rightarrow> int \<times> (u64 \<times> u64 \<times> u32) option" where
  "pnc_find_reserved_mem_of e =
     (if \<not> of_reserved_memory e then (- ENOENT, None)
      else if \<not> of_pnc_reserved e then (- ENOENT, None)
      else case of_address e of None \<Rightarrow> (- ENOENT, None)
           | Some (start, sz) \<Rightarrow> (0, Some (start, sz, irq_of_parse e)))"

text \<open>The loop over the pages from \<open>p\<close> to \<open>pfn_last\<close>.\<close>

partial_function (option) valid_pages :: "(u64 \<Rightarrow> bool) \<Rightarrow> u64 \<Rightarrow> u64 \<Rightarrow> bool option" where
  "valid_pages valid p pfn_last =
     (if p \<le> pfn_last then if valid p then valid_pages valid (p + 1) pfn_last else Some False
      else Some True)"

text \<open>On success the first page, the number of pages and the interrupt.\<close>

definition pnc_find_reserved_mem ::
  "('s, 'b) boot_env_scheme \<Rightarrow> (int \<times> (u64 \<times> u64 \<times> u32) option) option" where
  "pnc_find_reserved_mem e =
     (let (ret, r) = pnc_find_reserved_mem_bootargs;
          (ret, r) = (if ret = 0 then (ret, r) else pnc_find_reserved_mem_of e)
      in case r of
           None \<Rightarrow> Some (- ENOENT, None)
         | Some (paddr, sz, local_irq) \<Rightarrow> do {
             let pfn_last = (paddr + sz - 1) div of_nat PAGE_SIZE;
             ok \<leftarrow> valid_pages (pfn_valid e) (paddr div of_nat PAGE_SIZE) pfn_last;
             Some (if \<not> ok then (- EINVAL, None)
                   else if local_irq = 0 then (- EINVAL, None)
                   else (0, Some (paddr div of_nat PAGE_SIZE, sz div of_nat PAGE_SIZE, local_irq)))
           })"

subsection \<open>The software interrupt\<close>

definition CONFIG_PROVENCORE_NON_SECURE_IRQ :: u32 where "CONFIG_PROVENCORE_NON_SECURE_IRQ = 14"
definition CONFIG_PROVENCORE_IRQ_DOMAIN_NUMBER :: u32 where "CONFIG_PROVENCORE_IRQ_DOMAIN_NUMBER = 2"
definition LINUX_MIN_SPI :: u32 where "LINUX_MIN_SPI = 32"
definition LINUX_MAX_SGI :: u32 where "LINUX_MAX_SGI = 16"
definition IRQ_TYPE_EDGE_RISING :: u32 where "IRQ_TYPE_EDGE_RISING = 1"
definition IRQ_TYPE_LEVEL_HIGH :: u32 where "IRQ_TYPE_LEVEL_HIGH = 4"

lemma irq_setup_valid:
  "CONFIG_PROVENCORE_IRQ_DOMAIN_NUMBER = 0 \<and> LINUX_MIN_SPI \<le> CONFIG_PROVENCORE_NON_SECURE_IRQ \<or>
   CONFIG_PROVENCORE_IRQ_DOMAIN_NUMBER = 2 \<and> CONFIG_PROVENCORE_NON_SECURE_IRQ \<le> LINUX_MAX_SGI"
  by (simp add: CONFIG_PROVENCORE_IRQ_DOMAIN_NUMBER_def CONFIG_PROVENCORE_NON_SECURE_IRQ_def LINUX_MAX_SGI_def)

text \<open>\<open>CONFIG_PROVENCORE_IRQ_TYPE_LEVEL_HIGH\<close> is not set.\<close>

definition pnc_create_sgi :: "('s, 'b) boot_env_scheme \<Rightarrow> u32 \<Rightarrow> u32" where
  "pnc_create_sgi e hwirq =
     (if \<not> of_gic_compatible e \<and> \<not> of_gic_name e then 0
      else irq_create_of_mapping e
        [CONFIG_PROVENCORE_IRQ_DOMAIN_NUMBER,
         hwirq - (if LINUX_MIN_SPI \<le> hwirq then LINUX_MIN_SPI else 0),
         if arm_gic_v3 e then IRQ_TYPE_EDGE_RISING else IRQ_TYPE_LEVEL_HIGH])"

subsection \<open>The labels of \<open>pnc_init\<close>\<close>

text \<open>The pages from \<open>_base\<close> on, as many as \<open>_nr_pages\<close>.\<close>

definition page_list :: "'a module_state_scheme \<Rightarrow> u64 list" where
  "page_list d = map (\<lambda>p. pfn_base d + of_nat p) [0..<unat (nr_pages d)]"

definition free_pages :: "'a module_state_scheme \<Rightarrow> 'a module_state_scheme" where
  "free_pages d = d\<lparr>kernel_pages := kernel_pages d - set (page_list d)\<rparr>"

text \<open>\<open>vunmap\<close> of \<open>NULL\<close> does nothing.\<close>

definition vunmap :: "'a module_state_scheme \<Rightarrow> 'a module_state_scheme" where
  "vunmap d = (if vbase d = 0 then d else d\<lparr>vmaps := vmaps d - {vbase d}\<rparr>)"

definition free_irq :: "'a module_state_scheme \<Rightarrow> 'a module_state_scheme" where
  "free_irq d = d\<lparr>irq_handlers := irq_handlers d - {irq d}\<rparr>"

definition err_0 :: "int \<Rightarrow> 'a module_state_scheme \<Rightarrow> (int \<times> 'a module_state_scheme) option" where
  "err_0 ret d = Some (ret, d\<lparr>misc_registered := False, pfn_base := 0\<rparr>)"

definition err_1 ::
  "('s, 'b) boot_env_scheme \<Rightarrow> int \<Rightarrow> 'a module_state_scheme \<Rightarrow> (int \<times> 'a module_state_scheme) option" where
  "err_1 e ret d = err_0 ret (if dts_configuration e then d else free_pages d)"

definition err_2 ::
  "('s, 'b) boot_env_scheme \<Rightarrow> int \<Rightarrow> 'a module_state_scheme \<Rightarrow> (int \<times> 'a module_state_scheme) option" where
  "err_2 e ret d = err_1 e ret (vunmap d)"

definition err_3 ::
  "('s, 'b) boot_env_scheme \<Rightarrow> int \<Rightarrow> 'a module_state_scheme \<Rightarrow> (int \<times> 'a module_state_scheme) option" where
  "err_3 e ret d = do { d \<leftarrow> pnc_shm_exit d; err_2 e ret d }"

definition err_4 ::
  "('s, 'b) boot_env_scheme \<Rightarrow> int \<Rightarrow> 'a module_state_scheme \<Rightarrow> (int \<times> 'a module_state_scheme) option" where
  "err_4 e ret d = err_3 e ret (free_irq d)"

subsection \<open>Start\<close>

text \<open>
  The memory and the interrupt, up to the point where the memory is mapped: \<open>Inl\<close> is the result of a start that
  has failed, \<open>Inr\<close> the state to go on with. \<open>1 << order\<close> is an \<open>int\<close>, extended to 64 bits with its sign.
\<close>

definition init_memory ::
  "('s, 'b) boot_env_scheme \<Rightarrow> 'a module_state_scheme
     \<Rightarrow> (int \<times> 'a module_state_scheme + 'a module_state_scheme) option" where
  "init_memory e d =
     (if dts_configuration e then do {
        (ret, r) \<leftarrow> pnc_find_reserved_mem e;
        (case r of
           None \<Rightarrow> map_option Inl (err_0 (- ENOMEM) d)
         | Some (pfn, n, i) \<Rightarrow>
             let d = d\<lparr>nr_pages := n, irq := i\<rparr>
             in if n < of_nat REE_RESERVED_PAGES then map_option Inl (err_0 (- EINVAL) d)
                else Some (Inr (d\<lparr>pfn_base := pfn\<rparr>)))
      } else if order e < 8 then map_option Inl (err_0 0 d)
      else case alloc_pages e (order e) of
        None \<Rightarrow> map_option Inl (err_0 (- ENOMEM) d)
      | Some pfn \<Rightarrow> do {
          let n = scast (push_bit (unat (order e)) 1 :: u32);
          let d = d\<lparr>kernel_pages := kernel_pages d \<union> (\<lambda>p. pfn + of_nat p) ` {..<2 ^ unat (order e)},
                    nr_pages := n\<rparr>;
          if n < of_nat REE_RESERVED_PAGES then map_option Inl (err_0 (- EINVAL) d)
          else do {
            let d = d\<lparr>pfn_base := pfn, irq := pnc_create_sgi e CONFIG_PROVENCORE_NON_SECURE_IRQ\<rparr>;
            if irq d = 0 then map_option Inl (err_3 e (- EINVAL) d) else Some (Inr d)
          }
        })"

text \<open>From \<open>pnc_shm_init\<close> on. \<open>stack\<close> is what the parameters of the monitor call hold before they are written.\<close>

definition init_services ::
  "(('a module_state_scheme), 'b) boot_env_scheme \<Rightarrow> pnc_smc_params \<Rightarrow> 'a module_state_scheme
     \<Rightarrow> (int \<times> 'a module_state_scheme) option" where
  "init_services e stack d =
     (let (ret, d) = pnc_shm_init e (vbase d) (push_bit PAGE_SHIFT (pfn_base d)) (ucast (nr_pages d)) d
      in if ret \<noteq> 0 then err_2 e ret d
      else do {
        (ret, d) \<leftarrow> pnc_sessions_init d;
        if ret \<noteq> 0 then err_3 e ret d
        else
          let ret = request_irq e (irq d)
          in if ret \<noteq> 0 then err_3 e ret d
          else do {
            let d = d\<lparr>irq_handlers := insert (irq d) (irq_handlers d)\<rparr>;
            let (ret, d) = pnc_smc_init (alloc_workqueue e) d;
            if ret \<noteq> 0 then err_4 e ret d
            else do {
              let d = d\<lparr>sync_work := True\<rparr>;
              d \<leftarrow> pnc_shm_forward e stack d;
              (_, d) \<leftarrow> pnc_sched_smc e (zero_params\<lparr>a0 := SMC_ACTION_FROM_NS\<rparr>) d;
              Some (0, d)
            }
          }
      })"

definition pnc_init ::
  "(('a module_state_scheme), 'b) boot_env_scheme \<Rightarrow> pnc_smc_params \<Rightarrow> 'a module_state_scheme
     \<Rightarrow> (int \<times> 'a module_state_scheme) option" where
  "pnc_init e stack d =
     (let ret = misc_register e
      in if ret \<noteq> 0 then Some (ret, d)
      else do {
        r \<leftarrow> init_memory e (d\<lparr>misc_registered := True\<rparr>);
        (case r of
           Inl result \<Rightarrow> Some result
         | Inr d \<Rightarrow>
             if \<not> kmalloc_shmem e then err_1 e 0 d
             else
               let d = d\<lparr>vbase := vmap e (page_list d)\<rparr>
               in if vbase d = 0 then err_1 e 0 d
               else init_services e stack (d\<lparr>vmaps := insert (vbase d) (vmaps d)\<rparr>))
      })"

subsection \<open>End\<close>

text \<open>\<open>flush_work\<close> waits for the work that waits for the secure world.\<close>

definition pnc_exit ::
  "(('a module_state_scheme), 'b) boot_env_scheme \<Rightarrow> pnc_smc_params \<Rightarrow> 'a module_state_scheme
     \<Rightarrow> 'a module_state_scheme option" where
  "pnc_exit e stack d =
     (if pfn_base d = 0 then Some d
      else do {
        d \<leftarrow> (if sync_work d then pnc_sessions_sync e d else Some d);
        let d = d\<lparr>sync_work := False\<rparr>;
        d \<leftarrow> pnc_sessions_exit e stack d;
        let d = pnc_smc_exit (free_irq d);
        d \<leftarrow> pnc_shm_exit d;
        let d = vunmap d;
        let d = (if dts_configuration e then d else (free_pages d)\<lparr>pfn_base := 0\<rparr>);
        Some (d\<lparr>misc_registered := False\<rparr>)
      })"

end
