(* ===== verification/PncModule_Props.thy ===== *)
theory PncModule_Props
  imports PncModule PncExamples
begin

text \<open>
  What the start and the end of the module guarantee: the start acquires everything or nothing, a search of the
  device tree always ends, and the end gives back what the start took.
\<close>

subsection \<open>What the module holds\<close>

definition holds_nothing :: "'a module_state_scheme \<Rightarrow> bool" where
  "holds_nothing d \<longleftrightarrow> \<not> misc_registered d \<and> pfn_base d = 0 \<and> kernel_pages d = {} \<and> vmaps d = {} \<and>
     irq_handlers d = {} \<and> blocks d = None \<and> heap d = Map.empty"

definition module_fresh :: "'a module_state_scheme \<Rightarrow> bool" where
  "module_fresh d \<longleftrightarrow> holds_nothing d \<and> vbase d = 0"

text \<open>The pages the module has taken from the kernel are the ones it knows.\<close>

definition pages_held :: "('s, 'b) boot_env_scheme \<Rightarrow> 'a module_state_scheme \<Rightarrow> bool" where
  "pages_held e d \<longleftrightarrow> kernel_pages d = (if dts_configuration e then {} else set (page_list d))"

definition module_up :: "('s, 'b) boot_env_scheme \<Rightarrow> 'a module_state_scheme \<Rightarrow> bool" where
  "module_up e d \<longleftrightarrow> misc_registered d \<and> pages_held e d \<and> vbase d \<noteq> 0 \<and> vmaps d = {vbase d} \<and>
     irq_handlers d = {irq d} \<and> sync_work d \<and> drv_inv d \<and> shm_wf d \<and> live_blocks d = Map.empty \<and>
     (\<forall>a. heap d a \<noteq> None \<longrightarrow> a \<in> set (the (addrs (heap d) (blocks d)))) \<and> (\<forall>i < REE_MAX_SESSIONS. s_free (sess d i))"

text \<open>
  What the kernel guarantees: orders above its limit fail (the limit is far below 31), and the reserved memory is
  smaller than 16 TB, so that its number of pages fits 32 bits.
\<close>

definition memory_ok :: "('s, 'b) boot_env_scheme \<Rightarrow> bool" where
  "memory_ok e \<longleftrightarrow> (\<forall>n pfn. alloc_pages e n = Some pfn \<longrightarrow> unat n < 31) \<and>
     (\<forall>start sz. of_address e = Some (start, sz) \<longrightarrow> sz < 2 ^ 44)"

subsection \<open>The search of the device tree\<close>

lemma valid_pages_total:
  assumes "pfn_last < 2 ^ 52"
  shows "valid_pages valid p pfn_last = Some (\<forall>q. p \<le> q \<and> q \<le> pfn_last \<longrightarrow> valid q)"
proof (induction "unat (pfn_last + 1) - unat p" arbitrary: p rule: less_induct)
  case less
  show ?case
  proof (cases "p \<le> pfn_last")
    case False
    then show ?thesis by (subst valid_pages.simps) auto
  next
    case True
    have "unat pfn_last < 2 ^ 52" using assms by (simp add: word_less_nat_alt)
    then have u: "unat (pfn_last + 1) = unat pfn_last + 1" "unat (p + 1) = unat p + 1" "unat p \<le> unat pfn_last"
      using True by (simp_all add: unat_word_ariths word_le_nat_alt)
    have "valid_pages valid (p + 1) pfn_last = Some (\<forall>q. p + 1 \<le> q \<and> q \<le> pfn_last \<longrightarrow> valid q)"
      by (rule less.hyps) (use u in linarith)
    moreover have "(\<forall>q. p \<le> q \<and> q \<le> pfn_last \<longrightarrow> valid q) \<longleftrightarrow>
        valid p \<and> (\<forall>q. p + 1 \<le> q \<and> q \<le> pfn_last \<longrightarrow> valid q)"
    proof -
      have "p \<le> q \<longleftrightarrow> q = p \<or> p + 1 \<le> q" for q
        using u by (auto simp: word_le_nat_alt word_unat_eq_iff)
      then show ?thesis using True by metis
    qed
    ultimately show ?thesis using True by (subst valid_pages.simps) simp
  qed
qed

lemma last_page_small: "(x :: u64) div of_nat PAGE_SIZE < 2 ^ 52"
  using unsigned_less [of x, where ?'a = nat] by (simp add: word_less_nat_alt unat_div proto_consts)

lemma find_reserved_mem_result:
  "pnc_find_reserved_mem e =
     Some (if of_reserved_memory e \<and> of_pnc_reserved e then
             (case of_address e of None \<Rightarrow> (- ENOENT, None)
              | Some (start, sz) \<Rightarrow>
                  if (\<forall>q. start div of_nat PAGE_SIZE \<le> q \<and> q \<le> (start + sz - 1) div of_nat PAGE_SIZE \<longrightarrow> pfn_valid e q) \<and>
                     irq_of_parse e \<noteq> 0
                  then (0, Some (start div of_nat PAGE_SIZE, sz div of_nat PAGE_SIZE, irq_of_parse e))
                  else (- EINVAL, None))
           else (- ENOENT, None))"
proof -
  have "valid_pages valid p (x div of_nat PAGE_SIZE) =
      Some (\<forall>q. p \<le> q \<and> q \<le> x div of_nat PAGE_SIZE \<longrightarrow> valid q)" for valid p x
    by (rule valid_pages_total) (rule last_page_small)
  then show ?thesis
    by (auto simp: pnc_find_reserved_mem_def pnc_find_reserved_mem_bootargs_def pnc_find_reserved_mem_of_def
        Let_def ENOENT_def split: option.splits)
qed

text \<open>
  The search for the reserved memory always ends. It succeeds only with memory whose pages are all known to the
  kernel and with an interrupt; in every other case it returns an error and nothing else.
\<close>

theorem find_reserved_mem_total:
  "\<exists>ret r. pnc_find_reserved_mem e = Some (ret, r) \<and>
    (case r of None \<Rightarrow> ret = - ENOENT \<or> ret = - EINVAL
     | Some (pfn, n, i) \<Rightarrow> ret = 0 \<and> i \<noteq> 0 \<and> (\<exists>start sz. of_address e = Some (start, sz) \<and>
         pfn = start div of_nat PAGE_SIZE \<and> n = sz div of_nat PAGE_SIZE \<and>
         (\<forall>q. pfn \<le> q \<and> q \<le> (start + sz - 1) div of_nat PAGE_SIZE \<longrightarrow> pfn_valid e q)))"
  by (auto simp: find_reserved_mem_result split: option.splits)

subsection \<open>The labels undo what was done\<close>

lemma page_list_simps [simp]:
  "page_list (d\<lparr>vmaps := a\<rparr>) = page_list d" "page_list (d\<lparr>irq_handlers := b\<rparr>) = page_list d"
  "page_list (d\<lparr>heap := h\<rparr>) = page_list d" "page_list (d\<lparr>blocks := l\<rparr>) = page_list d"
  "page_list (d\<lparr>vbase := v\<rparr>) = page_list d" "page_list (d\<lparr>misc_registered := r\<rparr>) = page_list d"
  "page_list (d\<lparr>kernel_pages := k\<rparr>) = page_list d" "page_list (d\<lparr>smc_wq := w\<rparr>) = page_list d"
  by (simp_all add: page_list_def)

lemma err_0_undo:
  assumes "kernel_pages d = {}" "vmaps d = {}" "irq_handlers d = {}" "blocks d = None" "heap d = Map.empty"
  shows "\<exists>d'. err_0 ret d = Some (ret, d') \<and> holds_nothing d'"
  using assms by (simp add: err_0_def holds_nothing_def)

lemma err_1_undo:
  assumes "pages_held e d" "vmaps d = {}" "irq_handlers d = {}" "blocks d = None" "heap d = Map.empty"
  shows "\<exists>d'. err_1 e ret d = Some (ret, d') \<and> holds_nothing d'"
  unfolding err_1_def
  by (rule err_0_undo) (use assms in \<open>simp_all add: pages_held_def free_pages_def\<close>)

lemma err_2_undo:
  assumes "pages_held e d" "vmaps d = (if vbase d = 0 then {} else {vbase d})" "irq_handlers d = {}"
    "blocks d = None" "heap d = Map.empty"
  shows "\<exists>d'. err_2 e ret d = Some (ret, d') \<and> holds_nothing d'"
  unfolding err_2_def
  by (rule err_1_undo) (use assms in \<open>simp_all add: pages_held_def vunmap_def\<close>)

lemma err_3_undo:
  assumes "pages_held e d" "vmaps d = (if vbase d = 0 then {} else {vbase d})" "irq_handlers d = {}"
    "free_loop (heap d) (blocks d) = Some Map.empty"
  shows "\<exists>d'. err_3 e ret d = Some (ret, d') \<and> holds_nothing d'"
  using err_2_undo [of e "d\<lparr>heap := Map.empty, blocks := None\<rparr>" ret] assms
  by (simp add: err_3_def pnc_shm_exit_def pages_held_def)

lemma err_4_undo:
  assumes "pages_held e d" "vmaps d = {vbase d}" "vbase d \<noteq> 0" "irq_handlers d = {irq d}"
    "free_loop (heap d) (blocks d) = Some Map.empty"
  shows "\<exists>d'. err_4 e ret d = Some (ret, d') \<and> holds_nothing d'"
  unfolding err_4_def
  by (rule err_3_undo) (use assms in \<open>simp_all add: pages_held_def free_irq_def\<close>)

subsection \<open>The memory of the module\<close>

text \<open>The state after \<open>init_memory\<close>: it has the pages and the interrupt, and nothing else has changed.\<close>

definition memory_taken ::
  "('s, 'b) boot_env_scheme \<Rightarrow> 'a module_state_scheme \<Rightarrow> 'a module_state_scheme \<Rightarrow> bool" where
  "memory_taken e d d' \<longleftrightarrow>
     d' = d\<lparr>pfn_base := pfn_base d', nr_pages := nr_pages d', irq := irq d', kernel_pages := kernel_pages d'\<rparr> \<and> pages_held e d' \<and>
     irq d' \<noteq> 0 \<and> REE_RESERVED_PAGES \<le> unat (ucast (nr_pages d') :: u32)"

lemma unat_order:
  assumes "k < 31"
  shows "unat (push_bit k 1 :: u64) = 2 ^ k"
proof -
  have "(2::nat) ^ k < 2 ^ LENGTH(64)"
    by (rule power_strict_increasing) (use assms in simp_all)
  moreover have "(2::u64) ^ k = of_nat (2 ^ k)" by simp
  ultimately have "unat ((2::u64) ^ k) = 2 ^ k" by (simp only: unat_of_nat mod_less)
  then show ?thesis by (simp add: push_bit_eq_mult)
qed

lemma order_int: "k < 31 \<Longrightarrow> scast ((2 :: u32) ^ k) = (2 ^ k :: u64)"
  unfolding push_bit_of_1 [symmetric]
  by (intro bit_word_eqI) (auto simp: bit_simps min_def)

lemma pages_power2:
  assumes "k < 31" and "nr_pages d = push_bit k 1"
  shows "set (page_list d) = (\<lambda>p. pfn_base d + of_nat p) ` {..<2 ^ k}"
  using unat_order [OF assms(1)] by (simp add: page_list_def assms(2) atLeast0LessThan)

definition memory_post ::
  "('s, 'b) boot_env_scheme \<Rightarrow> 'a module_state_scheme
     \<Rightarrow> int \<times> 'a module_state_scheme + 'a module_state_scheme \<Rightarrow> bool" where
  "memory_post e d r = (case r of Inl (ret, d') \<Rightarrow> holds_nothing d' | Inr d' \<Rightarrow> memory_taken e d d')"

lemma wlp_err_0:
  assumes "module_fresh (d\<lparr>misc_registered := False\<rparr>)"
  shows "\<exists>r. map_option Inl (err_0 ret (d\<lparr>nr_pages := n, irq := i\<rparr>)) = Some r \<and> memory_post e d r"
    "\<exists>r. map_option Inl (err_0 ret d) = Some r \<and> memory_post e d r"
  using assms by (simp_all add: err_0_def memory_post_def module_fresh_def holds_nothing_def)

lemma reserved_size:
  assumes "(sz :: u64) < 2 ^ 44" and "\<not> sz div of_nat PAGE_SIZE < of_nat REE_RESERVED_PAGES"
  shows "REE_RESERVED_PAGES \<le> unat (ucast (sz div of_nat PAGE_SIZE) :: u32)"
proof -
  have "unat (sz div 4096) < 2 ^ 32" using assms(1) by (simp add: word_less_nat_alt unat_div)
  then have "unat (ucast (sz div 4096) :: u32) = unat (sz div 4096)"
    by (simp add: unsigned_ucast_eq take_bit_nat_eq_self)
  then show ?thesis using assms(2) by (simp add: proto_consts word_less_nat_alt)
qed

lemma init_memory_dts:
  assumes "dts_configuration e" "memory_ok e" "module_fresh (d\<lparr>misc_registered := False\<rparr>)"
  shows "\<exists>r. init_memory e d = Some r \<and> memory_post e d r"
proof (cases "snd (the (pnc_find_reserved_mem e))")
  case None
  then show ?thesis
    using assms(1) wlp_err_0(2) [OF assms(3)] by (auto simp: init_memory_def find_reserved_mem_result split: if_splits option.splits)
next
  case (Some r)
  then obtain pfn sz i where r: "pnc_find_reserved_mem e = Some (0, Some (pfn, sz div of_nat PAGE_SIZE, i))" "sz < 2 ^ 44" "i \<noteq> 0"
    using assms(2) by (auto simp: find_reserved_mem_result memory_ok_def split: if_splits option.splits)
  show ?thesis
  proof (cases "sz div of_nat PAGE_SIZE < of_nat REE_RESERVED_PAGES")
    case True
    then show ?thesis using assms(1) r wlp_err_0(1) [OF assms(3)] by (simp add: init_memory_def)
  next
    case False
    let ?d = "d\<lparr>nr_pages := sz div of_nat PAGE_SIZE, irq := i, pfn_base := pfn\<rparr>"
    have "memory_taken e d ?d"
      using r(3) reserved_size [OF r(2) False] assms(1,3)
      by (simp add: memory_taken_def pages_held_def module_fresh_def holds_nothing_def)
    then show ?thesis using assms(1) r False by (simp add: init_memory_def memory_post_def)
  qed
qed

lemma init_memory_alloc:
  assumes "\<not> dts_configuration e" "memory_ok e" "module_fresh (d\<lparr>misc_registered := False\<rparr>)"
  shows "\<exists>r. init_memory e d = Some r \<and> memory_post e d r"
proof (cases "order e < 8 \<or> alloc_pages e (order e) = None")
  case True
  then show ?thesis using assms(1) wlp_err_0(2) [OF assms(3)] by (auto simp: init_memory_def split: option.splits)
next
  case False
  then obtain pfn where pfn: "alloc_pages e (order e) = Some pfn" "8 \<le> unat (order e)" "unat (order e) < 31"
    using assms(2) by (auto simp: memory_ok_def word_less_nat_alt)
  let ?k = "unat (order e)"
  let ?d = "d\<lparr>kernel_pages := kernel_pages d \<union> (\<lambda>p. pfn + of_nat p) ` {..<2 ^ ?k}, nr_pages := push_bit ?k 1,
    pfn_base := pfn, irq := pnc_create_sgi e CONFIG_PROVENCORE_NON_SECURE_IRQ\<rparr>"
  have pages: "set (page_list ?d) = (\<lambda>p. pfn + of_nat p) ` {..<2 ^ ?k}"
    using pages_power2 [OF pfn(3), of ?d] by simp
  then have held: "pages_held e ?d"
    using assms(1,3) by (simp add: pages_held_def module_fresh_def holds_nothing_def)
  have "(2::nat) ^ 8 \<le> 2 ^ ?k" by (rule power_increasing) (use pfn(2) in simp_all)
  moreover have "(ucast (push_bit ?k 1 :: u64) :: u32) = push_bit ?k 1"
    using pfn(3) by (intro bit_word_eqI) (auto simp: bit_simps)
  moreover have "unat (push_bit ?k 1 :: u32) = 2 ^ ?k"
    using unat_power2_u32 [of ?k] pfn(3) by (simp add: push_bit_eq_mult)
  ultimately have size: "REE_RESERVED_PAGES \<le> unat (ucast (push_bit ?k 1 :: u64) :: u32)"
    "\<not> push_bit ?k (1::u64) < of_nat REE_RESERVED_PAGES"
    using unat_order [OF pfn(3)] by (simp_all add: proto_consts word_less_nat_alt)
  then have run: "init_memory e d = (if irq ?d = 0 then map_option Inl (err_3 e (- EINVAL) ?d) else Some (Inr ?d))"
    using assms(1) False pfn(1) size(2) by (simp add: init_memory_def order_int [OF pfn(3)] Let_def)
  show ?thesis
  proof (cases "irq ?d = 0")
    case True
    have "\<exists>d'. err_3 e (- EINVAL) ?d = Some (- EINVAL, d') \<and> holds_nothing d'"
      by (rule err_3_undo) (use held assms(3) in \<open>simp_all add: module_fresh_def holds_nothing_def free_loop.simps\<close>)
    then show ?thesis using True by (auto simp: run memory_post_def)
  next
    case False
    have "memory_taken e d ?d" using held size(1) False by (simp add: memory_taken_def)
    then show ?thesis using False by (simp add: run memory_post_def)
  qed
qed

subsection \<open>The services\<close>

lemma free_loop_single: "free_loop [b \<mapsto> blk\<lparr>blk_next := None\<rparr>] (Some b) = Some Map.empty"
  by (subst free_loop.simps, simp, subst free_loop.simps, simp)

lemma pnc_shm_init_cases:
  assumes "pnc_shm_init e vb pb n d = (ret, d')" "heap d = Map.empty" "REE_RESERVED_PAGES \<le> unat n"
  obtains (fail) "ret = - ENOMEM" "d' = d\<lparr>shm_base := vb, shm_pbase := pb, shm_nr_pages := n, shm_sem := 1\<rparr>"
  | (ok) h b where "ret = 0" "shm_wf d'" "live_blocks d' = Map.empty" "addrs h (Some b) = Some [b]" "dom h = {b}"
      "free_loop h (Some b) = Some Map.empty"
      "d' = d\<lparr>shm_base := vb, shm_pbase := pb, shm_nr_pages := n, shm_sem := 1, heap := h, blocks := Some b\<rparr>"
proof (cases "kmalloc e (tick d) (\<lambda>a. heap d a \<noteq> None)")
  case None
  then show ?thesis using assms(1,2) fail by (simp add: pnc_shm_init_def Let_def)
next
  case (Some b)
  let ?blk = "\<lparr>blk_free = True, blk_offset = of_nat REE_RESERVED_PAGES,
    blk_nr_pages = n - of_nat REE_RESERVED_PAGES, blk_next = None\<rparr>"
  have d': "ret = 0" "d' = d\<lparr>shm_base := vb, shm_pbase := pb, shm_nr_pages := n, shm_sem := 1, heap := [b \<mapsto> ?blk], blocks := Some b\<rparr>"
    using assms(1,2) Some by (auto simp: pnc_shm_init_def Let_def)
  have "shm_wf d'" "live_blocks d' = Map.empty"
    using pnc_shm_init_wf [of e vb pb n d d'] assms(1,3) d'(1) by simp_all
  moreover have "free_loop [b \<mapsto> ?blk] (Some b) = Some Map.empty"
    using free_loop_single [of b ?blk] by simp
  moreover have "addrs [b \<mapsto> ?blk] (Some b) = Some [b]"
    by (subst addrs.simps, simp, subst addrs.simps, simp)
  ultimately show ?thesis by (intro ok [OF d'(1) _ _ _ _ _ d'(2)]) simp_all
qed

lemma pnc_sessions_init_result:
  assumes "shm_base d \<noteq> 0"
  shows "\<exists>S p c. pnc_sessions_init d = Some (0, d\<lparr>shm := S, ns_to_s_ring := p, s_to_ns_ring := c,
      sessions := map initial_session [0..<REE_MAX_SESSIONS], signal_session := 0\<rparr>) \<and>
    drv_inv (d\<lparr>shm := S, ns_to_s_ring := p, s_to_ns_ring := c,
      sessions := map initial_session [0..<REE_MAX_SESSIONS], signal_session := 0, smc_wq := True\<rparr>)"
proof -
  have "session_ok i (map initial_session [0..<REE_MAX_SESSIONS] ! i)" if "i < REE_MAX_SESSIONS" for i
    using that by (simp add: session_ok_def initial_session_def)
  then show ?thesis
    using assms ring_sizes
    by (simp add: pnc_sessions_init_def pnc_shm_init_header_def Let_def drv_inv_def producer_safe_def
        consumer_safe_def zero_shm_def)
      (intro exI conjI, rule refl, simp_all add: proto_consts)
qed

lemma module_simps [simp]:
  "drv_inv (d\<lparr>irq_handlers := x\<rparr>) = drv_inv d" "drv_inv (d\<lparr>sync_work := w\<rparr>) = drv_inv d"
  "drv_inv (d\<lparr>smc_log := l\<rparr>) = drv_inv d"
  by (simp_all add: drv_inv_def)

text \<open>The state once the services run, and the calls to the monitor that have announced them.\<close>

definition announced :: "pnc_smc_params \<Rightarrow> 'a drv_scheme \<Rightarrow> (nat \<times> pnc_smc_params) list" where
  "announced stack d =
     [(0, stack\<lparr>a0 := SMC_CONFIG_SHAREDMEM, a1 := ucast (shm_pbase d), a2 := ucast (drop_bit 32 (shm_pbase d)),
            a3 := shm_nr_pages d * of_nat PAGE_SIZE, a4 := LINUX_SHARED_MEM_TAG\<rparr>),
      (0, zero_params\<lparr>a0 := SMC_ACTION_FROM_NS\<rparr>)]"

definition services_ok ::
  "(('a module_state_scheme), 'b) boot_env_scheme \<Rightarrow> 'a module_state_scheme \<Rightarrow> bool" where
  "services_ok e d \<longleftrightarrow> kmalloc e (tick d) (\<lambda>a. False) \<noteq> None \<and> request_irq e (irq d) = 0 \<and> alloc_workqueue e"

definition mapped :: "(('a module_state_scheme), 'b) boot_env_scheme \<Rightarrow> 'a module_state_scheme \<Rightarrow> bool" where
  "mapped e d \<longleftrightarrow> misc_registered d \<and> pages_held e d \<and> vbase d \<noteq> 0 \<and> vmaps d = {vbase d} \<and> irq_handlers d = {} \<and>
     blocks d = None \<and> heap d = Map.empty \<and> REE_RESERVED_PAGES \<le> unat (ucast (nr_pages d) :: u32)"

lemma init_services_run:
  assumes "pnc_shm_init e (vbase d) (push_bit PAGE_SHIFT (pfn_base d)) (ucast (nr_pages d)) d = (0, d1)"
    and "pnc_sessions_init d1 = Some (0, d2)" "irq_handlers d2 = {}" "irq d2 = irq d"
  shows "init_services e stack d =
    (if request_irq e (irq d) \<noteq> 0 then err_3 e (request_irq e (irq d)) d2
     else if alloc_workqueue e then
       Some (0, d2\<lparr>irq_handlers := {irq d}, smc_wq := True, sync_work := True, smc_log := smc_log d2 @ announced stack d2\<rparr>)
     else err_4 e ENOMEM (d2\<lparr>irq_handlers := {irq d}, smc_wq := False\<rparr>))"
  using assms
  by (simp add: init_services_def pnc_smc_init_def pnc_shm_forward_def pnc_sched_smc_Some do_smc_def announced_def
      ENOMEM_def Let_def)

lemma init_services_after_shm:
  assumes "mapped e d"
    and "pnc_shm_init e (vbase d) (push_bit PAGE_SHIFT (pfn_base d)) (ucast (nr_pages d)) d = (r, d1)"
    and "r = 0" "shm_wf d1" "live_blocks d1 = Map.empty" "addrs h (Some b) = Some [b]" "dom h = {b}"
      "free_loop h (Some b) = Some Map.empty"
    and d1: "d1 = d\<lparr>shm_base := vbase d, shm_pbase := push_bit PAGE_SHIFT (pfn_base d),
      shm_nr_pages := ucast (nr_pages d), shm_sem := 1, heap := h, blocks := Some b\<rparr>"
  shows
  "\<exists>ret d'. init_services e stack d = Some (ret, d') \<and>
    (if services_ok e d then ret = 0 \<and> module_up e d' \<and> pfn_base d' = pfn_base d \<and> nr_pages d' = nr_pages d \<and>
        smc_log d' = smc_log d @ announced stack d' \<and> shm_pbase d' = push_bit PAGE_SHIFT (pfn_base d)
     else holds_nothing d')"
proof -
  have "shm_base d1 \<noteq> 0" using assms by (simp add: mapped_def)
  from pnc_sessions_init_result [OF this] obtain S p c where
    init: "pnc_sessions_init d1 = Some (0, d1\<lparr>shm := S, ns_to_s_ring := p, s_to_ns_ring := c,
      sessions := map initial_session [0..<REE_MAX_SESSIONS], signal_session := 0\<rparr>)"
    and inv: "drv_inv (d1\<lparr>shm := S, ns_to_s_ring := p, s_to_ns_ring := c,
      sessions := map initial_session [0..<REE_MAX_SESSIONS], signal_session := 0, smc_wq := True\<rparr>)" by blast
  let ?d2 = "d1\<lparr>shm := S, ns_to_s_ring := p, s_to_ns_ring := c,
    sessions := map initial_session [0..<REE_MAX_SESSIONS], signal_session := 0\<rparr>"
  have held: "pages_held e ?d2" "vmaps ?d2 = {vbase ?d2}" "vbase ?d2 \<noteq> 0" "irq_handlers ?d2 = {}"
    "free_loop (heap ?d2) (blocks ?d2) = Some Map.empty"
    using assms by (simp_all add: mapped_def pages_held_def page_list_def)
  have irq: "irq ?d2 = irq d" using assms by simp
  have start: "init_services e stack d =
      (if request_irq e (irq d) \<noteq> 0 then err_3 e (request_irq e (irq d)) ?d2
       else if alloc_workqueue e then
         Some (0, ?d2\<lparr>irq_handlers := {irq d}, smc_wq := True, sync_work := True,
           smc_log := smc_log d @ announced stack ?d2\<rparr>)
       else err_4 e ENOMEM (?d2\<lparr>irq_handlers := {irq d}, smc_wq := False\<rparr>))"
    using init_services_run [where e = e and stack = stack, OF _ init held(4) irq] assms(2,3,9) by simp
  have "kmalloc e (tick d) (\<lambda>a. False) \<noteq> None"
    using assms(3) assms by (auto simp: pnc_shm_init_def mapped_def ENOMEM_def Let_def split: option.splits)
  then consider (irq) "request_irq e (irq d) \<noteq> 0" "\<not> services_ok e d"
    | (wq) "request_irq e (irq d) = 0" "\<not> alloc_workqueue e" "\<not> services_ok e d"
    | (up) "request_irq e (irq d) = 0" "alloc_workqueue e" "services_ok e d"
    by (auto simp: services_ok_def)
  then show ?thesis
  proof cases
    case irq
    have "\<exists>d'. err_3 e (request_irq e (irq d)) ?d2 = Some (request_irq e (irq d), d') \<and> holds_nothing d'"
      by (rule err_3_undo) (use held in simp_all)
    then show ?thesis using irq start by auto
  next
    case wq
    have "\<exists>d'. err_4 e ENOMEM (?d2\<lparr>irq_handlers := {irq d}, smc_wq := False\<rparr>) = Some (ENOMEM, d') \<and> holds_nothing d'"
      by (rule err_4_undo) (use held irq in \<open>simp_all add: pages_held_def\<close>)
    then show ?thesis using wq start by auto
  next
    case up
    let ?d3 = "?d2\<lparr>irq_handlers := {irq d}, smc_wq := True, sync_work := True,
      smc_log := smc_log d @ announced stack ?d2\<rparr>"
    have "shm_wf ?d3" "live_blocks ?d3 = Map.empty" using assms(4,5) shm_cong(1,2) [of ?d3 d1] by simp_all
    moreover have "drv_inv ?d3" using inv by (simp add: drv_inv_def)
    moreover have "s_free (sess ?d3 i)" if "i < REE_MAX_SESSIONS" for i
      using that by (simp add: sess_def initial_session_def)
    ultimately have "module_up e ?d3"
      using held assms irq by (auto simp: module_up_def mapped_def pages_held_def page_list_def)
    then show ?thesis using up start assms(9) by (simp add: announced_def)
  qed
qed

lemma init_services_ok:
  assumes "mapped e d"
  shows "\<exists>ret d'. init_services e stack d = Some (ret, d') \<and>
    (if services_ok e d then ret = 0 \<and> module_up e d' \<and> pfn_base d' = pfn_base d \<and> nr_pages d' = nr_pages d \<and>
        smc_log d' = smc_log d @ announced stack d' \<and> shm_pbase d' = push_bit PAGE_SHIFT (pfn_base d)
     else holds_nothing d')"
proof -
  let ?shm = "pnc_shm_init e (vbase d) (push_bit PAGE_SHIFT (pfn_base d)) (ucast (nr_pages d)) d"
  obtain r d1 where shm: "?shm = (r, d1)" by (cases ?shm)
  have size: "REE_RESERVED_PAGES \<le> unat (ucast (nr_pages d) :: u32)" and empty: "heap d = Map.empty"
    using assms by (simp_all add: mapped_def)
  from shm empty size show ?thesis
  proof (cases rule: pnc_shm_init_cases)
    case fail
    have "\<exists>d'. err_2 e (- ENOMEM) d1 = Some (- ENOMEM, d') \<and> holds_nothing d'"
      by (rule err_2_undo) (use assms fail in \<open>simp_all add: mapped_def pages_held_def page_list_def\<close>)
    moreover have "\<not> services_ok e d"
      using shm fail(1) assms by (auto simp: services_ok_def pnc_shm_init_def mapped_def ENOMEM_def Let_def split: option.splits)
    ultimately show ?thesis using shm fail(1) by (auto simp: init_services_def ENOMEM_def)
  next
    case (ok h b)
    show ?thesis by (rule init_services_after_shm [OF assms shm ok])
  qed
qed

subsection \<open>The start of the module\<close>

lemma init_memory_result:
  assumes "memory_ok e" "module_fresh d"
  shows "\<exists>r. init_memory e (d\<lparr>misc_registered := True\<rparr>) = Some r \<and> memory_post e (d\<lparr>misc_registered := True\<rparr>) r"
proof -
  have "module_fresh (d\<lparr>misc_registered := True\<rparr>\<lparr>misc_registered := False\<rparr>)"
    using assms(2) by (simp add: module_fresh_def holds_nothing_def)
  then show ?thesis
    using init_memory_dts [OF _ assms(1)] init_memory_alloc [OF _ assms(1)] by (cases "dts_configuration e") blast+
qed

lemma memory_taken_fields:
  assumes "memory_taken e (d\<lparr>misc_registered := True\<rparr>) d1" "module_fresh d"
  shows "misc_registered d1" "pages_held e d1" "vmaps d1 = {}" "irq_handlers d1 = {}" "blocks d1 = None"
    "heap d1 = Map.empty" "REE_RESERVED_PAGES \<le> unat (ucast (nr_pages d1) :: u32)"
proof -
  obtain pfn n i k where "d1 = d\<lparr>misc_registered := True, pfn_base := pfn, nr_pages := n, irq := i, kernel_pages := k\<rparr>"
    using assms(1) unfolding memory_taken_def by metis
  then show "misc_registered d1" "vmaps d1 = {}" "irq_handlers d1 = {}" "blocks d1 = None" "heap d1 = Map.empty"
    using assms(2) by (simp_all add: module_fresh_def holds_nothing_def)
  show "pages_held e d1" "REE_RESERVED_PAGES \<le> unat (ucast (nr_pages d1) :: u32)"
    using assms(1) by (simp_all add: memory_taken_def)
qed

lemma mapped_after_vmap:
  assumes "memory_taken e (d\<lparr>misc_registered := True\<rparr>) d1" "module_fresh d" "v \<noteq> 0"
  shows "mapped e (d1\<lparr>vbase := v, vmaps := insert v (vmaps d1)\<rparr>)"
  using memory_taken_fields [OF assms(1,2)] assms(3) by (simp add: mapped_def pages_held_def)

lemma init_stops_without_memory:
  assumes "memory_taken e (d\<lparr>misc_registered := True\<rparr>) d1" "module_fresh d"
  shows "\<exists>d'. err_1 e ret d1 = Some (ret, d') \<and> holds_nothing d'"
    "\<exists>d'. err_1 e ret (d1\<lparr>vbase := v\<rparr>) = Some (ret, d') \<and> holds_nothing d'"
  by (rule err_1_undo; use memory_taken_fields [OF assms] in \<open>simp add: pages_held_def\<close>)+

text \<open>
  C32. The start of the module always ends, and is all or nothing: either it returns 0 with the framework ready to be
  used (device registered, memory mapped, allocator and session table well formed, all sessions free), or everything
  it had acquired has been given back.
\<close>

theorem init_all_or_nothing:
  assumes "memory_ok e" "module_fresh d"
  shows "\<exists>ret d'. pnc_init e stack d = Some (ret, d') \<and> (holds_nothing d' \<or> ret = 0 \<and> module_up e d')"
proof (cases "misc_register e = 0")
  case False
  then show ?thesis using assms(2) by (simp add: pnc_init_def module_fresh_def)
next
  case misc: True
  obtain r where r: "init_memory e (d\<lparr>misc_registered := True\<rparr>) = Some r"
    "memory_post e (d\<lparr>misc_registered := True\<rparr>) r"
    using init_memory_result [OF assms] by blast
  show ?thesis
  proof (cases r)
    case (Inl x)
    then show ?thesis using misc r by (cases x) (simp add: pnc_init_def memory_post_def)
  next
    case (Inr d1)
    then have taken: "memory_taken e (d\<lparr>misc_registered := True\<rparr>) d1" using r(2) by (simp add: memory_post_def)
    let ?v = "vmap e (page_list d1)"
    show ?thesis
    proof (cases "kmalloc_shmem e \<and> ?v \<noteq> 0")
      case False
      then show ?thesis
        using misc r(1) Inr init_stops_without_memory(1) [OF taken assms(2), of 0] init_stops_without_memory(2) [OF taken assms(2), of 0 0]
        by (auto simp: pnc_init_def Let_def)
    next
      case True
      from mapped_after_vmap [OF taken assms(2), of ?v] True
      have "mapped e (d1\<lparr>vbase := ?v, vmaps := insert ?v (vmaps d1)\<rparr>)" by simp
      from init_services_ok [OF this, of stack] show ?thesis
        using misc r(1) Inr True by (auto simp: pnc_init_def Let_def split: if_splits)
    qed
  qed
qed

text \<open>
  When every kernel service is available the start succeeds, and the monitor is told in this order, from CPU 0:
  the geometry of exactly the memory that was taken, then that there is something to do.
\<close>

theorem init_announces_memory:
  assumes "module_fresh d" "memory_ok e" "misc_register e = 0"
    and "init_memory e (d\<lparr>misc_registered := True\<rparr>) = Some (Inr d1)"
    and "kmalloc_shmem e" "vmap e (page_list d1) \<noteq> 0" "services_ok e d1"
  shows "\<exists>d' p q. pnc_init e stack d = Some (0, d') \<and> module_up e d' \<and> smc_log d' = smc_log d1 @ [(0, p), (0, q)] \<and>
    a0 p = SMC_CONFIG_SHAREDMEM \<and> push_bit 32 (ucast (a2 p)) OR ucast (a1 p) = push_bit PAGE_SHIFT (pfn_base d') \<and>
    a0 q = SMC_ACTION_FROM_NS"
proof -
  have taken: "memory_taken e (d\<lparr>misc_registered := True\<rparr>) d1"
    using init_memory_result [OF assms(2,1)] assms(4) by (auto simp: memory_post_def)
  let ?d = "d1\<lparr>vbase := vmap e (page_list d1), vmaps := insert (vmap e (page_list d1)) (vmaps d1)\<rparr>"
  from mapped_after_vmap [OF taken assms(1), of "vmap e (page_list d1)"] assms(6) have "mapped e ?d" by simp
  moreover have "services_ok e ?d" using assms(7) by (simp add: services_ok_def)
  ultimately obtain d' where d': "init_services e stack ?d = Some (0, d')" "module_up e d'" "pfn_base d' = pfn_base d1"
    "smc_log d' = smc_log d1 @ announced stack d'" "shm_pbase d' = push_bit PAGE_SHIFT (pfn_base d1)"
    using init_services_ok [of e ?d stack] by auto
  have split: "push_bit 32 (ucast (ucast (drop_bit 32 x) :: u32)) OR ucast (ucast x :: u32) = (x :: u64)" for x
    by (rule bit_word_eqI) (auto simp: bit_simps)
  show ?thesis
    using assms(3-6) d' split [of "shm_pbase d'"]
    by (intro exI [of _ d'] exI [of _ "snd (hd (announced stack d'))"] exI [of _ "snd (announced stack d' ! 1)"])
      (simp add: pnc_init_def announced_def Let_def zero_params_def)
qed

text \<open>
  C40. A start that fails before the memory is mapped reports success: with an order that is too small, without memory
  for the page table, or when the mapping fails, the module is loaded although it has given everything back.
\<close>

theorem init_hides_failure:
  assumes "module_fresh d" "memory_ok e" "misc_register e = 0"
    and "\<not> dts_configuration e \<and> order e < 8 \<or>
      (\<exists>d1. init_memory e (d\<lparr>misc_registered := True\<rparr>) = Some (Inr d1) \<and>
        (\<not> kmalloc_shmem e \<or> vmap e (page_list d1) = 0))"
  shows "\<exists>d'. pnc_init e stack d = Some (0, d') \<and> holds_nothing d'"
  using assms(4)
proof
  assume "\<not> dts_configuration e \<and> order e < 8"
  then show ?thesis
    using assms(1,3) by (simp add: pnc_init_def init_memory_def err_0_def module_fresh_def holds_nothing_def)
next
  assume "\<exists>d1. init_memory e (d\<lparr>misc_registered := True\<rparr>) = Some (Inr d1) \<and>
    (\<not> kmalloc_shmem e \<or> vmap e (page_list d1) = 0)"
  then obtain d1 where d1: "init_memory e (d\<lparr>misc_registered := True\<rparr>) = Some (Inr d1)"
    "\<not> kmalloc_shmem e \<or> vmap e (page_list d1) = 0" by blast
  then have taken: "memory_taken e (d\<lparr>misc_registered := True\<rparr>) d1"
    using init_memory_result [OF assms(2,1)] by (auto simp: memory_post_def)
  show ?thesis
    using d1 assms(3) init_stops_without_memory [OF taken assms(1)] by (auto simp: pnc_init_def Let_def)
qed

subsection \<open>The end of the module\<close>

lemma close_sessions_free:
  "(\<And>j. j < REE_MAX_SESSIONS \<Longrightarrow> s_free (sess d j)) \<Longrightarrow> close_sessions e i d = Some d"
proof (induction "REE_MAX_SESSIONS - i" arbitrary: i)
  case 0
  then show ?case by (subst close_sessions.simps) simp
next
  case (Suc n)
  then have "close_sessions e (Suc i) d = Some d" "i < REE_MAX_SESSIONS" by simp_all
  then show ?case using Suc.prems by (subst close_sessions.simps) simp
qed

lemma free_loop_up: "module_up e d \<Longrightarrow> free_loop (heap d) (blocks d) = Some Map.empty"
proof -
  assume up: "module_up e d"
  then obtain ps where ps: "addrs (heap d) (blocks d) = Some ps"
    "block_list (heap d) REE_RESERVED_PAGES (unat (shm_nr_pages d)) (blocks d) ps"
    by (auto simp: module_up_def shm_wf_def split: option.splits)
  have "(if a \<in> set ps then None else heap d a) = None" for a
    using up ps(1) by (auto simp: module_up_def)
  then show ?thesis using free_loop_ok [OF ps(2)] by simp
qed

text \<open>
  C36. The end of the module gives back all that the start took: once the secure world has answered and all sessions
  are closed, it returns, with the pages, the mapping, the interrupt, the queue, the blocks and the device released,
  and with the secure world told of the reset through a header that is no longer valid.
\<close>

theorem exit_releases:
  assumes "module_up e d" "pfn_base d \<noteq> 0" "session_ready d" "\<not> work_pending d"
  shows "\<exists>d'. pnc_exit e stack d = Some d' \<and> kernel_pages d' = {} \<and> vmaps d' = {} \<and> irq_handlers d' = {} \<and>
    heap d' = Map.empty \<and> blocks d' = None \<and> \<not> misc_registered d' \<and> \<not> smc_wq d' \<and>
    (\<not> dts_configuration e \<longrightarrow> pfn_base d' = 0) \<and> \<not> session_ready d' \<and> \<not> pnc_shm_ready d' \<and>
    notif_ns_to_s (shm d') AND E_RESET \<noteq> 0"
proof -
  let ?d1 = "d\<lparr>sync_work := False\<rparr>"
  have up: "smc_wq d" "shm_base d \<noteq> 0" "sync_work d" "vbase d \<noteq> 0" "vmaps d = {vbase d}" "irq_handlers d = {irq d}"
    "pages_held e d"
    using assms(1) by (simp_all add: module_up_def drv_inv_def)
  have "close_sessions e 0 ?d1 = Some ?d1"
    by (rule close_sessions_free) (use assms(1) in \<open>simp add: module_up_def sess_def\<close>)
  moreover have "(x OR E_RESET) AND E_RESET \<noteq> 0" for x
  proof -
    have "(x OR E_RESET) AND E_RESET = E_RESET" by (rule bit_word_eqI) (auto simp: bit_simps)
    then show ?thesis by (simp add: E_RESET_def BIT_def push_bit_eq_mult)
  qed
  ultimately show ?thesis
    using assms(2-4) up free_loop_up [OF assms(1)]
    by (auto simp: pnc_exit_def pnc_sessions_sync_def wait_event_def pnc_sessions_exit_def invalidate_sessions_def
        pnc_shm_init_header_def raise_notification_Some pnc_smc_exit_def pnc_shm_exit_def vunmap_def free_irq_def
        free_pages_def pages_held_def page_list_def pnc_shm_ready_def REE_MAGIC_1_def REE_MAGIC_2_def Let_def simp del: close_sessions.simps)
qed

text \<open>
  While the secure world has not answered, the module cannot be removed: the end waits for the work that waits
  for the secure world.
\<close>

theorem exit_waits_for_secure_world:
  assumes "pfn_base d \<noteq> 0" "sync_work d" "\<not> session_ready d"
    and "\<not> session_ready (others e (tick d) d)"
  shows "pnc_exit e stack d = None"
  using assms by (simp add: pnc_exit_def pnc_sessions_sync_def wait_event_def yield_def Let_def)

subsection \<open>A concrete start\<close>

definition boot_example :: "module_state boot_env" where
  "boot_example = drv_env.extend quiet_drv_env
     \<lparr>dts_configuration = False, misc_register = 0, of_reserved_memory = True, of_pnc_reserved = True,
      of_address = Some (0x80000000, 0x200000), irq_of_parse = 46, pfn_valid = (\<lambda>p. True), order = 9,
      alloc_pages = (\<lambda>n. if n < 11 then Some 0x40000 else None), of_gic_compatible = True, of_gic_name = True,
      arm_gic_v3 = True, irq_create_of_mapping = (\<lambda>args. 7), kmalloc_shmem = True,
      vmap = (\<lambda>pages. 0xffff0000), request_irq = (\<lambda>i. 0), alloc_workqueue = True\<rparr>"

definition module_example :: module_state where
  "module_example = drv.extend drv_example
     \<lparr>pfn_base = 0, vbase = 0, nr_pages = 0, irq = 0, misc_registered = False, kernel_pages = {}, vmaps = {},
      irq_handlers = {}, sync_work = False\<rparr>
     \<lparr>heap := Map.empty, blocks := None, session_ready := False, smc_log := []\<rparr>"

lemma boot_example_simps [simp]:
  "\<not> dts_configuration boot_example" "misc_register boot_example = 0" "order boot_example = 9"
  "alloc_pages boot_example n = (if n < 11 then Some 0x40000 else None)"
  "kmalloc_shmem boot_example" "vmap boot_example ps = 0xffff0000" "request_irq boot_example i = 0"
  "alloc_workqueue boot_example" "pnc_create_sgi boot_example i = 7"
  "of_address boot_example = Some (0x80000000, 0x200000)"
  "kmalloc boot_example k used = find (\<lambda>a. \<not> used a) [0..<64]" "others boot_example k d = d"
  by (simp_all add: boot_example_def drv_env.defs quiet_drv_env_def quiet_smc_env_def quiet_env_def smc_env.defs
      env.defs pnc_create_sgi_def)

lemma example_memory [simp]: "memory_ok boot_example" "module_fresh module_example"
  by (auto simp: memory_ok_def word_less_nat_alt module_fresh_def holds_nothing_def module_example_def drv.defs
      split: if_splits)

lemma boot_example_memory:
  "\<exists>d1. init_memory boot_example (module_example\<lparr>misc_registered := True\<rparr>) = Some (Inr d1) \<and>
    pfn_base d1 = 0x40000 \<and> smc_log d1 = []"
  by (simp add: init_memory_def push_bit_eq_mult proto_consts module_example_def drv.defs)

theorem find_reserved_mem_total_witness:
  "\<exists>ret r. pnc_find_reserved_mem boot_example = Some (ret, r) \<and>
    (case r of None \<Rightarrow> ret \<in> {- ENOENT, - EINVAL} | Some (pfn, n, i) \<Rightarrow> pfn = 0x80000 \<and> n = 0x200)"
proof -
  obtain ret r where "pnc_find_reserved_mem boot_example = Some (ret, r)"
    "case r of None \<Rightarrow> ret = - ENOENT \<or> ret = - EINVAL
     | Some (pfn, n, i) \<Rightarrow> ret = 0 \<and> i \<noteq> 0 \<and> (\<exists>start sz. of_address boot_example = Some (start, sz) \<and>
         pfn = start div of_nat PAGE_SIZE \<and> n = sz div of_nat PAGE_SIZE \<and>
         (\<forall>q. pfn \<le> q \<and> q \<le> (start + sz - 1) div of_nat PAGE_SIZE \<longrightarrow> pfn_valid boot_example q))"
    using find_reserved_mem_total [of boot_example] by blast
  then show ?thesis by (intro exI [of _ ret] exI [of _ r]) (auto simp: PAGE_SIZE_def split: option.splits)
qed

theorem init_all_or_nothing_witness:
  "\<exists>ret d'. pnc_init boot_example zero_params module_example = Some (ret, d') \<and>
    (holds_nothing d' \<or> ret = 0 \<and> module_up boot_example d')"
  by (rule init_all_or_nothing [OF example_memory])

theorem init_announces_memory_witness:
  "\<exists>d' p q. pnc_init boot_example zero_params module_example = Some (0, d') \<and> module_up boot_example d' \<and>
    smc_log d' = [(0, p), (0, q)] \<and> a0 p = SMC_CONFIG_SHAREDMEM \<and> a0 q = SMC_ACTION_FROM_NS"
proof -
  obtain d1 where d1: "init_memory boot_example (module_example\<lparr>misc_registered := True\<rparr>) = Some (Inr d1)"
    "smc_log d1 = []" using boot_example_memory by blast
  have "services_ok boot_example d1" by (simp add: services_ok_def find_Some_iff upt_rec)
  from init_announces_memory [OF example_memory(2,1) _ d1(1) _ _ this, of zero_params] d1(2)
  show ?thesis by auto
qed

theorem init_hides_failure_witness:
  "\<exists>d'. pnc_init (boot_example\<lparr>order := 3\<rparr>) zero_params module_example = Some (0, d') \<and> holds_nothing d'"
  by (rule init_hides_failure) (use example_memory in \<open>simp_all add: memory_ok_def\<close>)

lemma example_started:
  "\<exists>d. module_up boot_example d \<and> pfn_base d = 0x40000 \<and> pnc_init boot_example zero_params module_example = Some (0, d)"
proof -
  obtain d1 where d1: "init_memory boot_example (module_example\<lparr>misc_registered := True\<rparr>) = Some (Inr d1)"
    "pfn_base d1 = 0x40000" using boot_example_memory by blast
  then have taken: "memory_taken boot_example (module_example\<lparr>misc_registered := True\<rparr>) d1"
    using init_memory_result [OF example_memory] by (auto simp: memory_post_def)
  let ?d = "d1\<lparr>vbase := 0xffff0000, vmaps := insert 0xffff0000 (vmaps d1)\<rparr>"
  have "mapped boot_example ?d" by (rule mapped_after_vmap [OF taken example_memory(2)]) simp
  moreover have "services_ok boot_example ?d" by (simp add: services_ok_def find_Some_iff upt_rec)
  ultimately show ?thesis
    using init_services_ok [of boot_example ?d zero_params] d1 by (auto simp: pnc_init_def Let_def)
qed

theorem exit_releases_witness:
  "\<exists>d d'. pnc_init boot_example zero_params module_example = Some (0, d) \<and>
    pnc_exit boot_example zero_params (d\<lparr>session_ready := True, work_pending := False\<rparr>) = Some d' \<and>
    heap d' = Map.empty \<and> kernel_pages d' = {}"
proof -
  obtain d where d: "module_up boot_example d" "pfn_base d = 0x40000" "pnc_init boot_example zero_params module_example = Some (0, d)"
    using example_started by blast
  let ?d = "d\<lparr>session_ready := True, work_pending := False\<rparr>"
  have "module_up boot_example ?d"
    using d(1) shm_cong(1,2) [of ?d d] by (simp add: module_up_def drv_inv_def pages_held_def page_list_def sess_def)
  from exit_releases [OF this, of zero_params] d show ?thesis by auto
qed

theorem exit_waits_for_secure_world_witness:
  "pnc_exit boot_example zero_params (module_example\<lparr>pfn_base := 0x40000, sync_work := True\<rparr>) = None"
  by (rule exit_waits_for_secure_world) (simp_all add: module_example_def drv.defs)

end
