(* ===== verification/PncShdevMem.thy ===== *)
theory PncShdevMem
  imports PncExamples
begin

text \<open>
  The shared memory of the device monitor (\<open>drivers/provencore/shdev/shdev.h\<close>): the structures of the header with
  their layout in memory (64-bit ARM, little endian), read from and written to the bytes of the shared area. A kernel
  address is a byte of \<open>memory\<close> at its distance from the base of the area.
\<close>

subsection \<open>Integers in memory\<close>

fun le_bytes :: "nat \<Rightarrow> u64 \<Rightarrow> u8 list" where
  "le_bytes 0 x = []"
| "le_bytes (Suc n) x = ucast x # le_bytes n (drop_bit 8 x)"

fun le_value :: "u8 list \<Rightarrow> u64" where
  "le_value [] = 0"
| "le_value (b # bs) = ucast b OR push_bit 8 (le_value bs)"

lemma length_le_bytes [simp]: "length (le_bytes n x) = n"
  by (induction n arbitrary: x) simp_all

lemma le_value_bytes: "n \<le> 8 \<Longrightarrow> le_value (le_bytes n x) = take_bit (8 * n) x"
proof (induction n arbitrary: x)
  case (Suc n)
  have "ucast (ucast x :: u8) OR push_bit 8 (take_bit (8 * n) (drop_bit 8 x)) = take_bit (8 * Suc n) x"
    by (rule bit_word_eqI) (auto simp: bit_simps)
  then show ?case using Suc by simp
qed simp

definition mem_index :: "u64 \<Rightarrow> 'a drv_scheme \<Rightarrow> nat" where
  "mem_index a d = unat (a - shm_base d)"

definition load :: "nat \<Rightarrow> u64 \<Rightarrow> 'a drv_scheme \<Rightarrow> u8 list" where
  "load n a d = map (\<lambda>k. memory d (mem_index a d + k)) [0..<n]"

definition store :: "u64 \<Rightarrow> u8 list \<Rightarrow> 'a drv_scheme \<Rightarrow> 'a drv_scheme" where
  "store a bs d = d\<lparr>memory := write_bytes (mem_index a d) bs (memory d)\<rparr>"

definition load_u16 :: "u64 \<Rightarrow> 'a drv_scheme \<Rightarrow> u16" where "load_u16 a d = ucast (le_value (load 2 a d))"
definition load_u32 :: "u64 \<Rightarrow> 'a drv_scheme \<Rightarrow> u32" where "load_u32 a d = ucast (le_value (load 4 a d))"
definition load_u64 :: "u64 \<Rightarrow> 'a drv_scheme \<Rightarrow> u64" where "load_u64 a d = le_value (load 8 a d)"

definition store_u16 :: "u64 \<Rightarrow> u16 \<Rightarrow> 'a drv_scheme \<Rightarrow> 'a drv_scheme" where
  "store_u16 a x d = store a (le_bytes 2 (ucast x)) d"
definition store_u32 :: "u64 \<Rightarrow> u32 \<Rightarrow> 'a drv_scheme \<Rightarrow> 'a drv_scheme" where
  "store_u32 a x d = store a (le_bytes 4 (ucast x)) d"
definition store_u64 :: "u64 \<Rightarrow> u64 \<Rightarrow> 'a drv_scheme \<Rightarrow> 'a drv_scheme" where
  "store_u64 a x d = store a (le_bytes 8 x) d"

lemmas mem_ints = load_u16_def load_u32_def load_u64_def store_u16_def store_u32_def store_u64_def

text \<open>
  An address that the code computes from an offset in the shared memory may point anywhere. The accesses through such an
  address are checked: where one of the bytes is outside the area, the access is not valid and the result is \<open>None\<close>.
\<close>

definition in_area :: "u64 \<Rightarrow> nat \<Rightarrow> 'a drv_scheme \<Rightarrow> bool" where
  "in_area a n d \<longleftrightarrow> n = 0 \<or> mem_index a d + n \<le> unat (shm_nr_pages d) * PAGE_SIZE"

definition get_bytes :: "nat \<Rightarrow> u64 \<Rightarrow> 'a drv_scheme \<Rightarrow> u8 list option" where
  "get_bytes n a d = (if in_area a n d then Some (load n a d) else None)"
definition get_u32 :: "u64 \<Rightarrow> 'a drv_scheme \<Rightarrow> u32 option" where
  "get_u32 a d = (if in_area a 4 d then Some (load_u32 a d) else None)"
definition get_u64 :: "u64 \<Rightarrow> 'a drv_scheme \<Rightarrow> u64 option" where
  "get_u64 a d = (if in_area a 8 d then Some (load_u64 a d) else None)"
definition put_bytes :: "u64 \<Rightarrow> u8 list \<Rightarrow> 'a drv_scheme \<Rightarrow> 'a drv_scheme option" where
  "put_bytes a bs d = (if in_area a (length bs) d then Some (store a bs d) else None)"
definition put_u64 :: "u64 \<Rightarrow> u64 \<Rightarrow> 'a drv_scheme \<Rightarrow> 'a drv_scheme option" where
  "put_u64 a x d = (if in_area a 8 d then Some (store_u64 a x d) else None)"

lemmas checked_access = get_bytes_def get_u32_def get_u64_def put_bytes_def put_u64_def

text \<open>Only bytes of the given range change, and nothing but the memory.\<close>

definition stores_within :: "u64 \<Rightarrow> nat \<Rightarrow> 'a drv_scheme \<Rightarrow> 'a drv_scheme \<Rightarrow> bool" where
  "stores_within a n d d' \<longleftrightarrow> d' = d\<lparr>memory := memory d'\<rparr> \<and>
     (\<forall>k. k < mem_index a d \<or> mem_index a d + n \<le> k \<longrightarrow> memory d' k = memory d k)"

lemma mem_index_simps [simp]:
  "mem_index a (store b bs d) = mem_index a d" "mem_index a (d\<lparr>memory := m\<rparr>) = mem_index a d"
  "shm_base (store b bs d) = shm_base d" "shm_nr_pages (store b bs d) = shm_nr_pages d"
  "in_area a n (store b bs d) = in_area a n d"
  by (simp_all add: mem_index_def store_def in_area_def)

lemma store_within: "length bs \<le> n \<Longrightarrow> stores_within a n d (store a bs d)"
  by (simp add: stores_within_def store_def write_bytes_outside)

lemma stores_within_refl: "stores_within a n d d"
  by (simp add: stores_within_def)

lemma stores_within_trans: "stores_within a n d d' \<Longrightarrow> stores_within a n d' d'' \<Longrightarrow> stores_within a n d d''"
proof -
  assume a: "stores_within a n d d'" "stores_within a n d' d''"
  then obtain m m' where m: "d' = d\<lparr>memory := m\<rparr>" "d'' = d'\<lparr>memory := m'\<rparr>"
    unfolding stores_within_def by metis
  from a show ?thesis unfolding stores_within_def by (simp add: m)
qed

lemma load_store_same: "load (length bs) a (store a bs d) = bs"
  by (rule nth_equalityI) (simp_all add: load_def store_def write_bytes_inside mem_index_def)

lemma load_store_other:
  assumes "mem_index a d + n \<le> mem_index b d \<or> mem_index b d + length bs \<le> mem_index a d"
  shows "load n a (store b bs d) = load n a d"
proof -
  have "memory (store b bs d) (mem_index a d + k) = memory d (mem_index a d + k)" if "k < n" for k
    using assms that by (auto simp: store_def write_bytes_outside)
  then show ?thesis by (simp add: load_def)
qed

lemma load_within:
  assumes "stores_within b n d d'" "mem_index a d + k \<le> mem_index b d \<or> mem_index b d + n \<le> mem_index a d"
  shows "load k a d' = load k a d"
proof -
  have "mem_index a d' = mem_index a d" using assms(1) unfolding stores_within_def by (metis mem_index_simps(2))
  moreover have "memory d' (mem_index a d + j) = memory d (mem_index a d + j)" if "j < k" for j
    using assms that by (auto simp: stores_within_def)
  ultimately show ?thesis by (simp add: load_def)
qed

subsection \<open>The structures\<close>

record shdev_message =
  m_operation :: u16
  m_device :: u16
  m_status :: u16
  m_value :: u16

record shdev_desc =
  d_id :: u32
  d_ns_to_s :: shdev_message
  d_s_to_ns :: shdev_message
  d_entry_offset :: u32
  d_entry_size :: u32
  d_data_offset :: u32
  d_data_size :: u32

text \<open>
  An entry \<open>shdev_mmc_entry_t\<close> is not copied: its fields are accessed in place, \<open>hwpart\<close> at 4, \<open>offset\<close> at 16 and
  \<open>length\<close> at 24 of 32 bytes.
\<close>

definition sizeof_shdev_message :: nat where "sizeof_shdev_message = 8"
definition sizeof_shdev_desc :: nat where "sizeof_shdev_desc = 36"
definition sizeof_shdev_mmc_entry :: nat where "sizeof_shdev_mmc_entry = 32"
definition sizeof_shdev_infos :: nat where "sizeof_shdev_infos = 8 + 3 * sizeof_shdev_desc"

definition load_message :: "u64 \<Rightarrow> 'a drv_scheme \<Rightarrow> shdev_message" where
  "load_message a d = \<lparr>m_operation = load_u16 a d, m_device = load_u16 (a + 2) d,
     m_status = load_u16 (a + 4) d, m_value = load_u16 (a + 6) d\<rparr>"

definition bytes_of_message :: "shdev_message \<Rightarrow> u8 list" where
  "bytes_of_message m = le_bytes 2 (ucast (m_operation m)) @ le_bytes 2 (ucast (m_device m)) @
     le_bytes 2 (ucast (m_status m)) @ le_bytes 2 (ucast (m_value m))"

definition load_desc :: "u64 \<Rightarrow> 'a drv_scheme \<Rightarrow> shdev_desc" where
  "load_desc a d = \<lparr>d_id = load_u32 a d, d_ns_to_s = load_message (a + 4) d, d_s_to_ns = load_message (a + 12) d,
     d_entry_offset = load_u32 (a + 20) d, d_entry_size = load_u32 (a + 24) d,
     d_data_offset = load_u32 (a + 28) d, d_data_size = load_u32 (a + 32) d\<rparr>"

text \<open>The address of a descriptor of the table after \<open>magic\<close> and \<open>num_devices\<close>.\<close>

definition desc_addr :: "u64 \<Rightarrow> nat \<Rightarrow> u64" where
  "desc_addr infos index = infos + 8 + of_nat (sizeof_shdev_desc * index)"

subsection \<open>Constants\<close>

definition SHDEV_PAGES :: u32 where "SHDEV_PAGES = 1"
definition SHDEV_MMC_PAGES :: u32 where "SHDEV_MMC_PAGES = 1"
definition SIGNAL_READY :: nat where "SIGNAL_READY = 0"
definition SIGNAL_MMC_MESSAGE :: nat where "SIGNAL_MMC_MESSAGE = 1"
definition SIGNAL_ENET_MESSAGE :: nat where "SIGNAL_ENET_MESSAGE = 2"
definition SIGNAL_SPI_MESSAGE :: nat where "SIGNAL_SPI_MESSAGE = 3"

definition SHDEV_SIGNAL :: "nat \<Rightarrow> u32" where "SHDEV_SIGNAL b = push_bit b 1"

definition SHDEV_DEVICE_PREFIX :: u32 where "SHDEV_DEVICE_PREFIX = 0xabed0000"
definition MMC_DEVICE :: nat where "MMC_DEVICE = 0"
definition ENET_DEVICE :: nat where "ENET_DEVICE = 1"
definition SPI_DEVICE :: nat where "SPI_DEVICE = 2"
definition NUM_DEVICES :: nat where "NUM_DEVICES = 3"

definition SHDEV_DEVICE_TO_ID :: "nat \<Rightarrow> u32" where
  "SHDEV_DEVICE_TO_ID b = of_nat b OR SHDEV_DEVICE_PREFIX"

definition SHDEV_ID_TO_DEVICE :: "u32 \<Rightarrow> nat" where
  "SHDEV_ID_TO_DEVICE b = unat (b AND NOT SHDEV_DEVICE_PREFIX)"

definition SUSPEND_DEVICE :: u16 where "SUSPEND_DEVICE = 0"
definition RESUME_DEVICE :: u16 where "RESUME_DEVICE = 1"
definition SELECT_DEVICE :: u16 where "SELECT_DEVICE = 2"
definition READ_DEVICE :: u16 where "READ_DEVICE = 3"
definition WRITE_DEVICE :: u16 where "WRITE_DEVICE = 4"
definition RPMB_DEVICE :: u16 where "RPMB_DEVICE = 5"

definition SHDEV_MAGIC_INFOS :: u32 where "SHDEV_MAGIC_INFOS = 0xabeef001"

lemmas shdev_operations = SUSPEND_DEVICE_def RESUME_DEVICE_def SELECT_DEVICE_def READ_DEVICE_def
  WRITE_DEVICE_def RPMB_DEVICE_def
lemmas shdev_devices = MMC_DEVICE_def ENET_DEVICE_def SPI_DEVICE_def NUM_DEVICES_def
lemmas shdev_sizes = sizeof_shdev_message_def sizeof_shdev_desc_def sizeof_shdev_mmc_entry_def
  sizeof_shdev_infos_def

lemma device_id_roundtrip: "b < NUM_DEVICES \<Longrightarrow> SHDEV_ID_TO_DEVICE (SHDEV_DEVICE_TO_ID b) = b"
proof -
  assume "b < NUM_DEVICES"
  then consider "b = 0" | "b = 1" | "b = 2" by (auto simp: NUM_DEVICES_def less_Suc_eq numeral_3_eq_3 numeral_2_eq_2)
  then show ?thesis
    by cases (simp_all add: SHDEV_ID_TO_DEVICE_def SHDEV_DEVICE_TO_ID_def SHDEV_DEVICE_PREFIX_def)
qed

subsection \<open>What is stored is what is read back\<close>

lemma mem_index_add:
  assumes "mem_index a d + n < 2 ^ 64"
  shows "mem_index (a + of_nat n) d = mem_index a d + n"
proof -
  have "unat (a - shm_base d + of_nat n) = unat (a - shm_base d) + n"
    using assms by (simp add: mem_index_def unat_word_ariths unsigned_of_nat take_bit_eq_mod mod_simps)
  then show ?thesis by (simp add: mem_index_def algebra_simps)
qed

lemma in_area_part:
  assumes "in_area a n d" "m + k \<le> n" "0 < k"
  shows "in_area (a + of_nat m) k d" "mem_index (a + of_nat m) d = mem_index a d + m"
proof -
  have "mem_index a d + n \<le> unat (shm_nr_pages d) * 4096" using assms by (simp add: in_area_def PAGE_SIZE_def)
  then show *: "mem_index (a + of_nat m) d = mem_index a d + m" using assms(2) unat_u32_less [of "shm_nr_pages d"] by (intro mem_index_add) simp
  then show "in_area (a + of_nat m) k d" using assms by (simp add: in_area_def)
qed

lemma load_part:
  assumes "mem_index a d + m < 2 ^ 64" "load n a d = bs" "m + k \<le> n"
  shows "load k (a + of_nat m) d = take k (drop m bs)"
  using assms(2,3) mem_index_add [OF assms(1)]
  by (intro nth_equalityI) (auto simp: load_def add.assoc)

lemma ucast_le [simp]:
  "(ucast (le_value (le_bytes 2 (ucast (x :: u16)))) :: u16) = x"
  "(ucast (le_value (le_bytes 4 (ucast (y :: u32)))) :: u32) = y"
  "le_value (le_bytes 8 z) = z"
  by (simp_all only: le_value_bytes) (rule bit_word_eqI, auto simp: bit_simps)+

lemma load_message_bytes:
  assumes "mem_index a d + 8 < 2 ^ 64" "load 8 a d = bytes_of_message m"
  shows "load_message a d = m"
proof -
  have "load 2 (a + of_nat k) d = take 2 (drop k (bytes_of_message m))" if "k \<le> 6" for k
    by (rule load_part [OF _ assms(2)]) (use assms(1) that in simp_all)
  from this [of 0] this [of 2] this [of 4] this [of 6] show ?thesis
    by (simp add: load_message_def load_u16_def bytes_of_message_def)
qed

end
