(* ===== verification/PncMmc.thy ===== *)
theory PncMmc
  imports PncShdevMem
begin

text \<open>
  The shared eMMC (\<open>drivers/provencore/shdev/mmcblk.c\<close>) with remote host and RPMB, the device found by its compatible
  string. The record \<open>shdev_state\<close> has the variables of the three shared devices and of their monitor. A call into the
  block layer, a file or another driver is an entry of \<open>hw_log\<close>; its answer (code, value and the bytes it
  stored) is an input, as is everything the configuration fixes. The offsets of the entry and of the data buffer come
  from shared memory: the accesses there are checked, and outside the area they are not valid.
\<close>

datatype cmd_buffer = Frame u64 | Frame_status "u8 list"

record mmc_ioc_cmd =
  c_write_flag :: u32
  c_opcode :: u32
  c_flags :: u32
  c_blksz :: u32
  c_blocks :: u32
  c_data_ptr :: cmd_buffer

datatype blk_request = BLKGETSIZE | BLKPBSZGET | MMC_IOCTL_SUSPEND | MMC_IOCTL_RESUME

datatype hw_call =
    Blkdev_ioctl u64 blk_request
  | Filp_open string
  | Filp_ioctl blk_request
  | Filp_multi_cmd "mmc_ioc_cmd list"
  | Filp_close
  | Kernel_read u64 u64
  | Kernel_write u64 "u8 list"
  | Enet_ioctl u64 bool
  | Spi_master_suspend u64
  | Spi_master_resume u64

record hw_answer =
  hw_code :: int
  hw_value :: u64
  hw_data :: "u8 list"

record mmc_host =
  rescan_disable :: bool
  detect_queued :: bool
  mmc_pm_flags :: u32
  pm_usage :: nat
  pm_disable_depth :: nat
  pm_active :: bool

datatype shdev_ops = Mmcblk_ops | Enetdev_ops | Spidev_ops

record shdev =
  sd_id :: u32
  sd_signal_msg :: u32
  sd_ops :: shdev_ops

record shdev_state = drv +
  shdev_shm_addr :: u64
  shdev_session :: "nat option"
  shdev_infos_ptr :: u64
  shdev_devices :: "shdev list"
  shdev_work :: "bool list"
  mmc_block_minor :: int
  shdev_mmc_bdev :: u64
  the_mmc_host :: mmc_host
  shared_enet_device :: u64
  shared_spi_device :: u64
  hw_log :: "hw_call list"
  thread_started :: bool
  thread_should_stop :: bool
  thread_ended :: bool

record 's shdev_env = "'s drv_env" +
  hw_answers :: "nat \<Rightarrow> hw_call \<Rightarrow> hw_answer"
  mmc_devname :: string
  mmc_minors :: int
  blkdev_get_by_dev :: "int \<Rightarrow> u64"
  bdev_has_disk :: "u64 \<Rightarrow> bool"
  mmc_compatible_node :: bool
  mmc_platform_device :: bool
  mmc_amba_device :: bool
  rpmb_devname :: string
  rpmb_has_ioctl :: bool
  kmalloc_cmds :: bool
  enet_node :: bool
  enet_platform_device :: u64
  spi_node :: bool
  spi_bus_device :: u64
  kthread_create :: int

text \<open>The call sleeps: the secure world and the other threads run before it returns.\<close>

definition hw ::
  "('a shdev_state_scheme, 'b) shdev_env_scheme \<Rightarrow> hw_call \<Rightarrow> 'a shdev_state_scheme \<Rightarrow> hw_answer \<times> 'a shdev_state_scheme" where
  "hw e c d = (hw_answers e (length (hw_log d)) c, (yield e d)\<lparr>hw_log := hw_log (yield e d) @ [c]\<rparr>)"

subsection \<open>Finding the device\<close>

definition is_digit :: "char \<Rightarrow> bool" where
  "is_digit c \<longleftrightarrow> (48 :: nat) \<le> of_char c \<and> (of_char c :: nat) \<le> 57"

text \<open>\<open>while (p > devname && p[-1] >= '0' && p[-1] <= '9') p--\<close>, with \<open>p\<close> as an index.\<close>

primrec digits_start :: "string \<Rightarrow> nat \<Rightarrow> nat" where
  "digits_start devname 0 = 0"
| "digits_start devname (Suc p) = (if is_digit (devname ! p) then digits_start devname p else Suc p)"

text \<open>
  \<open>kstrtol\<close> in base 10, on a string that does not start with a sign: digits only, then at most one line feed, with a
  value that fits a \<open>long\<close>.
\<close>

fun decimal :: "nat \<Rightarrow> string \<Rightarrow> nat option" where
  "decimal n [] = Some n"
| "decimal n (c # cs) = (if is_digit c then decimal (10 * n + (of_char c - 48)) cs else None)"

definition kstrtol_10 :: "string \<Rightarrow> nat option" where
  "kstrtol_10 s =
     (let s = (if s \<noteq> [] \<and> last s = CHR 0x0A then butlast s else s)
      in if s = [] then None
         else case decimal 0 s of None \<Rightarrow> None | Some n \<Rightarrow> if n < 2 ^ 63 then Some n else None)"

definition INT_MAX :: int where "INT_MAX = 2 ^ 31 - 1"

text \<open>The minor number from the number at the end of the device name; \<open>None\<close> is \<open>-EINVAL\<close>.\<close>

definition mmc_minor_of_name :: "int \<Rightarrow> string \<Rightarrow> int option" where
  "mmc_minor_of_name minors devname =
     (case kstrtol_10 (drop (digits_start devname (length devname - 1)) devname) of
        None \<Rightarrow> None
      | Some devid \<Rightarrow> if INT_MAX div minors < int devid then None else Some (int devid * minors))"

text \<open>The block device, or \<open>None\<close> for \<open>ERR_PTR (- EINVAL)\<close>. A device of 0 is an error of \<open>blkdev_get_by_dev\<close>.\<close>

definition mmcblk_get ::
  "('a shdev_state_scheme, 'b) shdev_env_scheme \<Rightarrow> 'a shdev_state_scheme \<Rightarrow> u64 option \<times> 'a shdev_state_scheme" where
  "mmcblk_get e d =
     (if shdev_mmc_bdev d \<noteq> 0 then (Some (shdev_mmc_bdev d), d)
      else
        let minor = (if mmc_block_minor d = -1 then mmc_minor_of_name (mmc_minors e) (mmc_devname e)
                     else Some (mmc_block_minor d))
        in case minor of
             None \<Rightarrow> (None, d)
           | Some minor \<Rightarrow>
               let d = d\<lparr>mmc_block_minor := minor\<rparr>;
                   bdev = blkdev_get_by_dev e minor
               in if bdev = 0 \<or> \<not> bdev_has_disk e bdev then (None, d\<lparr>shdev_mmc_bdev := 0\<rparr>)
                  else (Some bdev, d\<lparr>shdev_mmc_bdev := bdev\<rparr>))"

text \<open>Whether the device of the host is found; there is only one.\<close>

definition mmcblk_get_device :: "('s, 'b) shdev_env_scheme \<Rightarrow> 'a shdev_state_scheme \<Rightarrow> bool" where
  "mmcblk_get_device e d =
     (if shdev_mmc_bdev d = 0 then False
      else if \<not> mmc_compatible_node e then False
      else if mmc_platform_device e then True
      else if mmc_amba_device e then True
      else False)"

subsection \<open>Suspend and resume\<close>

definition pm_runtime_get_sync :: "mmc_host \<Rightarrow> mmc_host" where
  "pm_runtime_get_sync h =
     h\<lparr>pm_usage := pm_usage h + 1, pm_active := (if pm_disable_depth h = 0 then True else pm_active h)\<rparr>"

definition pm_runtime_disable :: "mmc_host \<Rightarrow> mmc_host" where
  "pm_runtime_disable h = h\<lparr>pm_disable_depth := pm_disable_depth h + 1\<rparr>"

definition pm_runtime_put_noidle :: "mmc_host \<Rightarrow> mmc_host" where
  "pm_runtime_put_noidle h = h\<lparr>pm_usage := pm_usage h - 1\<rparr>"

text \<open>The status can only be set while runtime power management is disabled.\<close>

definition pm_runtime_set_active :: "mmc_host \<Rightarrow> mmc_host" where
  "pm_runtime_set_active h = (if pm_disable_depth h = 0 then h else h\<lparr>pm_active := True\<rparr>)"

definition pm_runtime_enable :: "mmc_host \<Rightarrow> mmc_host" where
  "pm_runtime_enable h = h\<lparr>pm_disable_depth := pm_disable_depth h - 1\<rparr>"

definition mmcblk_pm_runtime_disable ::
  "('s, 'b) shdev_env_scheme \<Rightarrow> 'a shdev_state_scheme \<Rightarrow> 'a shdev_state_scheme" where
  "mmcblk_pm_runtime_disable e d =
     (if \<not> mmcblk_get_device e d then d
      else
        let mmc = the_mmc_host d;
            mmc = mmc\<lparr>rescan_disable := True\<rparr>;
            mmc = mmc\<lparr>detect_queued := False\<rparr>;
            mmc = mmc\<lparr>mmc_pm_flags := 0\<rparr>;
            mmc = pm_runtime_get_sync mmc;
            mmc = pm_runtime_disable mmc;
            mmc = pm_runtime_put_noidle mmc
        in d\<lparr>the_mmc_host := mmc\<rparr>)"

definition mmcblk_pm_runtime_enable ::
  "('s, 'b) shdev_env_scheme \<Rightarrow> 'a shdev_state_scheme \<Rightarrow> 'a shdev_state_scheme" where
  "mmcblk_pm_runtime_enable e d =
     (if \<not> mmcblk_get_device e d then d
      else
        let mmc = (the_mmc_host d)\<lparr>rescan_disable := False\<rparr>;
            mmc = pm_runtime_set_active mmc;
            mmc = pm_runtime_enable mmc
        in d\<lparr>the_mmc_host := mmc\<rparr>)"

definition mmcblk_suspend ::
  "('a shdev_state_scheme, 'b) shdev_env_scheme \<Rightarrow> 'a shdev_state_scheme \<Rightarrow> int \<times> 'a shdev_state_scheme" where
  "mmcblk_suspend e d =
     (let (bdev, d) = mmcblk_get e d
      in case bdev of None \<Rightarrow> (- ENODEV, d)
         | Some bdev \<Rightarrow>
             let (result, d) = hw e (Blkdev_ioctl bdev MMC_IOCTL_SUSPEND) d;
                 d = mmcblk_pm_runtime_disable e d
             in (hw_code result, d))"

definition mmcblk_resume ::
  "('a shdev_state_scheme, 'b) shdev_env_scheme \<Rightarrow> 'a shdev_state_scheme \<Rightarrow> int \<times> 'a shdev_state_scheme" where
  "mmcblk_resume e d =
     (let (bdev, d) = mmcblk_get e d
      in case bdev of None \<Rightarrow> (- ENODEV, d)
         | Some bdev \<Rightarrow>
             let (result, d) = hw e (Blkdev_ioctl bdev MMC_IOCTL_RESUME) d;
                 d = mmcblk_pm_runtime_enable e d
             in (hw_code result, d))"

subsection \<open>RPMB\<close>

definition MMC_PART_USER :: u32 where "MMC_PART_USER = 0"
definition MMC_PART_RPMB :: u32 where "MMC_PART_RPMB = 3"
definition RPMB_FRAME_SIZE :: nat where "RPMB_FRAME_SIZE = 512"
definition RPMB_REQ_COUNTER :: u16 where "RPMB_REQ_COUNTER = 2"
definition RPMB_REQ_WRITE :: u16 where "RPMB_REQ_WRITE = 3"
definition RPMB_REQ_READ :: u16 where "RPMB_REQ_READ = 4"
definition RPMB_REQ_STATUS :: u16 where "RPMB_REQ_STATUS = 5"
definition RPMB_WRITE_FLAG_RELIABLE :: u32 where "RPMB_WRITE_FLAG_RELIABLE = push_bit 31 1"
definition MMC_RSP_R1 :: u32 where "MMC_RSP_R1 = 0x15"
definition MMC_READ_MULTIPLE_BLOCK :: u32 where "MMC_READ_MULTIPLE_BLOCK = 18"
definition MMC_WRITE_MULTIPLE_BLOCK :: u32 where "MMC_WRITE_MULTIPLE_BLOCK = 25"

lemmas rpmb_requests = RPMB_REQ_COUNTER_def RPMB_REQ_WRITE_def RPMB_REQ_READ_def RPMB_REQ_STATUS_def

definition INIT_MMC_IOC_CMD :: "u32 \<Rightarrow> u32 \<Rightarrow> cmd_buffer \<Rightarrow> mmc_ioc_cmd" where
  "INIT_MMC_IOC_CMD opc wflag ptr =
     \<lparr>c_write_flag = wflag, c_opcode = opc, c_flags = MMC_RSP_R1, c_blksz = of_nat RPMB_FRAME_SIZE, c_blocks = 1,
      c_data_ptr = ptr\<rparr>"

text \<open>A big endian 16-bit integer at an address, and a frame that is 0 up to its request.\<close>

definition be16_at :: "u64 \<Rightarrow> 'a drv_scheme \<Rightarrow> u16" where
  "be16_at a d = (case load 2 a d of [h, l] \<Rightarrow> push_bit 8 (ucast h) OR ucast l | _ \<Rightarrow> 0)"

definition get_be16 :: "u64 \<Rightarrow> 'a drv_scheme \<Rightarrow> u16 option" where
  "get_be16 a d = (if in_area a 2 d then Some (be16_at a d) else None)"

definition rpmb_status_frame :: "u8 list" where
  "rpmb_status_frame = replicate 510 0 @ [ucast (drop_bit 8 RPMB_REQ_STATUS), ucast RPMB_REQ_STATUS]"

text \<open>Size and number of blocks, written to the entry of the device. \<open>BLKGETSIZE\<close> counts units of 512 bytes.\<close>

definition rpmb_select ::
  "('a shdev_state_scheme, 'b) shdev_env_scheme \<Rightarrow> u64 \<Rightarrow> 'a shdev_state_scheme \<Rightarrow> (int \<times> 'a shdev_state_scheme) option" where
  "rpmb_select e entry d =
     (let (blkcnt, d) = hw e (Filp_ioctl BLKGETSIZE) d
      in if hw_code blkcnt < 0 then Some (hw_code blkcnt, d)
      else
        let (blksize, d) = hw e (Filp_ioctl BLKPBSZGET) d
        in if hw_code blksize < 0 then Some (hw_code blksize, d)
        else do {
          d \<leftarrow> put_u64 (entry + 16) (hw_value blksize) d;
          d \<leftarrow> put_u64 (entry + 24) (hw_value blksize * hw_value blkcnt) d;
          Some (hw_code blksize, d)
        })"

text \<open>
  The commands of a request: \<open>None\<close> for a request that is not supported. The last command of each list reads the
  answer of the device into the frame.
\<close>

definition rpmb_commands :: "u16 \<Rightarrow> u64 \<Rightarrow> mmc_ioc_cmd list option" where
  "rpmb_commands request frame =
     (let cmd0 = INIT_MMC_IOC_CMD MMC_WRITE_MULTIPLE_BLOCK 1 (Frame frame)
      in if request = RPMB_REQ_COUNTER \<or> request = RPMB_REQ_READ
         then Some [cmd0, INIT_MMC_IOC_CMD MMC_READ_MULTIPLE_BLOCK 0 (Frame frame)]
         else if request = RPMB_REQ_WRITE
         then Some [cmd0\<lparr>c_write_flag := 1 OR RPMB_WRITE_FLAG_RELIABLE\<rparr>,
                    INIT_MMC_IOC_CMD MMC_WRITE_MULTIPLE_BLOCK 1 (Frame_status rpmb_status_frame),
                    INIT_MMC_IOC_CMD MMC_READ_MULTIPLE_BLOCK 0 (Frame frame)]
         else None)"

text \<open>What the driver of the device stores for the last command: at most its blocks, in its buffer.\<close>

definition store_answer :: "mmc_ioc_cmd list \<Rightarrow> u8 list \<Rightarrow> 'a drv_scheme \<Rightarrow> 'a drv_scheme option" where
  "store_answer cmds bs d =
     (let cmd = last cmds
      in case c_data_ptr cmd of
           Frame a \<Rightarrow> put_bytes a (take (unat (c_blksz cmd) * unat (c_blocks cmd)) bs) d
         | Frame_status _ \<Rightarrow> Some d)"

definition rpmb_execute ::
  "('a shdev_state_scheme, 'b) shdev_env_scheme \<Rightarrow> u64 \<Rightarrow> 'a shdev_state_scheme \<Rightarrow> (int \<times> 'a shdev_state_scheme) option" where
  "rpmb_execute e frame d =
     (if \<not> kmalloc_cmds e then Some (- EACCES, d)
      else do {
        request \<leftarrow> get_be16 (frame + 510) d;
        (case rpmb_commands request frame of
          None \<Rightarrow> Some (- EACCES, d)
        | Some cmds \<Rightarrow>
            let (result, d) = hw e (Filp_multi_cmd cmds) d
            in do {
              d \<leftarrow> store_answer cmds (hw_data result) d;
              Some (hw_code result, d)
            })
      })"

definition mmcblk_remote_host_rpmb ::
  "('a shdev_state_scheme, 'b) shdev_env_scheme \<Rightarrow> shdev_desc \<Rightarrow> 'a shdev_state_scheme
     \<Rightarrow> (int \<times> 'a shdev_state_scheme) option" where
  "mmcblk_remote_host_rpmb e desc d =
     (let entry = shdev_shm_addr d + ucast (d_entry_offset desc);
          frame = shdev_shm_addr d + ucast (d_data_offset desc);
          (filp, d) = hw e (Filp_open (rpmb_devname e)) d
      in if hw_code filp < 0 then Some (- EACCES, d)
      else do {
        (result, d) \<leftarrow>
          (if \<not> rpmb_has_ioctl e then Some (- EACCES, d)
           else if m_operation (d_s_to_ns desc) = SELECT_DEVICE then rpmb_select e entry d
           else rpmb_execute e frame d);
        let (_, d) = hw e Filp_close d in Some (result, d)
      })"

subsection \<open>Remote host\<close>

definition remote_select ::
  "('a shdev_state_scheme, 'b) shdev_env_scheme \<Rightarrow> u64 \<Rightarrow> 'a shdev_state_scheme \<Rightarrow> (int \<times> 'a shdev_state_scheme) option" where
  "remote_select e entry d =
     (let (bdev, d) = mmcblk_get e d
      in case bdev of None \<Rightarrow> Some (- EACCES, d)
         | Some bdev \<Rightarrow>
             let (blkcnt, d) = hw e (Blkdev_ioctl bdev BLKGETSIZE) d
             in if hw_code blkcnt \<noteq> 0 then Some (hw_code blkcnt, d)
             else
               let (blksize, d) = hw e (Blkdev_ioctl bdev BLKPBSZGET) d
               in if hw_code blksize \<noteq> 0 then Some (hw_code blksize, d)
               else do {
                 d \<leftarrow> put_u64 (entry + 16) (hw_value blksize) d;
                 d \<leftarrow> put_u64 (entry + 24) (hw_value blksize * hw_value blkcnt) d;
                 Some (hw_code blksize, d)
               })"

text \<open>The value of a \<open>ssize_t\<close> converted to \<open>int\<close>.\<close>

definition int_of_ssize :: "int \<Rightarrow> int" where
  "int_of_ssize n = signed_take_bit 31 n"

text \<open>
  Only the low 32 bits of the length are compared with the size of the buffer; all 64 are passed on. The entry is
  read again after the file has been opened. A call of \<open>kernel_read\<close> or \<open>kernel_write\<close> moves at most
  \<open>MAX_RW_COUNT\<close> bytes (\<open>INT_MAX & PAGE_MASK\<close>); a write that would get bytes from outside the area is not valid.
\<close>

definition MAX_RW_COUNT :: nat where "MAX_RW_COUNT = 0x7ffff000"

definition remote_transfer ::
  "('a shdev_state_scheme, 'b) shdev_env_scheme \<Rightarrow> bool \<Rightarrow> shdev_desc \<Rightarrow> u64 \<Rightarrow> 'a shdev_state_scheme
     \<Rightarrow> (int \<times> 'a shdev_state_scheme) option" where
  "remote_transfer e write desc entry d =
     do {
       len \<leftarrow> get_u64 (entry + 24) d;
       if d_data_size desc < ucast len then Some (- EINVAL, d)
       else
         let (filp, d) = hw e (Filp_open (mmc_devname e)) d
         in if hw_code filp < 0 then Some (hw_code filp, d)
         else do {
           pos \<leftarrow> get_u64 (entry + 16) d;
           len \<leftarrow> get_u64 (entry + 24) d;
           let mmc_data_ptr = shdev_shm_addr d + ucast (d_data_offset desc);
           (transferred, d) \<leftarrow>
             (if write then do {
                bs \<leftarrow> get_bytes (min (unat len) MAX_RW_COUNT) mmc_data_ptr d;
                let (a, d) = hw e (Kernel_write pos bs) d in Some (hw_code a, d)
              }
              else
                let (a, d) = hw e (Kernel_read pos len) d
                in do { d \<leftarrow> put_bytes mmc_data_ptr (hw_data a) d; Some (hw_code a, d) });
           let ret = (if 0 < transferred \<and> of_int transferred = len then 0
                      else if transferred \<noteq> 0 then int_of_ssize transferred else - EACCES);
           let (_, d) = hw e Filp_close d in Some (ret, d)
         }
     }"

definition mmcblk_remote_host ::
  "('a shdev_state_scheme, 'b) shdev_env_scheme \<Rightarrow> shdev_desc \<Rightarrow> 'a shdev_state_scheme
     \<Rightarrow> (int \<times> 'a shdev_state_scheme) option" where
  "mmcblk_remote_host e desc d =
     (if d_id desc \<noteq> SHDEV_DEVICE_TO_ID MMC_DEVICE then Some (- EINVAL, d)
      else
        let entry = shdev_shm_addr d + ucast (d_entry_offset desc);
            operation = m_operation (d_s_to_ns desc)
        in do {
          hwpart \<leftarrow> get_u32 (entry + 4) d;
          if hwpart = MMC_PART_RPMB then mmcblk_remote_host_rpmb e desc d
          else if hwpart \<noteq> MMC_PART_USER then Some (- EACCES, d)
          else if operation = SELECT_DEVICE then remote_select e entry d
          else if operation = READ_DEVICE then remote_transfer e False desc entry d
          else if operation = WRITE_DEVICE then remote_transfer e True desc entry d
          else Some (- EINVAL, d)
        })"

end
