(* ===== verification/PncMmc_Props.thy ===== *)
theory PncMmc_Props
  imports PncMmc
begin

text \<open>
  The shared eMMC: the number at the end of a device name, the pairing of suspend and resume, the RPMB commands, and
  where transfers may write.
\<close>

subsection \<open>The number of the device\<close>

text \<open>A number in decimal notation.\<close>

fun show_nat :: "nat \<Rightarrow> string" where
  "show_nat n = (if n < 10 then [] else show_nat (n div 10)) @ [char_of (48 + n mod 10)]"

declare show_nat.simps [simp del]

lemma digit_char: "k < 10 \<Longrightarrow> is_digit (char_of (48 + k))" "k < 10 \<Longrightarrow> (of_char (char_of (48 + k)) :: nat) = 48 + k"
  by (simp_all add: is_digit_def)

lemma show_nat_digits: "\<forall>c \<in> set (show_nat n). is_digit c"
proof (induction n rule: show_nat.induct)
  case (1 n)
  then show ?case using digit_char(1) [of "n mod 10"] by (subst show_nat.simps) auto
qed

lemma show_nat_ne [simp]: "show_nat n \<noteq> []"
  by (subst show_nat.simps) simp

lemma decimal_append: "decimal m (s @ t) = Option.bind (decimal m s) (\<lambda>k. decimal k t)"
  by (induction s arbitrary: m) simp_all

lemma decimal_show: "decimal 0 (show_nat n) = Some n"
proof (induction n rule: show_nat.induct)
  case (1 n)
  have "decimal k [char_of (48 + n mod 10)] = Some (10 * k + n mod 10)" for k
    using digit_char [of "n mod 10"] by simp
  then show ?case using 1 by (subst show_nat.simps) (simp add: decimal_append del: decimal.simps, simp)
qed

lemma digits_start_suffix:
  assumes "\<not> is_digit c" "\<forall>x \<in> set ds. is_digit x"
  shows "k \<le> length ds \<Longrightarrow> digits_start (pre @ c # ds) (Suc (length pre + k)) = Suc (length pre)"
proof (induction k)
  case 0
  then show ?case using assms(1) by (simp add: nth_append)
next
  case (Suc k)
  then have "is_digit ((pre @ c # ds) ! Suc (length pre + k))" using assms(2) by (simp add: nth_append)
  then show ?case using Suc by simp
qed

text \<open>
  C38. The number at the end of a device name is read back: for a name that ends in the decimal notation of a number
  after some other character, the minor number is that of the device with this number, as long as it fits an \<open>int\<close>.
\<close>

theorem mmc_minor_of_device:
  assumes "\<not> is_digit c" "0 < minors"
  shows "mmc_minor_of_name minors (pre @ c # show_nat n) =
    (if int n \<le> INT_MAX div minors then Some (int n * minors) else None)"
proof -
  have "digits_start (pre @ c # show_nat n) (length (pre @ c # show_nat n) - 1) = Suc (length pre)"
  proof -
    have "length (pre @ c # show_nat n) - 1 = Suc (length pre + (length (show_nat n) - 1))"
      by (cases "show_nat n") auto
    then show ?thesis
      by (simp only:) (rule digits_start_suffix [OF assms(1) show_nat_digits], simp)
  qed
  moreover have "is_digit (last (show_nat n))" using show_nat_digits last_in_set [OF show_nat_ne] by blast
  then have "last (show_nat n) \<noteq> CHR 0x0A" by (auto simp: is_digit_def)
  moreover have "INT_MAX div minors < 2 ^ 63"
    using assms(2) zdiv_mono2 [of INT_MAX 1 minors] by (simp add: INT_MAX_def)
  ultimately show ?thesis
    by (simp add: mmc_minor_of_name_def kstrtol_10_def decimal_show not_less)
qed

theorem mmc_minor_of_device_witness:
  "mmc_minor_of_name 8 (''/dev/mmcblk'' @ show_nat 12) = Some 96"
  using mmc_minor_of_device [of "CHR ''k''" 8 "''/dev/mmcbl''" 12] by (simp add: is_digit_def INT_MAX_def)

subsection \<open>Calls to the hardware\<close>

lemma hw_calm:
  "calm e \<Longrightarrow> hw e c d = (hw_answers e (length (hw_log d)) c, d\<lparr>tick := Suc (tick d), hw_log := hw_log d @ [c]\<rparr>)"
  by (simp add: hw_def yield_calm)

lemma load_hw [simp]:
  "load n a (d\<lparr>tick := k\<rparr>) = load n a d" "load n a (d\<lparr>hw_log := l\<rparr>) = load n a d"
  by (simp_all add: load_def mem_index_def)

lemma loads_hw [simp]:
  "load_u64 a (d\<lparr>tick := k\<rparr>) = load_u64 a d" "load_u64 a (d\<lparr>hw_log := l\<rparr>) = load_u64 a d"
  "be16_at a (d\<lparr>tick := k\<rparr>) = be16_at a d" "be16_at a (d\<lparr>hw_log := l\<rparr>) = be16_at a d"
  "in_area a n (d\<lparr>tick := k\<rparr>) = in_area a n d" "in_area a n (d\<lparr>hw_log := l\<rparr>) = in_area a n d"
  by (simp_all add: load_u64_def be16_at_def in_area_def mem_index_def)

subsection \<open>Suspend and resume\<close>

text \<open>The block device is known, and its host is found.\<close>

definition mmc_ready :: "('s, 'b) shdev_env_scheme \<Rightarrow> 'a shdev_state_scheme \<Rightarrow> bool" where
  "mmc_ready e d \<longleftrightarrow> shdev_mmc_bdev d \<noteq> 0 \<and> mmcblk_get_device e d"

text \<open>
  While the secure world uses the eMMC, its host neither scans for cards nor manages its power, and the
  resume leaves the counters of power management as they were before the suspend, with the device active.
\<close>

theorem mmc_suspend_resume_balanced:
  assumes "calm e" "mmc_ready e d" "mmcblk_suspend e d = (r, d1)" "mmcblk_resume e d1 = (r', d2)"
  shows "rescan_disable (the_mmc_host d1) \<and> \<not> detect_queued (the_mmc_host d1) \<and>
    pm_disable_depth (the_mmc_host d1) = Suc (pm_disable_depth (the_mmc_host d)) \<and>
    pm_usage (the_mmc_host d1) = pm_usage (the_mmc_host d) \<and>
    the_mmc_host d2 = (the_mmc_host d)\<lparr>rescan_disable := False, detect_queued := False, mmc_pm_flags := 0, pm_active := True\<rparr> \<and>
    hw_log d2 = hw_log d @ [Blkdev_ioctl (shdev_mmc_bdev d) MMC_IOCTL_SUSPEND, Blkdev_ioctl (shdev_mmc_bdev d) MMC_IOCTL_RESUME] \<and>
    r = hw_code (hw_answers e (length (hw_log d)) (Blkdev_ioctl (shdev_mmc_bdev d) MMC_IOCTL_SUSPEND))"
proof -
  have found: "mmcblk_get_device e (d\<lparr>tick := k, hw_log := l, the_mmc_host := h\<rparr>)"
    "mmcblk_get_device e (d\<lparr>tick := k, hw_log := l\<rparr>)"
    "mmcblk_get_device e (d\<lparr>tick := k, hw_log := l, the_mmc_host := h, tick := k', hw_log := l'\<rparr>)" for k l h k' and l' :: "hw_call list"
    using assms(2) by (simp_all add: mmc_ready_def mmcblk_get_device_def split: if_splits)
  have known: "shdev_mmc_bdev d \<noteq> 0" using assms(2) by (simp add: mmc_ready_def)
  have d1: "d1 = d\<lparr>tick := Suc (tick d), hw_log := hw_log d @ [Blkdev_ioctl (shdev_mmc_bdev d) MMC_IOCTL_SUSPEND],
      the_mmc_host := (the_mmc_host d)\<lparr>rescan_disable := True, detect_queued := False, mmc_pm_flags := 0,
        pm_active := (if pm_disable_depth (the_mmc_host d) = 0 then True else pm_active (the_mmc_host d)),
        pm_disable_depth := Suc (pm_disable_depth (the_mmc_host d))\<rparr>\<rparr>"
    "r = hw_code (hw_answers e (length (hw_log d)) (Blkdev_ioctl (shdev_mmc_bdev d) MMC_IOCTL_SUSPEND))"
    using assms(1,3) known found(2)
    by (auto simp: mmcblk_suspend_def mmcblk_get_def hw_calm mmcblk_pm_runtime_disable_def pm_runtime_get_sync_def
        pm_runtime_disable_def pm_runtime_put_noidle_def Let_def split: if_splits)
  then show ?thesis
    using assms(1,4) known found(3)
    by (auto simp: mmcblk_resume_def mmcblk_get_def hw_calm mmcblk_pm_runtime_enable_def
        pm_runtime_set_active_def pm_runtime_enable_def Let_def)
qed

subsection \<open>RPMB\<close>

text \<open>
  C35. Where the device can be opened and takes an \<open>ioctl\<close>, the memory for the commands is there, the frame lies in the
  shared area and nobody else changes the state, an RPMB request is one batch of commands, each of one block of 512 bytes with the flags of an R1 response. A write
  (3) is the command 25 with the frame of the secure world and the reliable write flag, the command 25 with a
  frame that asks for the status (5), and the command 18 that reads the answer into the frame. A read (4) or a read of
  the counter (2) is the command 25 with the frame and the command 18. Every other request is refused without a command.
  The answer of the device, at most one block of it, is what the frame holds afterwards.
\<close>

theorem rpmb_request_protocol:
  assumes "calm e" "m_operation (d_s_to_ns desc) \<noteq> SELECT_DEVICE" "rpmb_has_ioctl e" "kmalloc_cmds e"
    and "0 \<le> hw_code (hw_answers e (length (hw_log d)) (Filp_open (rpmb_devname e)))"
    and "frame = shdev_shm_addr d + ucast (d_data_offset desc)" "in_area frame 512 d" "request = be16_at (frame + 510) d"
    and "send = \<lparr>c_write_flag = 1, c_opcode = 25, c_flags = 0x15, c_blksz = 512, c_blocks = 1, c_data_ptr = Frame frame\<rparr>"
    and "fetch = \<lparr>c_write_flag = 0, c_opcode = 18, c_flags = 0x15, c_blksz = 512, c_blocks = 1, c_data_ptr = Frame frame\<rparr>"
    and "cmds = (if request = 3
      then [send\<lparr>c_write_flag := 0x80000001\<rparr>, send\<lparr>c_data_ptr := Frame_status (replicate 510 0 @ [0, 5])\<rparr>, fetch]
      else [send, fetch])"
    and "answer = hw_answers e (Suc (length (hw_log d))) (Filp_multi_cmd cmds)"
  shows "\<exists>r d'. mmcblk_remote_host_rpmb e desc d = Some (r, d') \<and>
    (if request \<in> {2, 3, 4}
     then hw_log d' = hw_log d @ [Filp_open (rpmb_devname e), Filp_multi_cmd cmds, Filp_close] \<and> r = hw_code answer \<and>
       load (min 512 (length (hw_data answer))) frame d' = take 512 (hw_data answer)
     else hw_log d' = hw_log d @ [Filp_open (rpmb_devname e), Filp_close] \<and> r = - EACCES \<and> memory d' = memory d)"
proof -
  have flag: "1 OR RPMB_WRITE_FLAG_RELIABLE = (0x80000001 :: u32)" by (simp add: RPMB_WRITE_FLAG_RELIABLE_def push_bit_eq_mult)
  have status: "rpmb_status_frame = replicate 510 0 @ [0, 5]" by (simp add: rpmb_status_frame_def RPMB_REQ_STATUS_def drop_bit_eq_div)
  have part: "in_area (frame + 510) 2 d" using in_area_part(1) [OF assms(7), of 510 2] by simp
  have put: "put_bytes frame (take 512 bs) (d\<lparr>tick := k, hw_log := l\<rparr>) = Some (store frame (take 512 bs) (d\<lparr>tick := k, hw_log := l\<rparr>))"
    for bs k l using assms(7) by (auto simp: put_bytes_def in_area_def mem_index_def)
  have load: "load (min 512 (length bs)) frame (store frame (take 512 bs) d') = take 512 bs" for bs and d' :: "'a shdev_state_scheme"
    using load_store_same [of "take 512 bs" frame d'] by (simp add: min.commute)
  have logs: "hw_log (store a bs d') = hw_log d'" "(store a bs d')\<lparr>tick := k, hw_log := l\<rparr> = store a bs (d'\<lparr>tick := k, hw_log := l\<rparr>)"
    for a bs k l and d' :: "'a shdev_state_scheme" by (simp_all add: store_def mem_index_def)
  have cmds: "rpmb_commands request frame = (if request \<in> {2, 3, 4} then Some cmds else None)"
    "last cmds = fetch" "c_data_ptr (last cmds) = Frame frame" "unat (c_blksz (last cmds)) * unat (c_blocks (last cmds)) = 512"
    using assms(9-11) flag status
    by (auto simp: rpmb_commands_def INIT_MMC_IOC_CMD_def rpmb_requests RPMB_FRAME_SIZE_def MMC_RSP_R1_def
        MMC_READ_MULTIPLE_BLOCK_def MMC_WRITE_MULTIPLE_BLOCK_def Let_def)
  note run = mmcblk_remote_host_rpmb_def hw_calm [OF assms(1)] rpmb_execute_def get_be16_def store_answer_def Let_def
  show ?thesis
  proof (cases "request \<in> {2, 3, 4}")
    case True
    then show ?thesis
      using assms(2-5) part cmds put load logs unfolding assms(12) assms(6) [symmetric]
      by (simp add: run assms(6) [symmetric] assms(8) [symmetric] del: load_hw)
  next
    case False
    then show ?thesis
      using assms(2-5) part cmds by (simp add: run assms(6) [symmetric] assms(8) [symmetric])
  qed
qed

subsection \<open>Transfers\<close>

text \<open>The bytes outside a set of positions are unchanged, and so are the place and the size of the area.\<close>

definition same_outside :: "nat set \<Rightarrow> 'a drv_scheme \<Rightarrow> 'a drv_scheme \<Rightarrow> bool" where
  "same_outside R d d' \<longleftrightarrow> shm_base d' = shm_base d \<and> shm_nr_pages d' = shm_nr_pages d \<and>
     (\<forall>k. k \<notin> R \<longrightarrow> memory d' k = memory d k)"

lemma same_outside_trans: "same_outside R d d' \<Longrightarrow> same_outside R d' d'' \<Longrightarrow> same_outside R d d''"
  by (simp add: same_outside_def)

lemma same_outside_store:
  assumes "{mem_index a d ..< mem_index a d + length bs} \<subseteq> R"
  shows "same_outside R d (store a bs d)"
proof -
  have "memory (store a bs d) k = memory d k" if "k \<notin> R" for k
  proof -
    have "\<not> (mem_index a d \<le> k \<and> k < mem_index a d + length bs)" using assms that by auto
    then show ?thesis by (auto simp: store_def intro!: write_bytes_outside)
  qed
  then show ?thesis by (simp add: same_outside_def)
qed

lemma same_outside_simps [simp]:
  "same_outside R d d" "same_outside R d (d'\<lparr>tick := k\<rparr>) = same_outside R d d'"
  "same_outside R d (d'\<lparr>hw_log := l\<rparr>) = same_outside R d d'"
  by (simp_all add: same_outside_def)

lemma same_outside_area:
  "same_outside R d d' \<Longrightarrow> mem_index a d' = mem_index a d" "same_outside R d d' \<Longrightarrow> in_area a n d' = in_area a n d"
  by (simp_all add: same_outside_def mem_index_def in_area_def)

lemma same_outside_get: "mmcblk_get e d = (b, d') \<Longrightarrow> same_outside R d d'"
  by (auto simp: mmcblk_get_def same_outside_def Let_def split: if_splits option.splits)

text \<open>A store to bytes of the area that are in \<open>R\<close> is valid and changes nothing else.\<close>

lemma returns_put_bytes:
  assumes "in_area a n d" "{mem_index a d ..< mem_index a d + n} \<subseteq> R" "length bs \<le> n" "same_outside R d d1"
    and "\<And>d'. same_outside R d d' \<Longrightarrow> Q d'"
  shows "returns (put_bytes a bs d1) Q"
proof -
  note area = same_outside_area [OF assms(4)]
  have "in_area a (length bs) d" using assms(1,3) by (auto simp: in_area_def)
  then have "in_area a (length bs) d1" using area(2) by blast
  moreover have "same_outside R d1 (store a bs d1)"
    by (rule same_outside_store) (use assms(2,3) area in auto)
  then have "Q (store a bs d1)" using assms(4,5) same_outside_trans by blast
  ultimately show ?thesis by (simp add: put_bytes_def)
qed

lemma returns_put_entry:
  assumes "in_area entry 32 d" "{mem_index entry d ..< mem_index entry d + 32} \<subseteq> R" "m + 8 \<le> 32" "same_outside R d d1"
    and "\<And>d'. same_outside R d d' \<Longrightarrow> Q d'"
  shows "returns (put_u64 (entry + of_nat m) x d1) Q"
proof -
  note part = in_area_part [OF assms(1,3)]
  have "{mem_index (entry + of_nat m) d ..< mem_index (entry + of_nat m) d + 8} \<subseteq> R"
    using part assms(2,3) by auto
  from returns_put_bytes [where Q = Q and bs = "le_bytes 8 x", OF part(1) this _ assms(4,5)] show ?thesis
    by (simp add: put_bytes_def put_u64_def store_u64_def)
qed

lemmas returns_put = returns_put_entry [where m = 16, simplified] returns_put_entry [where m = 24, simplified]

text \<open>A read never delivers more than it was asked for.\<close>

definition reads_bounded :: "('s, 'b) shdev_env_scheme \<Rightarrow> bool" where
  "reads_bounded e \<longleftrightarrow> (\<forall>n pos len. length (hw_data (hw_answers e n (Kernel_read pos len))) \<le> unat len)"

definition mmc_ranges :: "shdev_desc \<Rightarrow> 'a shdev_state_scheme \<Rightarrow> nat set" where
  "mmc_ranges desc d =
     (let entry = mem_index (shdev_shm_addr d + ucast (d_entry_offset desc)) d;
          data = mem_index (shdev_shm_addr d + ucast (d_data_offset desc)) d
      in {entry ..< entry + sizeof_shdev_mmc_entry} \<union> {data ..< data + unat (d_data_size desc)})"

lemma rpmb_confined:
  assumes "calm e" "in_area frame 512 d" "{mem_index frame d ..< mem_index frame d + 512} \<subseteq> R"
    and "in_area entry 32 d" "{mem_index entry d ..< mem_index entry d + 32} \<subseteq> R"
    and "frame = shdev_shm_addr d + ucast (d_data_offset desc)" "entry = shdev_shm_addr d + ucast (d_entry_offset desc)"
  shows "returns (mmcblk_remote_host_rpmb e desc d) (\<lambda>(r, d'). same_outside R d d')"
proof -
  have answer: "returns (store_answer cmds bs d1) Q"
    if "same_outside R d d1" "\<And>d'. same_outside R d d' \<Longrightarrow> Q d'" "rpmb_commands request frame = Some cmds" for cmds request bs d1 Q
  proof -
    have "c_data_ptr (last cmds) = Frame frame" "unat (c_blksz (last cmds)) * unat (c_blocks (last cmds)) = 512"
      using that(3) by (auto simp: rpmb_commands_def INIT_MMC_IOC_CMD_def RPMB_FRAME_SIZE_def Let_def split: if_splits)
    then show ?thesis using returns_put_bytes [OF assms(2,3) _ that(1), of "take 512 bs" Q] that(2) by (simp add: store_answer_def)
  qed
  have request: "in_area (frame + 510) 2 d" using in_area_part(1) [OF assms(2), of 510 2] by simp
  show ?thesis
    unfolding mmcblk_remote_host_rpmb_def hw_calm [OF assms(1)] rpmb_select_def rpmb_execute_def get_be16_def Let_def
    by (auto simp: assms(6,7) [symmetric] hw_calm [OF assms(1)] request split: option.splits
        intro!: answer returns_put [OF assms(4,5)])
qed

lemma select_confined:
  assumes "calm e" "in_area entry 32 d" "{mem_index entry d ..< mem_index entry d + 32} \<subseteq> R"
  shows "returns (remote_select e entry d) (\<lambda>(r, d'). same_outside R d d')"
proof -
  obtain b d1 where "mmcblk_get e d = (b, d1)" by fastforce
  then show ?thesis
    using same_outside_get [of e d b d1 R]
    by (auto simp: remote_select_def hw_calm [OF assms(1)] Let_def split: option.splits intro!: returns_put [OF assms(2,3)])
qed

lemma transfer_confined:
  assumes "calm e" "reads_bounded e" "in_area entry 32 d" "load_u64 (entry + 24) d < 2 ^ 32"
    and "data = shdev_shm_addr d + ucast (d_data_offset desc)" "in_area data (unat (d_data_size desc)) d"
    and "{mem_index data d ..< mem_index data d + unat (d_data_size desc)} \<subseteq> R"
  shows "returns (remote_transfer e write desc entry d) (\<lambda>(r, d'). same_outside R d d')"
proof -
  have entry: "in_area (entry + 16) 8 d" "in_area (entry + 24) 8 d"
    using in_area_part(1) [OF assms(3), of 16 8] in_area_part(1) [OF assms(3), of 24 8] by simp_all
  show ?thesis
  proof (cases "d_data_size desc < ucast (load_u64 (entry + 24) d)")
    case True
    then show ?thesis using entry by (simp add: remote_transfer_def get_u64_def)
  next
    case False
    let ?len = "load_u64 (entry + 24) d"
    have "unat (ucast ?len :: u32) = unat ?len"
      using assms(4) by (simp add: unsigned_ucast_eq take_bit_nat_eq_self word_less_nat_alt)
    then have len: "unat ?len \<le> unat (d_data_size desc)"
      using False by (simp add: not_less word_le_nat_alt)
    then have short: "length (hw_data (hw_answers e n (Kernel_read pos ?len))) \<le> unat (d_data_size desc)" for n pos
      using assms(2) order_trans unfolding reads_bounded_def by blast
    have read: "returns (put_bytes data (hw_data (hw_answers e n (Kernel_read pos ?len))) d1) Q"
      if "same_outside R d d1" "\<And>d'. same_outside R d d' \<Longrightarrow> Q d'" for d1 n pos Q
      by (rule returns_put_bytes [OF assms(6,7) short that])
    have "in_area data (min (unat ?len) k) d" for k using assms(6) len by (auto simp: in_area_def)
    then show ?thesis
      using entry False unfolding remote_transfer_def get_u64_def get_bytes_def hw_calm [OF assms(1)] Let_def
      by (cases "write") (simp_all add: read assms(5) [symmetric])
  qed
qed

text \<open>
  C33. An operation of the remote host stays inside its buffers, when they lie in the shared area, the buffer has room
  for an RPMB frame, the length in the entry is below 4 GB, nobody else changes the state (the entry in particular) during
  the operation, and a read delivers no more than it is asked for. Then the operation returns, with no access outside the area, and writes at
  most the entry and the data buffer that the descriptor names.
\<close>

theorem mmc_remote_confined:
  assumes "calm e" "reads_bounded e"
    and "entry = shdev_shm_addr d + ucast (d_entry_offset desc)" "data = shdev_shm_addr d + ucast (d_data_offset desc)"
    and "in_area entry sizeof_shdev_mmc_entry d" "in_area data (unat (d_data_size desc)) d"
    and "RPMB_FRAME_SIZE \<le> unat (d_data_size desc)" "load_u64 (entry + 24) d < 2 ^ 32"
  shows "\<exists>r d'. mmcblk_remote_host e desc d = Some (r, d') \<and>
    (\<forall>k. (k < mem_index entry d \<or> mem_index entry d + sizeof_shdev_mmc_entry \<le> k) \<and>
      (k < mem_index data d \<or> mem_index data d + unat (d_data_size desc) \<le> k) \<longrightarrow> memory d' k = memory d k)"
proof -
  let ?E = "{mem_index entry d ..< mem_index entry d + 32}"
    and ?D = "{mem_index data d ..< mem_index data d + unat (d_data_size desc)}"
  have ent: "in_area entry 32 d" using assms(5) by (simp add: sizeof_shdev_mmc_entry_def)
  have frame: "in_area data 512 d" using assms(6,7) by (auto simp: in_area_def RPMB_FRAME_SIZE_def)
  have rpmb: "returns (mmcblk_remote_host_rpmb e desc d) (\<lambda>(r, d'). same_outside (?E \<union> ?D) d d')"
    by (rule rpmb_confined [OF assms(1) frame _ ent _ assms(4,3)]) (use assms(7) in \<open>auto simp: RPMB_FRAME_SIZE_def\<close>)
  have select: "returns (remote_select e entry d) (\<lambda>(r, d'). same_outside (?E \<union> ?D) d d')"
    by (rule select_confined [OF assms(1) ent]) auto
  have transfer: "returns (remote_transfer e w desc entry d) (\<lambda>(r, d'). same_outside (?E \<union> ?D) d d')" for w
    by (rule transfer_confined [OF assms(1,2) ent assms(8,4,6)]) auto
  have "in_area (entry + 4) 4 d" using in_area_part(1) [OF ent, of 4 4] by simp
  then have "returns (mmcblk_remote_host e desc d) (\<lambda>(r, d'). same_outside (?E \<union> ?D) d d')"
    unfolding mmcblk_remote_host_def Let_def get_u32_def assms(3) [symmetric] using rpmb select transfer by simp
  then show ?thesis
    by (fastforce simp: returns_iff same_outside_def sizeof_shdev_mmc_entry_def)
qed

text \<open>
  C39. With nobody else changing the state: a length of 4 GB or more passes the check of the transfer when its low 32 bits do. A read then delivers as much
  as the device has, up to what one call of \<open>kernel_read\<close> moves: when that is more than the buffer of the descriptor has
  room for, the read writes beyond the buffer, and beyond the shared area if it reaches its end. Where the read stays
  in the area, the byte after the buffer is overwritten with data of the device and the count of bytes is returned.
\<close>

theorem mmc_length_truncated:
  assumes "calm e" "d_id desc = SHDEV_DEVICE_TO_ID MMC_DEVICE" "m_operation (d_s_to_ns desc) = READ_DEVICE"
    and "entry = shdev_shm_addr d + ucast (d_entry_offset desc)" "data = shdev_shm_addr d + ucast (d_data_offset desc)"
    and "in_area entry sizeof_shdev_mmc_entry d" "load_u32 (entry + 4) d = MMC_PART_USER"
    and "len = load_u64 (entry + 24) d" "(ucast len :: u32) \<le> d_data_size desc" "2 ^ 32 \<le> unat len"
    and "0 \<le> hw_code (hw_answers e (length (hw_log d)) (Filp_open (mmc_devname e)))"
    and "answer = hw_answers e (Suc (length (hw_log d))) (Kernel_read (load_u64 (entry + 16) d) len)"
    and "hw_code answer = int (length (hw_data answer))"
    and "unat (d_data_size desc) < length (hw_data answer)" "length (hw_data answer) \<le> MAX_RW_COUNT"
  shows "if in_area data (length (hw_data answer)) d
    then \<exists>d'. mmcblk_remote_host e desc d = Some (int (length (hw_data answer)), d') \<and>
      memory d' (mem_index data d + unat (d_data_size desc)) = hw_data answer ! unat (d_data_size desc)
    else mmcblk_remote_host e desc d = None"
proof -
  let ?n = "length (hw_data answer)"
  have ent: "in_area entry 32 d" using assms(6) by (simp add: sizeof_shdev_mmc_entry_def)
  have entry: "in_area (entry + 4) 4 d" "in_area (entry + 16) 8 d" "in_area (entry + 24) 8 d"
    using in_area_part(1) [OF ent, of 4 4] in_area_part(1) [OF ent, of 16 8] in_area_part(1) [OF ent, of 24 8] by simp_all
  have byte: "write_bytes (mem_index data d) (hw_data answer) (memory d) (mem_index data d + unat (d_data_size desc)) =
      hw_data answer ! unat (d_data_size desc)"
    by (rule write_bytes_inside) (use assms(14) in simp)
  have n: "?n < 2 ^ 31" using assms(15) by (simp add: MAX_RW_COUNT_def)
  then have "unat (of_int (int ?n) :: u64) = ?n" by (simp add: unsigned_of_nat take_bit_nat_eq_self)
  then have count: "of_int (int ?n) \<noteq> len" using n assms(10) by auto
  have ret: "int_of_ssize (int ?n) = int ?n" using n by (simp add: int_of_ssize_def signed_take_bit_int_eq_self)
  have "\<not> d_data_size desc < ucast len" using assms(9) by simp
  then have run: "mmcblk_remote_host e desc d = do {
      d1 \<leftarrow> put_bytes data (hw_data answer) (d\<lparr>tick := Suc (Suc (tick d)),
        hw_log := hw_log d @ [Filp_open (mmc_devname e), Kernel_read (load_u64 (entry + 16) d) len]\<rparr>);
      let d2 = snd (hw e Filp_close d1);
      Some (if 0 < int ?n \<and> of_int (int ?n) = len then 0 else if int ?n \<noteq> 0 then int_of_ssize (int ?n) else - EACCES, d2) }"
    using assms(1-3,7,8,11-13) entry
    by (simp add: mmcblk_remote_host_def remote_transfer_def hw_calm Let_def MMC_PART_USER_def MMC_PART_RPMB_def
        shdev_operations get_u32_def get_u64_def assms(4,5) [symmetric] case_prod_beta)
  have "put_bytes data (hw_data answer) (d\<lparr>tick := k, hw_log := l\<rparr>) =
      (if in_area data ?n d then Some (store data (hw_data answer) (d\<lparr>tick := k, hw_log := l\<rparr>)) else None)" for k l
    by (simp add: put_bytes_def)
  then show ?thesis
    using assms(14) ret byte hw_calm [OF assms(1)] unfolding run
    by (auto simp: count [simplified] store_def mem_index_def)
qed

subsection \<open>A concrete eMMC\<close>

definition mmc_state :: shdev_state where
  "mmc_state = drv.extend (drv_example\<lparr>memory := (\<lambda>k. 0)\<rparr>)
     \<lparr>shdev_shm_addr = shm_base drv_example, shdev_session = Some 0, shdev_infos_ptr = shm_base drv_example,
      shdev_devices = [], shdev_work = [], mmc_block_minor = -1, shdev_mmc_bdev = 5,
      the_mmc_host = \<lparr>rescan_disable = False, detect_queued = True, mmc_pm_flags = 1, pm_usage = 0,
        pm_disable_depth = 0, pm_active = False\<rparr>,
      shared_enet_device = 0, shared_spi_device = 0, hw_log = [], thread_started = True,
      thread_should_stop = False, thread_ended = False\<rparr>"

text \<open>A device whose reads end after 4104 bytes.\<close>

definition mmc_answer :: "nat \<Rightarrow> hw_call \<Rightarrow> hw_answer" where
  "mmc_answer n c = (case c of
     Kernel_read pos len \<Rightarrow>
       \<lparr>hw_code = int (min (unat len) 4104), hw_value = 0, hw_data = replicate (min (unat len) 4104) 0xAA\<rparr>
   | _ \<Rightarrow> \<lparr>hw_code = 0, hw_value = 512, hw_data = []\<rparr>)"

definition mmc_env :: "shdev_state shdev_env" where
  "mmc_env = drv_env.extend quiet_drv_env
     \<lparr>hw_answers = mmc_answer, mmc_devname = ''/dev/mmcblk0'', mmc_minors = 8, blkdev_get_by_dev = (\<lambda>m. 5),
      bdev_has_disk = (\<lambda>b. True), mmc_compatible_node = True, mmc_platform_device = True, mmc_amba_device = False,
      rpmb_devname = ''/dev/mmcblk0rpmb'', rpmb_has_ioctl = True, kmalloc_cmds = True, enet_node = True,
      enet_platform_device = 9, spi_node = True, spi_bus_device = 10, kthread_create = 0\<rparr>"

definition mmc_desc :: "u16 \<Rightarrow> shdev_desc" where
  "mmc_desc operation = \<lparr>d_id = SHDEV_DEVICE_TO_ID MMC_DEVICE,
     d_ns_to_s = \<lparr>m_operation = 0, m_device = 0, m_status = 0, m_value = 0\<rparr>,
     d_s_to_ns = \<lparr>m_operation = operation, m_device = 0, m_status = 0, m_value = 0\<rparr>,
     d_entry_offset = 116, d_entry_size = 32, d_data_offset = 4096, d_data_size = 4096\<rparr>"

lemma mmc_env_simps [simp]:
  "hw_answers mmc_env = mmc_answer" "mmc_devname mmc_env = ''/dev/mmcblk0''" "rpmb_has_ioctl mmc_env"
  "kmalloc_cmds mmc_env" "mmc_compatible_node mmc_env" "mmc_platform_device mmc_env"
  by (simp_all add: mmc_env_def drv_env.defs)

lemma mmc_env_calm [simp]: "calm mmc_env"
  by (simp add: calm_def mmc_env_def drv_env.defs quiet_drv_env_def quiet_smc_env_def quiet_env_def smc_env.defs env.defs)

lemma mmc_env_reads [simp]: "reads_bounded mmc_env"
  by (simp add: reads_bounded_def mmc_answer_def)

lemma mmc_state_simps [simp]:
  "shdev_shm_addr mmc_state = shm_base drv_example" "shm_base mmc_state = shm_base drv_example" "shm_nr_pages mmc_state = 100"
  "hw_log mmc_state = []" "shdev_mmc_bdev mmc_state = 5" "memory mmc_state k = 0"
  by (simp_all add: mmc_state_def drv.defs)

lemma mmc_state_load [simp]:
  "load n a mmc_state = replicate n 0" "load_u32 a mmc_state = 0" "load_u64 a mmc_state = 0" "be16_at a mmc_state = 0"
proof -
  show l: "load n a mmc_state = replicate n 0" for n a by (simp add: load_def map_replicate_const)
  show "load_u32 a mmc_state = 0" "load_u64 a mmc_state = 0" "be16_at a mmc_state = 0"
    by (simp_all add: load_u32_def load_u64_def be16_at_def l numeral_eq_Suc)
qed

theorem mmc_suspend_resume_balanced_witness:
  "rescan_disable (the_mmc_host (snd (mmcblk_suspend mmc_env mmc_state)))"
  using mmc_suspend_resume_balanced [where d = mmc_state, OF mmc_env_calm _ prod.collapse [symmetric] prod.collapse [symmetric]]
  by (simp add: mmc_ready_def mmcblk_get_device_def)

definition rpmb_state :: shdev_state where
  "rpmb_state = mmc_state\<lparr>memory := (\<lambda>k. if k = 4607 then 3 else 0)\<rparr>"

theorem rpmb_request_protocol_witness:
  "\<exists>r d' c0 c1 c2. mmcblk_remote_host_rpmb mmc_env (mmc_desc READ_DEVICE) rpmb_state = Some (r, d') \<and>
    hw_log d' = [Filp_open (rpmb_devname mmc_env), Filp_multi_cmd [c0, c1, c2], Filp_close] \<and>
    c_write_flag c0 = 0x80000001 \<and> map c_opcode [c0, c1, c2] = [25, 25, 18]"
proof -
  have request: "be16_at (shdev_shm_addr rpmb_state + ucast (d_data_offset (mmc_desc READ_DEVICE)) + 510) rpmb_state = 3"
    by (simp add: rpmb_state_def mmc_desc_def be16_at_def load_def mem_index_def upt_rec)
  have area: "in_area (shdev_shm_addr rpmb_state + ucast (d_data_offset (mmc_desc READ_DEVICE))) 512 rpmb_state"
    by (simp add: rpmb_state_def mmc_desc_def in_area_def mem_index_def PAGE_SIZE_def)
  show ?thesis
    using rpmb_request_protocol [where d = rpmb_state and desc = "mmc_desc READ_DEVICE",
      OF mmc_env_calm _ _ _ _ refl area request [symmetric] refl refl refl refl]
    by (auto simp: rpmb_state_def mmc_desc_def shdev_operations mmc_answer_def)
qed

theorem mmc_remote_confined_witness:
  "\<exists>r d'. mmcblk_remote_host mmc_env (mmc_desc READ_DEVICE) mmc_state = Some (r, d') \<and> memory d' 12288 = 0"
proof -
  have "in_area (shdev_shm_addr mmc_state + ucast (d_entry_offset (mmc_desc READ_DEVICE))) sizeof_shdev_mmc_entry mmc_state"
    "in_area (shdev_shm_addr mmc_state + ucast (d_data_offset (mmc_desc READ_DEVICE))) (unat (d_data_size (mmc_desc READ_DEVICE))) mmc_state"
    by (simp_all add: mmc_desc_def in_area_def mem_index_def shdev_sizes PAGE_SIZE_def)
  from mmc_remote_confined [OF mmc_env_calm mmc_env_reads refl refl this] show ?thesis
    by (fastforce simp: mmc_desc_def mem_index_def shdev_sizes RPMB_FRAME_SIZE_def)
qed

text \<open>A length of 4 GB and 8 bytes, for a buffer of 4096.\<close>

definition long_state :: shdev_state where
  "long_state = mmc_state\<lparr>memory := (\<lambda>k. if k = 140 then 8 else if k = 144 then 1 else 0)\<rparr>"

lemma long_state_loads:
  "load_u64 (shdev_shm_addr long_state + ucast (d_entry_offset (mmc_desc READ_DEVICE)) + 24) long_state = 0x100000008"
  "load_u32 (shdev_shm_addr long_state + ucast (d_entry_offset (mmc_desc READ_DEVICE)) + 4) long_state = 0"
  by (simp_all add: load_u64_def load_u32_def load_def mem_index_def long_state_def mmc_desc_def upt_rec push_bit_eq_mult)

theorem mmc_length_truncated_witness:
  "\<exists>d'. mmcblk_remote_host mmc_env (mmc_desc READ_DEVICE) long_state = Some (4104, d') \<and> memory d' 8192 = 0xAA"
proof -
  have "in_area (shdev_shm_addr long_state + ucast (d_entry_offset (mmc_desc READ_DEVICE))) sizeof_shdev_mmc_entry long_state"
    by (simp add: long_state_def mmc_desc_def in_area_def mem_index_def shdev_sizes PAGE_SIZE_def)
  from mmc_length_truncated [where d = long_state and desc = "mmc_desc READ_DEVICE",
      OF mmc_env_calm _ _ refl refl this _ long_state_loads(1) [symmetric] _ _ _ refl]
  show ?thesis
    using long_state_loads(2)
    by (simp add: mmc_desc_def shdev_operations mmc_answer_def MMC_PART_USER_def MAX_RW_COUNT_def in_area_def mem_index_def
        long_state_def PAGE_SIZE_def)
qed

end
