(* ===== verification/PncNetSpi.thy ===== *)
theory PncNetSpi
  imports PncMmc
begin

text \<open>
  The shared Ethernet and SPI devices (\<open>drivers/provencore/shdev/enetdev.c\<close> and \<open>spidev.c\<close>). Both look their device
  up once and keep it; the contract of such a lookup, and what it means for suspend and resume, is a locale.
\<close>

subsection \<open>Ethernet\<close>

definition enetdev_get ::
  "('s, 'b) shdev_env_scheme \<Rightarrow> 'a shdev_state_scheme \<Rightarrow> u64 \<times> 'a shdev_state_scheme" where
  "enetdev_get e d =
     (if shared_enet_device d \<noteq> 0 then (shared_enet_device d, d)
      else if \<not> enet_node e then (0, d)
      else
        let pdev = enet_platform_device e
        in if pdev = 0 then (0, d) else (pdev, d\<lparr>shared_enet_device := pdev\<rparr>))"

definition enetdev_suspend ::
  "('a shdev_state_scheme, 'b) shdev_env_scheme \<Rightarrow> 'a shdev_state_scheme \<Rightarrow> int \<times> 'a shdev_state_scheme" where
  "enetdev_suspend e d =
     (let (dev, d) = enetdev_get e d
      in if dev = 0 then (- ENODEV, d)
         else let (a, d) = hw e (Enet_ioctl dev True) d in (hw_code a, d))"

definition enetdev_resume ::
  "('a shdev_state_scheme, 'b) shdev_env_scheme \<Rightarrow> 'a shdev_state_scheme \<Rightarrow> int \<times> 'a shdev_state_scheme" where
  "enetdev_resume e d =
     (let (dev, d) = enetdev_get e d
      in if dev = 0 then (- ENODEV, d)
         else let (a, d) = hw e (Enet_ioctl dev False) d in (hw_code a, d))"

subsection \<open>SPI\<close>

definition spidev_get ::
  "('s, 'b) shdev_env_scheme \<Rightarrow> 'a shdev_state_scheme \<Rightarrow> u64 \<times> 'a shdev_state_scheme" where
  "spidev_get e d =
     (if shared_spi_device d \<noteq> 0 then (shared_spi_device d, d)
      else if \<not> spi_node e then (0, d)
      else
        let dev = spi_bus_device e
        in if dev = 0 then (0, d) else (dev, d\<lparr>shared_spi_device := dev\<rparr>))"

definition spidev_suspend ::
  "('a shdev_state_scheme, 'b) shdev_env_scheme \<Rightarrow> 'a shdev_state_scheme \<Rightarrow> int \<times> 'a shdev_state_scheme" where
  "spidev_suspend e d =
     (let (dev, d) = spidev_get e d
      in if dev = 0 then (- ENODEV, d)
         else let (a, d) = hw e (Spi_master_suspend dev) d in (hw_code a, d))"

definition spidev_resume ::
  "('a shdev_state_scheme, 'b) shdev_env_scheme \<Rightarrow> 'a shdev_state_scheme \<Rightarrow> int \<times> 'a shdev_state_scheme" where
  "spidev_resume e d =
     (let (dev, d) = spidev_get e d
      in if dev = 0 then (- ENODEV, d)
         else let (a, d) = hw e (Spi_master_resume dev) d in (hw_code a, d))"

subsection \<open>A lookup that is kept\<close>

text \<open>
  \<open>get\<close> returns a device or 0, \<open>kept\<close> is the device kept in the state. \<open>suspend\<close> and \<open>resume\<close> make one call each on
  the device, or fail without one.
\<close>

locale kept_device =
  fixes get :: "'e \<Rightarrow> 'd \<Rightarrow> u64 \<times> 'd"
    and kept :: "'d \<Rightarrow> u64"
  assumes get_kept: "kept d \<noteq> 0 \<Longrightarrow> get e d = (kept d, d)"
    and get_keeps: "get e d = (dev, d') \<Longrightarrow> kept d' = dev"
begin

lemma get_again: "get e d = (dev, d') \<Longrightarrow> dev \<noteq> 0 \<Longrightarrow> get e' d' = (dev, d')"
  using get_keeps [of e d dev d'] get_kept [of d' e'] by simp

end

locale paired_device = kept_device get kept
  for get :: "'e \<Rightarrow> 'd \<Rightarrow> u64 \<times> 'd" and kept :: "'d \<Rightarrow> u64" +
  fixes suspend resume :: "'e \<Rightarrow> 'd \<Rightarrow> int \<times> 'd"
    and log :: "'d \<Rightarrow> 'c list"
    and down_call up_call :: "u64 \<Rightarrow> 'c"
    and quiet :: "'e \<Rightarrow> bool"
  assumes suspend_calls: "quiet e \<Longrightarrow> get e d = (dev, d1) \<Longrightarrow> suspend e d = (r, d') \<Longrightarrow>
      (dev = 0 \<and> r = - ENODEV \<and> log d' = log d) \<or> (dev \<noteq> 0 \<and> kept d' = dev \<and> log d' = log d @ [down_call dev])"
    and resume_calls: "quiet e \<Longrightarrow> get e d = (dev, d1) \<Longrightarrow> resume e d = (r, d') \<Longrightarrow>
      (dev = 0 \<and> r = - ENODEV \<and> log d' = log d) \<or> (dev \<noteq> 0 \<and> kept d' = dev \<and> log d' = log d @ [up_call dev])"
begin

lemma same_device:
  assumes "quiet e" "quiet e'" "suspend e d = (r, d1)" "resume e' d1 = (r', d2)" "log d1 \<noteq> log d"
  shows "\<exists>dev. dev \<noteq> 0 \<and> log d2 = log d @ [down_call dev, up_call dev]"
proof -
  obtain dev da where g: "get e d = (dev, da)" by fastforce
  then have s: "dev \<noteq> 0" "kept d1 = dev" "log d1 = log d @ [down_call dev]"
    using suspend_calls [OF assms(1) g assms(3)] assms(5) by auto
  then have "get e' d1 = (dev, d1)" using get_kept [of d1 e'] by simp
  from resume_calls [OF assms(2) this assms(4)] s show ?thesis by auto
qed

end

interpretation enet: paired_device enetdev_get shared_enet_device enetdev_suspend enetdev_resume hw_log
  "\<lambda>dev. Enet_ioctl dev True" "\<lambda>dev. Enet_ioctl dev False" calm
  by unfold_locales
    (auto simp: enetdev_get_def enetdev_suspend_def enetdev_resume_def hw_def yield_calm Let_def split: if_splits)

interpretation spi: paired_device spidev_get shared_spi_device spidev_suspend spidev_resume hw_log
  Spi_master_suspend Spi_master_resume calm
  by unfold_locales
    (auto simp: spidev_get_def spidev_suspend_def spidev_resume_def hw_def yield_calm Let_def split: if_splits)

text \<open>
  The device that was suspended is the one that is resumed: once a suspend of Ethernet or SPI has reached a device,
  the next resume goes to the same device, whatever the device tree answers by then.
\<close>

theorem bus_device_resumed:
  fixes e e' :: "('a shdev_state_scheme, 'b) shdev_env_scheme"
  assumes "calm e" "calm e'"
    and "enetdev_suspend e d = (r, d1) \<and> enetdev_resume e' d1 = (r', d2) \<or>
      spidev_suspend e d = (r, d1) \<and> spidev_resume e' d1 = (r', d2)"
    and "hw_log d1 \<noteq> hw_log d"
  shows "\<exists>dev. dev \<noteq> 0 \<and> (hw_log d2 = hw_log d @ [Enet_ioctl dev True, Enet_ioctl dev False] \<or>
    hw_log d2 = hw_log d @ [Spi_master_suspend dev, Spi_master_resume dev])"
  using assms enet.same_device [OF assms(1,2) _ _ assms(4)] spi.same_device [OF assms(1,2) _ _ assms(4)] by metis

end
