(* ===== verification/PncShdev.thy ===== *)
theory PncShdev
  imports PncMmc_Props PncNetSpi
begin

text \<open>
  The monitor of the shared devices (\<open>drivers/provencore/shdev/shdev.c\<close>), with eMMC, Ethernet and SPI all configured.
  It is a user of the session API: a kernel thread that configures one session and turns the signals of the secure
  world into work, and the work itself, which runs the operation a descriptor asks for and writes the answer.
\<close>

subsection \<open>The operations of a device\<close>

definition ops_suspend ::
  "('a shdev_state_scheme, 'b) shdev_env_scheme \<Rightarrow> shdev_ops \<Rightarrow> 'a shdev_state_scheme \<Rightarrow> int \<times> 'a shdev_state_scheme" where
  "ops_suspend e ops d =
     (case ops of Mmcblk_ops \<Rightarrow> mmcblk_suspend e d | Enetdev_ops \<Rightarrow> enetdev_suspend e d | Spidev_ops \<Rightarrow> spidev_suspend e d)"

definition ops_resume ::
  "('a shdev_state_scheme, 'b) shdev_env_scheme \<Rightarrow> shdev_ops \<Rightarrow> 'a shdev_state_scheme \<Rightarrow> int \<times> 'a shdev_state_scheme" where
  "ops_resume e ops d =
     (case ops of Mmcblk_ops \<Rightarrow> mmcblk_resume e d | Enetdev_ops \<Rightarrow> enetdev_resume e d | Spidev_ops \<Rightarrow> spidev_resume e d)"

text \<open>\<open>select\<close>, \<open>read\<close>, \<open>write\<close> and \<open>rpmb\<close>: one function for the eMMC, \<open>NULL\<close> for the others (nothing is done).\<close>

definition ops_transfer ::
  "('a shdev_state_scheme, 'b) shdev_env_scheme \<Rightarrow> shdev_ops \<Rightarrow> shdev_desc \<Rightarrow> 'a shdev_state_scheme
     \<Rightarrow> (int \<times> 'a shdev_state_scheme) option" where
  "ops_transfer e ops desc d = (case ops of Mmcblk_ops \<Rightarrow> mmcblk_remote_host e desc d | _ \<Rightarrow> Some (0, d))"

text \<open>The \<open>switch\<close> of \<open>device_work_func\<close>; \<open>None\<close> for an access outside the shared area.\<close>

definition device_operation ::
  "('a shdev_state_scheme, 'b) shdev_env_scheme \<Rightarrow> shdev_ops \<Rightarrow> shdev_desc \<Rightarrow> 'a shdev_state_scheme
     \<Rightarrow> (int \<times> 'a shdev_state_scheme) option" where
  "device_operation e ops desc d =
     (let operation = m_operation (d_s_to_ns desc)
      in if operation = SUSPEND_DEVICE then Some (ops_suspend e ops d)
         else if operation = RESUME_DEVICE then Some (ops_resume e ops d)
         else if operation \<in> {SELECT_DEVICE, READ_DEVICE, WRITE_DEVICE, RPMB_DEVICE} then ops_transfer e ops desc d
         else Some (- ENOSYS, d))"

subsection \<open>The work of a device\<close>

text \<open>The answer: the request, marked as a status, with the absolute value of the result in 16 bits.\<close>

definition write_status :: "u64 \<Rightarrow> shdev_message \<Rightarrow> int \<Rightarrow> 'a drv_scheme \<Rightarrow> 'a drv_scheme" where
  "write_status mptr m ret d =
     (let d = store mptr (bytes_of_message m) d;
          d = store_u16 (mptr + 4) 1 d
      in store_u16 (mptr + 6) (of_int (if ret < 0 then - ret else ret)) d)"

definition device_work_func ::
  "('a shdev_state_scheme, 'b) shdev_env_scheme \<Rightarrow> nat \<Rightarrow> 'a shdev_state_scheme \<Rightarrow> 'a shdev_state_scheme option" where
  "device_work_func e w d =
     (let dev_ptr = shdev_devices d ! w;
          index = SHDEV_ID_TO_DEVICE (sd_id dev_ptr)
      in if NUM_DEVICES \<le> index then Some d
      else
        let desc = load_desc (desc_addr (shdev_infos_ptr d) index) d
        in if d_id desc \<noteq> sd_id dev_ptr then Some d
        else
          do {
            (ret, d) \<leftarrow> device_operation e (sd_ops dev_ptr) desc d;
            let mptr = desc_addr (shdev_infos_ptr d) index + 4;
            let d = write_status mptr (d_s_to_ns desc) ret d;
            i \<leftarrow> shdev_session d;
            (_, d) \<leftarrow> pnc_session_send_signal e i (sd_signal_msg dev_ptr) d;
            Some d
          })"

text \<open>Work that is queued is not queued again. It leaves the queue when it starts.\<close>

definition schedule_work :: "nat \<Rightarrow> 'a shdev_state_scheme \<Rightarrow> bool \<times> 'a shdev_state_scheme" where
  "schedule_work w d =
     (if shdev_work d ! w then (False, d) else (True, d\<lparr>shdev_work := (shdev_work d)[w := True]\<rparr>))"

definition flush_work ::
  "('a shdev_state_scheme, 'b) shdev_env_scheme \<Rightarrow> nat \<Rightarrow> 'a shdev_state_scheme \<Rightarrow> 'a shdev_state_scheme option" where
  "flush_work e w d =
     (if shdev_work d ! w then device_work_func e w (d\<lparr>shdev_work := (shdev_work d)[w := False]\<rparr>) else Some d)"

definition handle_signal ::
  "('a shdev_state_scheme, 'b) shdev_env_scheme \<Rightarrow> 'a shdev_state_scheme \<Rightarrow> 'a shdev_state_scheme option" where
  "handle_signal e d =
     do {
       i \<leftarrow> shdev_session d;
       (ret, signals, d) \<leftarrow> pnc_session_get_signal e i True d;
       (case signals of
          None \<Rightarrow> Some d
        | Some signals \<Rightarrow>
            if ret \<noteq> 0 then Some d
            else
              let d = (if signals AND SHDEV_SIGNAL SIGNAL_MMC_MESSAGE \<noteq> 0 then snd (schedule_work MMC_DEVICE d) else d);
                  d = (if signals AND SHDEV_SIGNAL SIGNAL_ENET_MESSAGE \<noteq> 0 then snd (schedule_work ENET_DEVICE d) else d);
                  d = (if signals AND SHDEV_SIGNAL SIGNAL_SPI_MESSAGE \<noteq> 0 then snd (schedule_work SPI_DEVICE d) else d)
              in Some d)
     }"

subsection \<open>Configuration\<close>

definition dev_monitor :: "u8 list" where
  "dev_monitor = map of_char ''dev_monitor''"

text \<open>The loop at \<open>session_config\<close>; \<open>msleep\<close> lets the others run.\<close>

partial_function (option) session_config ::
  "('a shdev_state_scheme, 'b) shdev_env_scheme \<Rightarrow> nat \<Rightarrow> 'a shdev_state_scheme \<Rightarrow> (int \<times> 'a shdev_state_scheme) option" where
  "session_config e i d =
     do {
       (ret, d) \<leftarrow> pnc_session_config_by_name e i (Some dev_monitor) d;
       if ret = - EAGAIN \<or> ret = - ENOENT then session_config e i (yield e d) else Some (ret, d)
     }"

text \<open>The layout of the shared memory; the result is the offset after the structures and the one after the data.\<close>

definition write_layout :: "u64 \<Rightarrow> 'a drv_scheme \<Rightarrow> u32 \<times> u32 \<times> 'a drv_scheme" where
  "write_layout infos d =
     (let d = store_u32 infos SHDEV_MAGIC_INFOS d;
          d = store_u32 (infos + 4) (of_nat NUM_DEVICES) d;
          data_offset = SHDEV_PAGES * of_nat PAGE_SIZE;
          infos_offset = of_nat sizeof_shdev_infos;
          desc = desc_addr infos MMC_DEVICE;
          d = store_u32 desc (SHDEV_DEVICE_TO_ID MMC_DEVICE) d;
          d = store_u32 (desc + 20) infos_offset d;
          d = store_u32 (desc + 24) (of_nat sizeof_shdev_mmc_entry) d;
          infos_offset = infos_offset + load_u32 (desc + 24) d;
          d = store_u32 (desc + 28) data_offset d;
          d = store_u32 (desc + 32) (SHDEV_MMC_PAGES * of_nat PAGE_SIZE) d;
          data_offset = data_offset + load_u32 (desc + 32) d;
          d = store_u32 (desc_addr infos ENET_DEVICE) (SHDEV_DEVICE_TO_ID ENET_DEVICE) d;
          d = store_u32 (desc_addr infos SPI_DEVICE) (SHDEV_DEVICE_TO_ID SPI_DEVICE) d
      in (infos_offset, data_offset, d))"

definition config_err ::
  "('a shdev_state_scheme, 'b) shdev_env_scheme \<Rightarrow> int \<Rightarrow> 'a shdev_state_scheme \<Rightarrow> (int \<times> 'a shdev_state_scheme) option" where
  "config_err e ret d = do { d \<leftarrow> pnc_session_close e (shdev_session d) d; Some (ret, d) }"

text \<open>The part from \<open>pnc_session_get_mem\<close> on.\<close>

definition configure_memory ::
  "('a shdev_state_scheme, 'b) shdev_env_scheme \<Rightarrow> nat \<Rightarrow> 'a shdev_state_scheme \<Rightarrow> (int \<times> 'a shdev_state_scheme) option" where
  "configure_memory e i d =
     do {
       (ret, mem) \<leftarrow> pnc_session_get_mem (Some i) d;
       (case mem of
          None \<Rightarrow> config_err e ret d
        | Some (addr, shm_size) \<Rightarrow>
            let d = d\<lparr>shdev_shm_addr := addr, shdev_infos_ptr := addr\<rparr>;
                (infos_offset, data_offset, d) = write_layout addr d
            in if SHDEV_PAGES * of_nat PAGE_SIZE < infos_offset then config_err e (- EFAULT) d
               else if shm_size < ucast data_offset then config_err e (- EFAULT) d
               else do {
                 (ret, d) \<leftarrow> pnc_session_send_signal e i (SHDEV_SIGNAL SIGNAL_READY) d;
                 if ret \<noteq> 0 then config_err e ret d else Some (0, d)
               })
     }"

definition configure ::
  "('a shdev_state_scheme, 'b) shdev_env_scheme \<Rightarrow> 'a shdev_state_scheme \<Rightarrow> (int \<times> 'a shdev_state_scheme) option" where
  "configure e d =
     do {
       (ret, session, d) \<leftarrow> pnc_session_open e d;
       (case session of
          None \<Rightarrow> Some (ret, d)
        | Some i \<Rightarrow> do {
            let d = d\<lparr>shdev_session := Some i\<rparr>;
            (ret, d) \<leftarrow> pnc_session_alloc e i (ucast (SHDEV_PAGES + SHDEV_MMC_PAGES) * of_nat PAGE_SIZE) d;
            if ret \<noteq> 0 then config_err e ret d
            else
              let (ret, version) = pnc_session_get_version (Some i) True d
              in case version of
                   None \<Rightarrow> config_err e ret d
                 | Some version \<Rightarrow>
                     if version < 0x303 then config_err e ret d
                     else do {
                       (ret, d) \<leftarrow> session_config e i d;
                       if ret \<noteq> 0 then config_err e ret d else configure_memory e i d
                     }
          })
     }"

subsection \<open>The thread\<close>

text \<open>
  Where the thread is: at \<open>monitor_restart\<close>, at the start of its loop, or ended. A step is the code from one of these
  places to the next; before each the other threads may run.
\<close>

datatype thread_pc = Monitor_restart | Monitor_loop | Thread_ended int

definition NO_TIMEOUT_EVENTS :: u32 where
  "NO_TIMEOUT_EVENTS = EVENT_PENDING_SIGNAL OR EVENT_PENDING_REQUEST"

fun thread_step ::
  "('a shdev_state_scheme, 'b) shdev_env_scheme \<Rightarrow> thread_pc \<Rightarrow> 'a shdev_state_scheme
     \<Rightarrow> (thread_pc \<times> 'a shdev_state_scheme) option" where
  "thread_step e (Thread_ended r) d = Some (Thread_ended r, d)"
| "thread_step e Monitor_restart d =
     (let d = yield e d
      in if thread_should_stop d then Some (Thread_ended 0, d)
         else do {
           (ret, d) \<leftarrow> configure e d;
           Some (if ret \<noteq> 0 then (Thread_ended (-1), d) else (Monitor_loop, d))
         })"
| "thread_step e Monitor_loop d =
     (let d = yield e d
      in if thread_should_stop d then Some (Thread_ended 0, d)
         else do {
           i \<leftarrow> shdev_session d;
           (ret, events, d) \<leftarrow> pnc_session_wait_event e i True NO_TIMEOUT_EVENTS NO_TIMEOUT d;
           (if ret \<noteq> 0 then
              if ret = - ENODEV then do {
                d \<leftarrow> pnc_session_close e (shdev_session d) d;
                Some (Monitor_restart, d)
              }
              else if ret = - EPIPE then Some (Monitor_restart, d)
              else Some (Monitor_loop, d)
            else case events of
                None \<Rightarrow> Some (Monitor_loop, d)
              | Some events \<Rightarrow> do {
                  d \<leftarrow> (if events AND EVENT_PENDING_SIGNAL \<noteq> 0 then handle_signal e d else Some d);
                  Some (Monitor_loop, d)
                })
         })"

partial_function (option) shdev_thread_from ::
  "('a shdev_state_scheme, 'b) shdev_env_scheme \<Rightarrow> thread_pc \<Rightarrow> 'a shdev_state_scheme
     \<Rightarrow> (int \<times> 'a shdev_state_scheme) option" where
  "shdev_thread_from e pc d =
     (case pc of
        Thread_ended r \<Rightarrow> Some (r, d)
      | _ \<Rightarrow> do { (pc, d) \<leftarrow> thread_step e pc d; shdev_thread_from e pc d })"

definition shdev_thread ::
  "('a shdev_state_scheme, 'b) shdev_env_scheme \<Rightarrow> 'a shdev_state_scheme \<Rightarrow> (int \<times> 'a shdev_state_scheme) option" where
  "shdev_thread e d = shdev_thread_from e Monitor_restart d"

subsection \<open>Start and end\<close>

definition shdev_init ::
  "('s, 'b) shdev_env_scheme \<Rightarrow> 'a shdev_state_scheme \<Rightarrow> int \<times> 'a shdev_state_scheme" where
  "shdev_init e d =
     (let d = d\<lparr>shdev_devices :=
            [\<lparr>sd_id = SHDEV_DEVICE_TO_ID MMC_DEVICE, sd_signal_msg = SHDEV_SIGNAL SIGNAL_MMC_MESSAGE, sd_ops = Mmcblk_ops\<rparr>,
             \<lparr>sd_id = SHDEV_DEVICE_TO_ID ENET_DEVICE, sd_signal_msg = SHDEV_SIGNAL SIGNAL_ENET_MESSAGE, sd_ops = Enetdev_ops\<rparr>,
             \<lparr>sd_id = SHDEV_DEVICE_TO_ID SPI_DEVICE, sd_signal_msg = SHDEV_SIGNAL SIGNAL_SPI_MESSAGE, sd_ops = Spidev_ops\<rparr>],
            shdev_work := replicate NUM_DEVICES False\<rparr>
      in if kthread_create e < 0 then (kthread_create e, d)
         else (0, d\<lparr>thread_started := True\<rparr>))"

text \<open>\<open>kthread_stop\<close> asks the thread to end and waits until it has.\<close>

definition kthread_stop ::
  "('a shdev_state_scheme, 'b) shdev_env_scheme \<Rightarrow> 'a shdev_state_scheme \<Rightarrow> 'a shdev_state_scheme option" where
  "kthread_stop e d = wait_event e thread_ended (d\<lparr>thread_should_stop := True\<rparr>)"

definition shdev_exit ::
  "('a shdev_state_scheme, 'b) shdev_env_scheme \<Rightarrow> 'a shdev_state_scheme \<Rightarrow> 'a shdev_state_scheme option" where
  "shdev_exit e d =
     do {
       d \<leftarrow> (if shdev_session d \<noteq> None then pnc_session_close e (shdev_session d) d else Some d);
       d \<leftarrow> kthread_stop e d;
       d \<leftarrow> flush_work e MMC_DEVICE d;
       d \<leftarrow> flush_work e ENET_DEVICE d;
       flush_work e SPI_DEVICE d
     }"

end
