(* ===== verification/PncShdev_Inv.thy ===== *)
theory PncShdev_Inv
  imports PncShdev
begin

text \<open>
  The monitor as a client of the session framework: whatever the hardware answers, every step of the thread, every work
  and the start and end of the monitor keep the invariant of the framework.
\<close>

subsection \<open>Operations of the devices\<close>

lemma drv_inv_hw [simp]: "env_keeps drv_inv e \<Longrightarrow> drv_inv d \<Longrightarrow> drv_inv (snd (hw e c d))"
  using drv_inv_yield [of e d] by (simp add: hw_def drv_inv_def)

lemma drv_inv_store [simp]: "drv_inv (store a bs d) = drv_inv d"
  by (simp add: store_def)

lemma drv_inv_store_ints [simp]:
  "drv_inv (store_u16 a x d) = drv_inv d" "drv_inv (store_u32 a y d) = drv_inv d" "drv_inv (store_u64 a z d) = drv_inv d"
  by (simp_all add: mem_ints)

lemma drv_inv_shdev_simps [simp]:
  "drv_inv (d\<lparr>shdev_shm_addr := a\<rparr>) = drv_inv d" "drv_inv (d\<lparr>shdev_session := s\<rparr>) = drv_inv d"
  "drv_inv (d\<lparr>shdev_infos_ptr := p\<rparr>) = drv_inv d" "drv_inv (d\<lparr>shdev_devices := ds\<rparr>) = drv_inv d"
  "drv_inv (d\<lparr>shdev_work := w\<rparr>) = drv_inv d" "drv_inv (d\<lparr>mmc_block_minor := m\<rparr>) = drv_inv d"
  "drv_inv (d\<lparr>shdev_mmc_bdev := b\<rparr>) = drv_inv d" "drv_inv (d\<lparr>the_mmc_host := h\<rparr>) = drv_inv d"
  "drv_inv (d\<lparr>shared_enet_device := n\<rparr>) = drv_inv d" "drv_inv (d\<lparr>shared_spi_device := i\<rparr>) = drv_inv d"
  "drv_inv (d\<lparr>thread_started := t\<rparr>) = drv_inv d" "drv_inv (d\<lparr>thread_should_stop := u\<rparr>) = drv_inv d"
  by (simp_all add: drv_inv_def)

lemma drv_inv_gets [simp]:
  "drv_inv d \<Longrightarrow> drv_inv (snd (mmcblk_get e d))" "drv_inv d \<Longrightarrow> drv_inv (snd (enetdev_get e d))"
  "drv_inv d \<Longrightarrow> drv_inv (snd (spidev_get e d))" "drv_inv d \<Longrightarrow> drv_inv (mmcblk_pm_runtime_disable e d)"
  "drv_inv d \<Longrightarrow> drv_inv (mmcblk_pm_runtime_enable e d)"
  by (auto simp: mmcblk_get_def enetdev_get_def spidev_get_def mmcblk_pm_runtime_disable_def
      mmcblk_pm_runtime_enable_def Let_def split: option.splits)

lemma wlp_checked [simp]:
  "wlp (put_bytes a bs d) Q = (in_area a (length bs) d \<longrightarrow> Q (store a bs d))"
  "wlp (put_u64 a x d) Q = (in_area a 8 d \<longrightarrow> Q (store_u64 a x d))"
  "wlp (get_bytes n a d) Q1 = (in_area a n d \<longrightarrow> Q1 (load n a d))"
  "wlp (get_u32 a d) Q2 = (in_area a 4 d \<longrightarrow> Q2 (load_u32 a d))"
  "wlp (get_u64 a d) Q3 = (in_area a 8 d \<longrightarrow> Q3 (load_u64 a d))"
  "wlp (get_be16 a d) Q4 = (in_area a 2 d \<longrightarrow> Q4 (be16_at a d))"
  by (simp_all add: checked_access get_be16_def)

lemma drv_inv_remote [simp]:
  assumes "env_keeps drv_inv e" "drv_inv d"
  shows "wlp (rpmb_select e a d) (\<lambda>x. drv_inv (snd x))" "wlp (rpmb_execute e a d) (\<lambda>x. drv_inv (snd x))"
    "wlp (remote_select e a d) (\<lambda>x. drv_inv (snd x))" "wlp (remote_transfer e w desc a d) (\<lambda>x. drv_inv (snd x))"
  using assms
  by (auto simp: rpmb_select_def rpmb_execute_def store_answer_def remote_select_def remote_transfer_def Let_def case_prod_beta
      split: option.splits cmd_buffer.splits)

lemma drv_inv_operation [simp]:
  assumes "env_keeps drv_inv e" "drv_inv d"
  shows "wlp (device_operation e ops desc d) (\<lambda>x. drv_inv (snd x))"
proof -
  have close: "wlp m (\<lambda>x. drv_inv (snd (hw e c (snd x))))" if "wlp m (\<lambda>x. drv_inv (snd x))" for m :: "(int \<times> _) option" and c
    by (rule wlp_mono [OF that]) (use assms(1) in auto)
  have "wlp (mmcblk_remote_host_rpmb e desc d) (\<lambda>x. drv_inv (snd x))"
    using assms close by (auto simp: mmcblk_remote_host_rpmb_def Let_def case_prod_beta)
  then have "wlp (mmcblk_remote_host e desc d) (\<lambda>x. drv_inv (snd x))"
    using assms by (auto simp: mmcblk_remote_host_def Let_def)
  moreover have "drv_inv (snd (ops_suspend e ops d))" "drv_inv (snd (ops_resume e ops d))"
    using assms
    by (auto simp: ops_suspend_def ops_resume_def mmcblk_suspend_def mmcblk_resume_def enetdev_suspend_def
        enetdev_resume_def spidev_suspend_def spidev_resume_def Let_def case_prod_beta split: shdev_ops.splits option.splits)
  ultimately show ?thesis
    using assms by (auto simp: device_operation_def ops_transfer_def Let_def case_prod_beta split: shdev_ops.splits)
qed

subsection \<open>Work, configuration and thread\<close>

lemma drv_inv_write_status [simp]: "drv_inv (write_status a m r d) = drv_inv d"
  by (simp add: write_status_def Let_def)

lemma wlp_device_work:
  assumes "env_keeps drv_inv e" "drv_inv d"
  shows "wlp (device_work_func e w d) drv_inv" "wlp (flush_work e w d) drv_inv"
proof -
  have *: "wlp (device_work_func e w d) drv_inv" if "drv_inv d" for d
  proof -
    have operation: "wlp (device_operation e ops desc d) R" if "\<And>r d. drv_inv d \<Longrightarrow> R (r, d)" for ops desc R
      by (rule wlp_mono [OF drv_inv_operation [OF assms(1) \<open>drv_inv d\<close>]]) (use that in auto)
    show ?thesis
      unfolding device_work_func_def Let_def case_prod_beta
      using assms(1) that by (auto intro!: operation wlp_api_code wlp_any [of _ "shdev_session _"])
  qed
  show "wlp (device_work_func e w d) drv_inv" "wlp (flush_work e w d) drv_inv"
    using * assms(2) by (auto simp: flush_work_def)
qed

lemma drv_inv_schedule [simp]: "drv_inv (snd (schedule_work w d)) = drv_inv d"
  by (simp add: schedule_work_def)

lemma wlp_handle_signal [wlp_rules]:
  assumes "env_keeps drv_inv e" "drv_inv d" "\<And>d. drv_inv d \<Longrightarrow> Q d"
  shows "wlp (handle_signal e d) Q"
  unfolding handle_signal_def wlp_bind
proof (rule wlp_any)
  show "wlp (pnc_session_get_signal e i True d) (\<lambda>x. wlp (case x of (ret, signals, d) \<Rightarrow>
      (case signals of None \<Rightarrow> Some d
      | Some signals \<Rightarrow> if ret \<noteq> 0 then Some d
          else
            let d = (if signals AND SHDEV_SIGNAL SIGNAL_MMC_MESSAGE \<noteq> 0 then snd (schedule_work MMC_DEVICE d) else d);
                d = (if signals AND SHDEV_SIGNAL SIGNAL_ENET_MESSAGE \<noteq> 0 then snd (schedule_work ENET_DEVICE d) else d);
                d = (if signals AND SHDEV_SIGNAL SIGNAL_SPI_MESSAGE \<noteq> 0 then snd (schedule_work SPI_DEVICE d) else d)
            in Some d)) Q)" for i
    by (rule wlp_api_value [OF assms(1,2)]) (auto simp: assms(3) Let_def split: option.splits)
qed

lemma wlp_config_by_name [wlp_rules]:
  assumes "env_keeps drv_inv e" "drv_inv d" "\<And>r d. drv_inv d \<Longrightarrow> Q (r, d)"
  shows "wlp (pnc_session_config_by_name e i name d) Q"
  unfolding pnc_session_config_by_name_def using assms by (auto intro!: wlp_rules)

lemma session_config_inv:
  assumes "session_config e i d = Some x" "env_keeps drv_inv e" "drv_inv d"
  shows "drv_inv (snd x)"
  using assms(2,3)
proof (induction rule: session_config.raw_induct [OF _ assms(1), consumes 0])
  case (1 loop e i d x)
  have ih: "wlp (loop e i y) (\<lambda>x. drv_inv (snd x))" if "drv_inv y" for y
    using 1(1) [OF _ 1(3) that] by (auto simp: wlp_iff)
  have "wlp (pnc_session_config_by_name e i (Some dev_monitor) d)
      (\<lambda>(ret, d). wlp (if ret = - EAGAIN \<or> ret = - ENOENT then loop e i (yield e d) else Some (ret, d))
        (\<lambda>x. drv_inv (snd x)))"
    using 1(3,4) by (auto intro!: wlp_rules ih)
  then show ?case using 1(2) by (cases x; auto simp: wlp_def split: option.splits bind_splits)
qed

lemma wlp_session_config [wlp_rules]:
  assumes "env_keeps drv_inv e" "drv_inv d" "\<And>r d. drv_inv d \<Longrightarrow> Q (r, d)"
  shows "wlp (session_config e i d) Q"
  using session_config_inv [OF _ assms(1,2)] assms(3) by (auto simp: wlp_iff)

lemma wlp_config_err [wlp_rules]:
  assumes "env_keeps drv_inv e" "drv_inv d" "\<And>r d. drv_inv d \<Longrightarrow> Q (r, d)"
  shows "wlp (config_err e ret d) Q"
  unfolding config_err_def using assms by (auto intro!: wlp_rules)

lemma drv_inv_layout [simp]: "write_layout a d = (x, y, d') \<Longrightarrow> drv_inv d' = drv_inv d"
  by (auto simp: write_layout_def Let_def)

lemma wlp_configure_memory [wlp_rules]:
  assumes "env_keeps drv_inv e" "drv_inv d" "\<And>r d. drv_inv d \<Longrightarrow> Q (r, d)"
  shows "wlp (configure_memory e i d) Q"
  unfolding configure_memory_def wlp_bind
proof (rule wlp_any, clarify)
  fix ret and mem :: "(u64 \<times> u64) option"
  show "wlp (case mem of None \<Rightarrow> config_err e ret d
      | Some (addr, shm_size) \<Rightarrow>
          let d = d\<lparr>shdev_shm_addr := addr, shdev_infos_ptr := addr\<rparr>;
              (infos_offset, data_offset, d) = write_layout addr d
          in if SHDEV_PAGES * of_nat PAGE_SIZE < infos_offset then config_err e (- EFAULT) d
             else if shm_size < ucast data_offset then config_err e (- EFAULT) d
             else do {
               (ret, d) \<leftarrow> pnc_session_send_signal e i (SHDEV_SIGNAL SIGNAL_READY) d;
               if ret \<noteq> 0 then config_err e ret d else Some (0, d)
             }) Q"
    using assms by (auto simp: Let_def split: option.splits prod.splits intro!: wlp_rules)
qed

lemma wlp_configure [wlp_rules]:
  assumes "env_keeps drv_inv e" "drv_inv d" "\<And>r d. drv_inv d \<Longrightarrow> Q (r, d)"
  shows "wlp (configure e d) Q"
  unfolding configure_def
  using assms by (auto simp: Let_def split: option.splits prod.splits intro!: wlp_rules)

lemma wlp_thread_step:
  assumes "env_keeps drv_inv e" "drv_inv d"
  shows "wlp (thread_step e pc d) (\<lambda>(pc, d). drv_inv d)"
proof (cases pc)
  case Monitor_restart
  then show ?thesis using assms by (auto simp: Let_def intro!: wlp_rules)
next
  case Monitor_loop
  then show ?thesis
    using assms by (auto simp: Let_def split: option.splits intro!: wlp_any [of _ "shdev_session _"] wlp_rules)
qed (use assms in simp)

subsection \<open>Histories of the monitor\<close>

datatype monitor_event = Thread_runs | Work_runs nat | Shdev_starts | Shdev_ends | Others_run

inductive monitor_step :: "thread_pc \<times> shdev_state \<Rightarrow> monitor_event \<Rightarrow> thread_pc \<times> shdev_state \<Rightarrow> bool" where
  monitor_thread: "env_keeps drv_inv (e :: shdev_state shdev_env) \<Longrightarrow> thread_step e pc d = Some (pc', d') \<Longrightarrow>
    monitor_step (pc, d) Thread_runs (pc', d')"
| monitor_work: "env_keeps drv_inv (e :: shdev_state shdev_env) \<Longrightarrow> flush_work e w d = Some d' \<Longrightarrow> monitor_step (pc, d) (Work_runs w) (pc, d')"
| monitor_start: "shdev_init (e :: shdev_state shdev_env) d = (r, d') \<Longrightarrow> monitor_step (pc, d) Shdev_starts (Monitor_restart, d')"
| monitor_end: "env_keeps drv_inv (e :: shdev_state shdev_env) \<Longrightarrow> shdev_exit e d = Some d' \<Longrightarrow> monitor_step (pc, d) Shdev_ends (pc, d')"
| monitor_others: "env_keeps drv_inv (e :: shdev_state shdev_env) \<Longrightarrow> monitor_step (pc, d) Others_run (pc, yield e d)"

inductive_cases monitor_stepE: "monitor_step c ev c'"

fun_cases thread_endedE: "thread_step e (Thread_ended r) d = Some (pc, d')"

text \<open>A thread that has ended stays so.\<close>

lemma ended_thread_stays: "monitor_step (Thread_ended r, d) Thread_runs c \<Longrightarrow> c = (Thread_ended r, d)"
  by (erule monitor_stepE) (auto elim: thread_endedE)

lemma wlp_shdev_exit:
  assumes "env_keeps drv_inv e" "drv_inv d"
  shows "wlp (shdev_exit e d) drv_inv"
proof -
  have flush: "wlp (flush_work e w d) Q" if "drv_inv d" "\<And>d. drv_inv d \<Longrightarrow> Q d" for w d Q
    using wlp_device_work(2) [OF assms(1) that(1)] that(2) by (auto simp: wlp_iff)
  have stop: "wlp (kthread_stop e d) Q" if "drv_inv d" "\<And>d. drv_inv d \<Longrightarrow> Q d" for d Q
    unfolding kthread_stop_def using assms(1) that by (auto intro!: wlp_rules)
  show ?thesis
    unfolding shdev_exit_def using assms by (auto intro!: wlp_close flush stop)
qed

lemma monitor_step_inv:
  assumes "monitor_step c ev c'" "drv_inv (snd c)"
  shows "drv_inv (snd c')"
  using assms
proof cases
  case (monitor_thread e pc d pc' d')
  then show ?thesis using wlp_thread_step [of e d pc] assms(2) by (simp add: wlp_iff)
next
  case (monitor_work e w d d' pc)
  then show ?thesis using wlp_device_work(2) [of e d w] assms(2) by (simp add: wlp_iff)
next
  case (monitor_start e d r d' pc)
  then show ?thesis using assms(2) by (auto simp: shdev_init_def Let_def split: if_splits)
next
  case (monitor_end e d d' pc)
  then show ?thesis using wlp_shdev_exit [of e d] assms(2) by (simp add: wlp_iff)
next
  case (monitor_others e pc d)
  then show ?thesis using drv_inv_yield [of e d] assms(2) by simp
qed

text \<open>
  However its thread, its works, its start and its end are interleaved with each other and with the rest of the
  system, and whatever the devices answer, the monitor keeps the invariant of the session framework.
\<close>

lemma monitor_history_invariant:
  assumes "history monitor_step c events c'" and "drv_inv (snd c)"
  shows "drv_inv (snd c')"
  using history_invariant [of monitor_step c events c' "\<lambda>c. drv_inv (snd c)"] assms monitor_step_inv by blast

end
