(* ===== verification/PncShdev_Props.thy ===== *)
theory PncShdev_Props
  imports PncShdev_Inv
begin

text \<open>
  What the monitor of the shared devices does with a request of the secure world, how it lays out its memory, and what
  happens when its configuration fails.
\<close>

subsection \<open>What the operations leave alone\<close>

definition device_frame :: "'a shdev_state_scheme \<Rightarrow> 'a shdev_state_scheme \<Rightarrow> bool" where
  "device_frame d d' \<longleftrightarrow> d' = d\<lparr>tick := tick d', memory := memory d', hw_log := hw_log d',
     mmc_block_minor := mmc_block_minor d', shdev_mmc_bdev := shdev_mmc_bdev d', the_mmc_host := the_mmc_host d',
     shared_enet_device := shared_enet_device d', shared_spi_device := shared_spi_device d'\<rparr>"

lemma device_frame_trans:
  assumes "device_frame d d'" "device_frame d' d''"
  shows "device_frame d d''"
proof -
  obtain t m l n b h x y where d': "d' = d\<lparr>tick := t, memory := m, hw_log := l, mmc_block_minor := n, shdev_mmc_bdev := b,
      the_mmc_host := h, shared_enet_device := x, shared_spi_device := y\<rparr>"
    using assms(1) unfolding device_frame_def by metis
  show ?thesis using assms(2) unfolding device_frame_def d' by simp
qed

lemma device_frame_steps [simp]:
  "device_frame d d" "calm e \<Longrightarrow> device_frame d (snd (hw e c d))" "device_frame d (store a bs d)"
  "device_frame d (snd (mmcblk_get e d))" "device_frame d (snd (enetdev_get e d))"
  "device_frame d (snd (spidev_get e d))" "device_frame d (mmcblk_pm_runtime_disable e d)"
  "device_frame d (mmcblk_pm_runtime_enable e d)"
  by (auto simp: device_frame_def hw_calm store_def mmcblk_get_def enetdev_get_def spidev_get_def
      mmcblk_pm_runtime_disable_def mmcblk_pm_runtime_enable_def Let_def split: option.splits)

lemmas device_frame_intros =
  device_frame_trans [OF _ device_frame_steps(2)] device_frame_trans [OF _ device_frame_steps(3)]
  device_frame_trans [OF _ device_frame_steps(4)] device_frame_trans [OF _ device_frame_steps(5)]
  device_frame_trans [OF _ device_frame_steps(6)] device_frame_trans [OF _ device_frame_steps(7)]
  device_frame_trans [OF _ device_frame_steps(8)]

lemma device_frame_remote:
  assumes "calm e"
  shows "wlp (mmcblk_remote_host e desc d) (\<lambda>x. device_frame d (snd x))"
proof -
  have "device_frame d d1 \<Longrightarrow> wlp (rpmb_select e a d1) (\<lambda>x. device_frame d (snd (hw e c (snd x))))"
    "device_frame d d1 \<Longrightarrow> wlp (rpmb_execute e a d1) (\<lambda>x. device_frame d (snd (hw e c (snd x))))" for d1 a c
    using assms by (auto simp: rpmb_select_def rpmb_execute_def store_answer_def store_u64_def Let_def case_prod_beta
        split: option.splits cmd_buffer.splits intro!: device_frame_intros)
  then have "wlp (mmcblk_remote_host_rpmb e desc d) (\<lambda>x. device_frame d (snd x))"
    using assms by (auto simp: mmcblk_remote_host_rpmb_def Let_def case_prod_beta intro!: device_frame_intros)
  moreover have "wlp (remote_select e a d) (\<lambda>x. device_frame d (snd x))"
    "wlp (remote_transfer e w desc a d) (\<lambda>x. device_frame d (snd x))" for a w
    using assms by (auto simp: remote_select_def remote_transfer_def store_u64_def Let_def case_prod_beta
        split: option.splits intro!: device_frame_intros)
  ultimately show ?thesis by (simp add: mmcblk_remote_host_def Let_def)
qed

lemma device_frame_operation:
  assumes "calm e"
  shows "wlp (device_operation e ops desc d) (\<lambda>x. device_frame d (snd x))"
proof -
  have "device_frame d (snd (ops_suspend e ops d))" "device_frame d (snd (ops_resume e ops d))"
    using assms
    by (auto simp: ops_suspend_def ops_resume_def mmcblk_suspend_def mmcblk_resume_def enetdev_suspend_def
        enetdev_resume_def spidev_suspend_def spidev_resume_def Let_def case_prod_beta
        split: shdev_ops.splits option.splits intro!: device_frame_intros)
  then show ?thesis
    using device_frame_remote [OF assms]
    by (auto simp: device_operation_def ops_transfer_def Let_def case_prod_beta split: shdev_ops.splits)
qed

subsection \<open>The answer to a request\<close>

lemma send_signal_calm:
  assumes "calm e" "drv_inv d" "configured d i"
  shows "\<exists>d'. pnc_session_send_signal e i bits d = Some (0, d') \<and> memory d' = memory d \<and> shm_base d' = shm_base d \<and>
    drv.more d' = drv.more d \<and> signals_ns_to_s (shm d') = (signals_ns_to_s (shm d))[i := signals_ns_to_s (shm d) ! i OR bits]"
proof -
  have idx: "unat (s_index (sess d i)) = i" "i < REE_MAX_SESSIONS"
    using drv_inv_sess [OF assms(2)] assms(3) by (simp_all add: configured_def session_ok_def proto_consts)
  then show ?thesis
    using check_calm [OF assms] assms(2)
    by (simp add: pnc_session_send_signal_def raise_notification_Some drv_inv_def Let_def)
qed

lemma configured_memory [simp]: "configured (d\<lparr>memory := m\<rparr>) i = configured d i"
  by (simp add: configured_def pnc_shm_ready_def sess_def)

lemma device_frame_fields:
  assumes "device_frame d d'"
  shows "shdev_session d' = shdev_session d" "shdev_infos_ptr d' = shdev_infos_ptr d" "shm_base d' = shm_base d"
    "shm d' = shm d" "drv_inv d' = drv_inv d" "configured d' i = configured d i" "mem_index a d' = mem_index a d"
proof -
  obtain t m l n b h x y where d': "d' = d\<lparr>tick := t, memory := m, hw_log := l, mmc_block_minor := n, shdev_mmc_bdev := b,
      the_mmc_host := h, shared_enet_device := x, shared_spi_device := y\<rparr>"
    using assms unfolding device_frame_def by metis
  show "shdev_session d' = shdev_session d" "shdev_infos_ptr d' = shdev_infos_ptr d" "shm_base d' = shm_base d"
    "shm d' = shm d" "drv_inv d' = drv_inv d" "configured d' i = configured d i" "mem_index a d' = mem_index a d"
    by (simp_all add: d' drv_inv_def configured_def pnc_shm_ready_def sess_def mem_index_def)
qed

lemma load_store_bytes: "load n a (store a (le_bytes n x) d) = le_bytes n x"
  using load_store_same [of "le_bytes n x" a d] by simp

lemma write_status_memory:
  assumes "mem_index a d + 8 < 2 ^ 64"
  shows "load_message a (write_status a m r d) = m\<lparr>m_status := 1, m_value := of_int \<bar>r\<bar>\<rparr>"
    "same_outside {mem_index a d ..< mem_index a d + 8} d (write_status a m r d)"
    "write_status a m r d = d\<lparr>memory := memory (write_status a m r d)\<rparr>"
proof -
  let ?v = "of_int (if r < 0 then - r else r) :: u16"
  let ?d1 = "store a (bytes_of_message m) d"
  let ?d2 = "store_u16 (a + 4) 1 ?d1"
  let ?d3 = "store_u16 (a + 6) ?v ?d2"
  have d3: "write_status a m r d = ?d3" by (simp add: write_status_def Let_def)
  have idx: "mem_index (a + 2) d = mem_index a d + 2" "mem_index (a + 4) d = mem_index a d + 4"
    "mem_index (a + 6) d = mem_index a d + 6"
    using mem_index_add [of a d 2] mem_index_add [of a d 4] mem_index_add [of a d 6] assms by simp_all
  have len: "length (bytes_of_message m) = 8" by (simp add: bytes_of_message_def)
  have "load 8 a ?d1 = bytes_of_message m" using load_store_same [where bs = "bytes_of_message m"] len by simp
  from load_part [OF _ this, of 0 2] load_part [OF _ this, of 2 2] assms
  have first: "load 2 a ?d1 = le_bytes 2 (ucast (m_operation m))" "load 2 (a + 2) ?d1 = le_bytes 2 (ucast (m_device m))"
    by (simp_all add: bytes_of_message_def)
  have "load 2 a ?d3 = load 2 a ?d1" "load 2 (a + 2) ?d3 = load 2 (a + 2) ?d1" "load 2 (a + 4) ?d3 = load 2 (a + 4) ?d2"
    unfolding store_u16_def using idx by (simp_all add: load_store_other)
  moreover have "load 2 (a + 4) ?d2 = le_bytes 2 (ucast (1 :: u16))" "load 2 (a + 6) ?d3 = le_bytes 2 (ucast ?v)"
    unfolding store_u16_def by (simp_all only: load_store_bytes)
  moreover have "?v = of_int \<bar>r\<bar>" by (simp add: abs_if)
  ultimately show "load_message a (write_status a m r d) = m\<lparr>m_status := 1, m_value := of_int \<bar>r\<bar>\<rparr>"
    unfolding d3 load_message_def load_u16_def using first by (simp only: ucast_le) simp
  have "same_outside {mem_index a d ..< mem_index a d + 8} d ?d1"
    "same_outside {mem_index a d ..< mem_index a d + 8} ?d1 ?d2"
    "same_outside {mem_index a d ..< mem_index a d + 8} ?d2 ?d3"
    unfolding store_u16_def by (rule same_outside_store, use idx len in auto)+
  then show "same_outside {mem_index a d ..< mem_index a d + 8} d (write_status a m r d)"
    unfolding d3 using same_outside_trans by blast
  show "write_status a m r d = d\<lparr>memory := memory (write_status a m r d)\<rparr>"
    by (simp add: d3 store_u16_def store_def)
qed

text \<open>The work answers the request in its descriptor.\<close>

lemma device_work_reply:
  assumes "calm e" "drv_inv d" "configured d i" "shdev_session d = Some i"
    and "dev = shdev_devices d ! w" "index = SHDEV_ID_TO_DEVICE (sd_id dev)" "index < NUM_DEVICES"
    and "desc = load_desc (desc_addr (shdev_infos_ptr d) index) d" "d_id desc = sd_id dev"
    and "device_operation e (sd_ops dev) desc d = Some (ret, d1)"
    and "reply = desc_addr (shdev_infos_ptr d) index + 4" "mem_index reply d + 8 < 2 ^ 64"
  shows "\<exists>d'. device_work_func e w d = Some d' \<and>
    load_message reply d' = (d_s_to_ns desc)\<lparr>m_status := 1, m_value := of_int \<bar>ret\<bar>\<rparr> \<and>
    (\<forall>k. k < mem_index reply d \<or> mem_index reply d + 8 \<le> k \<longrightarrow> memory d' k = memory d1 k) \<and>
    signals_ns_to_s (shm d') ! i = signals_ns_to_s (shm d) ! i OR sd_signal_msg dev \<and> drv.more d' = drv.more d1"
proof -
  have "device_frame d d1" using device_frame_operation [OF assms(1), of "sd_ops dev" desc d] assms(10) by simp
  note same = device_frame_fields [OF this]
  let ?d2 = "write_status reply (d_s_to_ns desc) ret d1"
  have "mem_index reply d1 + 8 < 2 ^ 64" using assms(12) same(7) by simp
  note status = write_status_memory [OF this, of "d_s_to_ns desc" ret]
  have d2: "drv_inv ?d2" "configured ?d2 i" "shdev_session ?d2 = Some i" "shm ?d2 = shm d"
  proof -
    obtain m where "?d2 = d1\<lparr>memory := m\<rparr>" using status(3) by metis
    then show "drv_inv ?d2" "configured ?d2 i" "shdev_session ?d2 = Some i" "shm ?d2 = shm d"
      using assms(2-4) same by simp_all
  qed
  obtain d' where d': "pnc_session_send_signal e i (sd_signal_msg dev) ?d2 = Some (0, d')" "memory d' = memory ?d2"
    "shm_base d' = shm_base ?d2" "drv.more d' = drv.more ?d2"
    "signals_ns_to_s (shm d') = (signals_ns_to_s (shm ?d2))[i := signals_ns_to_s (shm ?d2) ! i OR sd_signal_msg dev]"
    using send_signal_calm [OF assms(1) d2(1,2)] by blast
  have "device_work_func e w d = Some d'"
    using assms(5-11) d2(3) d'(1) same(2) by (simp add: device_work_func_def Let_def)
  moreover have "load_message reply d' = load_message reply ?d2"
    using d'(2,3) by (simp add: load_message_def load_u16_def load_def mem_index_def)
  moreover have "i < length (signals_ns_to_s (shm d))"
    using assms(2,3) by (simp add: drv_inv_def configured_def)
  moreover have "drv.more ?d2 = drv.more d1"
  proof -
    obtain m where "?d2 = d1\<lparr>memory := m\<rparr>" using status(3) by metis
    then show ?thesis by simp
  qed
  ultimately show ?thesis
    using status(1,2) d' d2(4) same(7) by (auto simp: same_outside_def)
qed

subsection \<open>The variables of the monitor\<close>

text \<open>The session API does not touch what extends the record of the framework.\<close>

named_theorems more_rules \<open>operations that keep the extension of the state\<close>

definition more_is :: "'a \<Rightarrow> 'a drv_scheme \<Rightarrow> bool" where
  "more_is m d \<longleftrightarrow> drv.more d = m"

lemma more_is_simps [simp]:
  "more_is m (tick_update f d) = more_is m d" "more_is m (heap_update h d) = more_is m d"
  "more_is m (shm_sem_update f d) = more_is m d" "more_is m (shm_update s d) = more_is m d"
  "more_is m (smc_log_update l d) = more_is m d" "more_is m (ns_to_s_ring_update p d) = more_is m d"
  "more_is m (upd_sess i u d) = more_is m d" "more_is m (upd_sem i f d) = more_is m d"
  "more_is m (up_session i d) = more_is m d" "more_is m (clear_ns_to_s_signals x d) = more_is m d"
  "more_is m (write_ns_message e msg d) = more_is m d"
  by (simp_all add: more_is_def upd_sess_def upd_sem_def up_session_def clear_ns_to_s_signals_def write_ns_message_def
      Let_def split: prod.splits)

lemma more_is_env [simp]: "calm e \<Longrightarrow> env_keeps (more_is m) e" "tick_free (more_is m)"
  by (simp_all add: env_keeps_def calm_def tick_free_def)

lemma more_down [more_rules]:
  assumes "calm e" "more_is m d" "\<And>r d. more_is m d \<Longrightarrow> Q (r, d)"
  shows "wlp (down_session_interruptible e i d) Q"
  unfolding down_session_interruptible_def
  by (rule wlp_down_interruptible [where P = "more_is m"]) (use assms in simp_all)

lemma more_shm_free [more_rules]:
  assumes "calm e" "more_is m d" "\<And>r d. more_is m d \<Longrightarrow> Q (r, d)"
  shows "wlp (pnc_shm_free e b d) Q"
proof (cases b)
  case (Some p)
  have "wlp (shm_free_locked p d) (\<lambda>d. Q (0, d\<lparr>shm_sem := shm_sem d + 1\<rparr>))" if "more_is m d" for d
    using assms(3) that by (simp add: shm_free_locked_def split: option.splits)
  then show ?thesis
    unfolding Some pnc_shm_free_def
    by (simp del: split_paired_All)
      (intro impI wlp_down_interruptible [where P = "more_is m"], use assms in \<open>simp_all add: case_prod_beta\<close>)
qed (use assms in \<open>simp add: pnc_shm_free_def\<close>)

lemma more_check [more_rules]:
  assumes "calm e" "more_is m d" "\<And>r d. more_is m d \<Longrightarrow> Q (r, d)"
  shows "wlp (check_session_configured e i d) Q" "wlp (check_and_handle_terminated_session e i d) Q"
  unfolding check_session_configured_def check_and_handle_terminated_session_def Let_def
  using assms by (auto simp: lock_sessions_def yield_calm intro!: more_rules)

lemma more_wait_event [more_rules]:
  assumes "calm e" "more_is m d" "\<And>r d. more_is m d \<Longrightarrow> Q (r, d)"
  shows "wlp (wait_event_interruptible e to cond d) Q"
  by (rule wlp_wait_event_interruptible [where P = "more_is m"]) (use assms in simp_all)

lemma more_wait [more_rules]:
  assumes "calm e" "more_is m d" "\<And>r v d. more_is m d \<Longrightarrow> Q (r, v, d)"
  shows "wlp (wait_session_event e i ev t d) Q"
  unfolding wait_session_event_def Let_def using assms by (auto intro!: more_rules)

lemma more_notify [more_rules]:
  assumes "more_is m d" "\<And>d. more_is m d \<Longrightarrow> Q d"
  shows "wlp (notify_ns_message e d) Q"
  using assms
  by (auto simp: notify_ns_message_def raise_notification_def notify_s_def pnc_sched_smc_def do_smc_def Let_def wlp_iff
      split: prod.splits if_splits)

lemma more_send_term [more_rules]:
  assumes "calm e" "more_is m d" "\<And>d. more_is m d \<Longrightarrow> Q d"
  shows "wlp (send_term e i d) Q"
  unfolding send_term_def Let_def using assms by (auto intro!: more_rules)

lemma more_close [more_rules]:
  assumes "calm e" "more_is m d" "\<And>d. more_is m d \<Longrightarrow> Q d"
  shows "wlp (pnc_session_close e session d) Q"
  unfolding pnc_session_close_def Let_def
  using assms(1,2) by (auto simp: lock_sessions_def yield_calm split: option.splits intro!: more_rules assms(3))

subsection \<open>A configuration that fails\<close>

lemma close_frees_slot:
  assumes "pnc_session_close e (Some i) d = Some d'" "calm e" "drv_inv d" "i < REE_MAX_SESSIONS"
  shows "s_free (sess d' i)" "drv_inv d'" "drv.more d' = drv.more d"
proof -
  have "wlp (pnc_session_close e (Some i) d) drv_inv"
    using assms(2,3) by (auto simp: calm_def env_keeps_def intro!: wlp_close)
  then show inv: "drv_inv d'" using assms(1) by simp
  have "wlp (pnc_session_close e (Some i) d) (more_is (drv.more d))"
    using assms(2) by (auto simp: more_is_def intro!: more_close [where m = "drv.more d"])
  then show "drv.more d' = drv.more d" using assms(1) by (simp add: more_is_def)
  obtain x where "d' = upd_sess i (s_free_update (\<lambda>_. True)) x"
    using assms(1) by (auto simp: pnc_session_close_def Let_def split: bind_splits)
  then show "s_free (sess d' i)" using inv assms(4) by (simp add: upd_sess_def sess_def drv_inv_def)
qed

fun thread_steps ::
  "('a shdev_state_scheme, 'b) shdev_env_scheme \<Rightarrow> nat \<Rightarrow> thread_pc \<Rightarrow> 'a shdev_state_scheme
     \<Rightarrow> (thread_pc \<times> 'a shdev_state_scheme) option" where
  "thread_steps e 0 pc d = Some (pc, d)"
| "thread_steps e (Suc n) pc d = do { (pc, d) \<leftarrow> thread_step e pc d; thread_steps e n pc d }"

text \<open>The framework is up, and the monitor points to a slot that nobody uses.\<close>

definition dangling :: "'a shdev_state_scheme \<Rightarrow> nat \<Rightarrow> bool" where
  "dangling d i \<longleftrightarrow> i < REE_MAX_SESSIONS \<and> shdev_session d = Some i \<and> session_ready d \<and> pnc_shm_ready d \<and>
     0 < s_sem (sess d i) \<and> s_free (sess d i) \<and> \<not> thread_should_stop d"

lemma dangling_step:
  assumes "calm e" "drv_inv d" "dangling d i"
  shows "thread_step e Monitor_loop d = Some (Monitor_loop, d\<lparr>tick := Suc (Suc (tick d))\<rparr>)"
proof -
  have "s_index (sess d i) = of_nat i" "i < 28" "i < length (sessions d)"
    using assms drv_inv_sess [of d i] by (simp_all add: dangling_def session_ok_def drv_inv_def proto_consts)
  moreover from this have "\<not> (28 :: u32) \<le> of_nat i" by (simp add: word_le_nat_alt)
  ultimately have "check_session_configured e i (d\<lparr>tick := Suc (tick d)\<rparr>) = Some (- EINVAL, d\<lparr>tick := Suc (Suc (tick d))\<rparr>)"
    using assms by (simp add: check_session_configured_def down_calm dangling_def Let_def errno REE_MAX_SESSIONS_def)
  then show ?thesis
    using assms by (simp add: dangling_def yield_calm pnc_session_wait_event_def Let_def errno)
qed

lemma dangling_steps:
  assumes "calm e" "drv_inv d" "dangling d i"
  shows "thread_steps e n Monitor_loop d = Some (Monitor_loop, d\<lparr>tick := tick d + 2 * n\<rparr>)"
  using assms(2,3)
proof (induction n arbitrary: d)
  case (Suc n)
  have "drv_inv (d\<lparr>tick := Suc (Suc (tick d))\<rparr>)" "dangling (d\<lparr>tick := Suc (Suc (tick d))\<rparr>) i"
    using Suc.prems by (simp_all add: dangling_def)
  from Suc.IH [OF this] show ?case
    using dangling_step [OF assms(1) Suc.prems] by (simp del: thread_step.simps)
qed simp

lemma more_alloc_locked:
  assumes "more_is m d" "\<And>r b d. more_is m d \<Longrightarrow> Q (r, b, d)"
  shows "wlp (shm_alloc_locked e n b d) Q"
  using assms by (auto simp: shm_alloc_locked_def split: option.splits alloc_exit.splits)

lemma more_shm_alloc [more_rules]:
  assumes "calm e" "more_is m d" "\<And>r b d. more_is m d \<Longrightarrow> Q (r, b, d)"
  shows "wlp (pnc_shm_alloc e n d) Q"
  unfolding pnc_shm_alloc_def Let_def wlp_bind
  by (rule wlp_down_interruptible [where P = "more_is m"])
    (use assms in \<open>auto simp: case_prod_beta intro!: more_alloc_locked\<close>)

lemma more_alloc [more_rules]:
  assumes "calm e" "more_is m d" "\<And>r d. more_is m d \<Longrightarrow> Q (r, d)"
  shows "wlp (pnc_session_alloc e i sz d) Q"
  unfolding pnc_session_alloc_def Let_def using assms(1,2) by (auto intro!: more_rules assms(3))

lemma more_open [more_rules]:
  assumes "calm e" "more_is m d" "\<And>r i d. more_is m d \<Longrightarrow> Q (r, i, d)"
  shows "wlp (pnc_session_open e d) Q"
  unfolding pnc_session_open_def Let_def wlp_bind
  by (rule wlp_wait_event [where P = "more_is m"])
    (use assms in \<open>auto simp: lock_sessions_def yield_calm split: option.splits\<close>)

lemma more_fields:
  "drv.more d' = drv.more d \<Longrightarrow> hw_log d' = hw_log d"
  "drv.more d' = drv.more d \<Longrightarrow> shdev_session d' = shdev_session d"
  "drv.more d' = drv.more d \<Longrightarrow> thread_should_stop d' = thread_should_stop d"
  "drv.more d' = drv.more d \<Longrightarrow> shdev_infos_ptr d' = shdev_infos_ptr d"
  "drv.more d' = drv.more d \<Longrightarrow> shdev_shm_addr d' = shdev_shm_addr d"
  by (cases d; cases d'; simp)+

lemma open_index: "pnc_session_open e d = Some (r, Some i, d') \<Longrightarrow> i < REE_MAX_SESSIONS"
  using find_free_Some by (fastforce simp: pnc_session_open_def Let_def split: bind_splits option.splits)

text \<open>
  A framework that is too old is not noticed: the configuration closes the session again but returns 0, and the
  thread goes on for ever with a slot that is no longer its own, each wait failing at once, without doing anything.
\<close>

theorem old_version_spins:
  assumes "calm e" "drv_inv d" "\<not> thread_should_stop d"
    and "pnc_session_open e (yield e d) = Some (0, Some i, d1)"
    and "pnc_session_alloc e i (2 * of_nat PAGE_SIZE) (d1\<lparr>shdev_session := Some i\<rparr>) = Some (0, d2)"
    and "ree_version d2 < 0x303" "pnc_session_close e (Some i) d2 = Some d3"
    and "session_ready d3" "pnc_shm_ready d3" "0 < s_sem (sess d3 i)"
  shows "thread_steps e (Suc n) Monitor_restart d = Some (Monitor_loop, d3\<lparr>tick := tick d3 + 2 * n\<rparr>) \<and>
    s_free (sess d3 i) \<and> shdev_session d3 = Some i"
proof -
  have y: "drv_inv (yield e d)" "drv.more (yield e d) = drv.more d" using assms(1,2) by (simp_all add: yield_calm)
  have env: "env_keeps drv_inv e" using assms(1) by (simp add: calm_def env_keeps_def)
  have "wlp (pnc_session_open e (yield e d)) (\<lambda>(r, i, d). drv_inv d)"
    by (rule wlp_pnc_session_open [OF env y(1)]) simp
  moreover have "wlp (pnc_session_open e (yield e d)) (\<lambda>(r, i, d'). more_is (drv.more d) d')"
    by (rule more_open [OF assms(1), where m = "drv.more d"]) (simp_all add: more_is_def y)
  ultimately have d1: "drv_inv d1" "drv.more d1 = drv.more d" using assms(4) by (simp_all add: more_is_def)
  let ?d = "d1\<lparr>shdev_session := Some i\<rparr>"
  have "wlp (pnc_session_alloc e i (2 * of_nat PAGE_SIZE) ?d) (\<lambda>(r, d). drv_inv d)"
    by (rule wlp_pnc_session_alloc [OF env]) (simp_all add: d1)
  moreover have "wlp (pnc_session_alloc e i (2 * of_nat PAGE_SIZE) ?d) (\<lambda>(r, d). more_is (drv.more ?d) d)"
    by (rule more_alloc [OF assms(1), where m = "drv.more ?d"]) (simp_all add: more_is_def)
  ultimately have d2: "drv_inv d2" "drv.more d2 = drv.more ?d" using assms(5) by (simp_all add: more_is_def)
  have i: "i < REE_MAX_SESSIONS" using open_index [OF assms(4)] .
  note d3 = close_frees_slot [OF assms(7,1) d2(1) i]
  have own: "shdev_session d3 = Some i" "\<not> thread_should_stop d3" "shdev_session d2 = Some i"
    using more_fields [OF d3(3)] more_fields [OF d2(2)] more_fields [OF d1(2)] assms(3) by simp_all
  have "configure e (yield e d) = Some (0, d3)"
    using assms(4-7) own(3) by (simp add: configure_def pnc_session_get_version_def config_err_def SHDEV_PAGES_def SHDEV_MMC_PAGES_def Let_def)
  moreover have "\<not> thread_should_stop (yield e d)" using assms(1,3) by (simp add: yield_calm)
  ultimately have "thread_step e Monitor_restart d = Some (Monitor_loop, d3)" by simp
  moreover have "dangling d3 i" using assms(8-10) d3(1) own i by (simp add: dangling_def)
  ultimately show ?thesis
    using dangling_steps [OF assms(1) d3(2), of i n] d3(1) own(1) by (simp del: thread_step.simps)
qed

subsection \<open>The layout of the memory\<close>

lemma mem_index_plus: "mem_index a d + unat k < 2 ^ 64 \<Longrightarrow> mem_index (a + k) d = mem_index a d + unat k"
  using mem_index_add [of a d "unat k"] by simp

lemma load_store_u32:
  assumes "mem_index a d < 2 ^ 63" "unat k < 8192" "unat l < 8192" "unat k + 4 \<le> unat l \<or> unat l + 4 \<le> unat k"
  shows "load_u32 (a + k) (store_u32 (a + l) v d) = load_u32 (a + k) d"
proof -
  have "mem_index (a + k) d = mem_index a d + unat k" "mem_index (a + l) d = mem_index a d + unat l"
    by (rule mem_index_plus, use assms in simp)+
  then have "load 4 (a + k) (store (a + l) (le_bytes 4 (ucast v)) d) = load 4 (a + k) d"
    using assms(4) by (intro load_store_other) auto
  then show ?thesis by (simp add: mem_ints)
qed

lemma load_store_u32_same: "load_u32 a (store_u32 a v d) = v"
  by (simp add: mem_ints load_store_bytes)

lemma same_outside_u32:
  assumes "mem_index a d0 < 2 ^ 63" "unat k + 4 \<le> n" "n \<le> 8192" "shm_base d0 = shm_base d"
    and "same_outside {mem_index a d0 ..< mem_index a d0 + n} d0 d"
  shows "same_outside {mem_index a d0 ..< mem_index a d0 + n} d0 (store_u32 (a + k) v d)"
proof -
  have "mem_index (a + k) d = mem_index a d0 + unat k"
    using mem_index_plus [of a d k] assms(1-4) by (simp add: mem_index_def)
  then have "same_outside {mem_index a d0 ..< mem_index a d0 + n} d (store_u32 (a + k) v d)"
    unfolding store_u32_def by (intro same_outside_store) (use assms(2) in auto)
  then show ?thesis using assms(5) same_outside_trans by blast
qed

text \<open>The words of the layout: place and value.\<close>

definition layout_words :: "(u64 \<times> u32) list" where
  "layout_words = [(0, SHDEV_MAGIC_INFOS), (4, 3), (8, SHDEV_DEVICE_TO_ID MMC_DEVICE), (28, 116), (32, 32), (36, 4096),
     (40, 4096), (44, SHDEV_DEVICE_TO_ID ENET_DEVICE), (80, SHDEV_DEVICE_TO_ID SPI_DEVICE)]"

lemma write_layout_words:
  assumes "mem_index a d < 2 ^ 63"
  shows "write_layout a d = (148, 8192, fold (\<lambda>(k, v). store_u32 (a + k) v) layout_words d)"
  by (simp add: write_layout_def layout_words_def load_store_u32_same desc_addr_def shdev_sizes shdev_devices
      SHDEV_PAGES_def SHDEV_MMC_PAGES_def PAGE_SIZE_def Let_def add.assoc)

definition spaced :: "(u64 \<times> u32) list \<Rightarrow> bool" where
  "spaced ws \<longleftrightarrow> sorted_wrt (\<lambda>w w'. unat (fst w) + 4 \<le> unat (fst w')) ws \<and> (\<forall>w \<in> set ws. unat (fst w) < 8192)"

lemma fold_words_index: "mem_index b (fold (\<lambda>(k, v). store_u32 (a + k) v) ws d) = mem_index b d"
  by (induction ws arbitrary: d) (auto simp: store_u32_def)

lemma fold_words:
  assumes "mem_index a d < 2 ^ 63" "spaced ws" "(k, v) \<in> set ws"
  shows "load_u32 (a + k) (fold (\<lambda>(k, v). store_u32 (a + k) v) ws d) = v"
  using assms(2,3)
proof (induction ws rule: rev_induct)
  case (snoc w ws)
  let ?d = "fold (\<lambda>(k, v). store_u32 (a + k) v) ws d"
  show ?case
  proof (cases "(k, v) \<in> set ws")
    case False
    then have "w = (k, v)" using snoc.prems(2) by simp
    then show ?thesis by (simp add: load_store_u32_same)
  next
    case True
    obtain l x where w: "w = (l, x)" by fastforce
    have gap: "unat k + 4 \<le> unat l" "unat k < 8192" "unat l < 8192"
      using snoc.prems(1) True w by (force simp: spaced_def sorted_wrt_append)+
    have "mem_index a ?d < 2 ^ 63" using assms(1) by (simp add: fold_words_index)
    from load_store_u32 [OF this gap(2,3)] gap(1)
    have "load_u32 (a + k) (store_u32 (a + l) x ?d) = load_u32 (a + k) ?d" by simp
    then show ?thesis using snoc True w by (simp add: spaced_def sorted_wrt_append)
  qed
qed simp

lemma fold_words_outside:
  assumes "mem_index a d < 2 ^ 63" "\<forall>w \<in> set ws. unat (fst w) + 4 \<le> n" "n \<le> 8192"
  shows "same_outside {mem_index a d ..< mem_index a d + n} d (fold (\<lambda>(k, v). store_u32 (a + k) v) ws d)"
  using assms(2)
proof (induction ws rule: rev_induct)
  case (snoc w ws)
  then have "same_outside {mem_index a d ..< mem_index a d + n} d (fold (\<lambda>(k, v). store_u32 (a + k) v) ws d)" by simp
  moreover from this have "shm_base d = shm_base (fold (\<lambda>(k, v). store_u32 (a + k) v) ws d)" by (simp add: same_outside_def)
  ultimately show ?case
    using same_outside_u32 [OF assms(1) _ assms(3), of "fst w"] snoc.prems by (cases w) simp
qed (simp add: same_outside_def)

lemma layout_words_spaced: "spaced layout_words" "\<forall>w \<in> set layout_words. unat (fst w) + 4 \<le> sizeof_shdev_infos"
  by (simp_all add: spaced_def layout_words_def shdev_sizes)

lemma fold_words_memory: "\<exists>m. fold (\<lambda>(k, v). store_u32 (a + k) v) ws d = d\<lparr>memory := m\<rparr>"
proof (induction ws arbitrary: d)
  case Nil
  show ?case by (rule exI [of _ "memory d"]) simp
next
  case (Cons w ws)
  obtain k v where w: "w = (k, v)" by fastforce
  obtain m0 where "store_u32 (a + k) v d = d\<lparr>memory := m0\<rparr>" by (auto simp: store_u32_def store_def)
  then show ?case using Cons [of "d\<lparr>memory := m0\<rparr>"] by (simp add: w)
qed

lemma session_mem_place:
  fixes blk :: pnc_shm_block
  shows "mem_index (shm_base d + ucast (blk_offset blk) * of_nat PAGE_SIZE) d = unat (blk_offset blk) * PAGE_SIZE"
    "mem_index (shm_base d + ucast (blk_offset blk) * of_nat PAGE_SIZE) d < 2 ^ 63"
    "2 \<le> unat (blk_nr_pages blk) \<Longrightarrow> \<not> ucast (blk_nr_pages blk) * of_nat PAGE_SIZE < (8192 :: u64)"
proof -
  have "unat (ucast x * 4096 :: u64) = unat x * 4096" for x :: u32
    using unat_u32_less [of x] by (simp add: unat_word_ariths unsigned_ucast_eq take_bit_nat_eq_self)
  moreover have "unat (blk_offset blk) * 4096 < 2 ^ 63" using unat_u32_less [of "blk_offset blk"] by simp
  ultimately show "mem_index (shm_base d + ucast (blk_offset blk) * of_nat PAGE_SIZE) d = unat (blk_offset blk) * PAGE_SIZE"
    "mem_index (shm_base d + ucast (blk_offset blk) * of_nat PAGE_SIZE) d < 2 ^ 63"
    "2 \<le> unat (blk_nr_pages blk) \<Longrightarrow> \<not> ucast (blk_nr_pages blk) * of_nat PAGE_SIZE < (8192 :: u64)"
    by (simp_all add: mem_index_def PAGE_SIZE_def word_less_nat_alt)
qed

text \<open>What the words of the layout mean.\<close>

lemma layout_meaning:
  assumes "\<And>k v. (k, v) \<in> set layout_words \<Longrightarrow> load_u32 (a + k) d = v"
  shows "load_u32 a d = SHDEV_MAGIC_INFOS" "load_u32 (a + 4) d = of_nat NUM_DEVICES"
    "k < NUM_DEVICES \<Longrightarrow> load_u32 (desc_addr a k) d = SHDEV_DEVICE_TO_ID k"
    "d_entry_offset (load_desc (desc_addr a MMC_DEVICE) d) = 116" "d_entry_size (load_desc (desc_addr a MMC_DEVICE) d) = 32"
    "d_data_offset (load_desc (desc_addr a MMC_DEVICE) d) = 4096" "d_data_size (load_desc (desc_addr a MMC_DEVICE) d) = 4096"
proof -
  note word = assms [unfolded layout_words_def, simplified]
  show "load_u32 a d = SHDEV_MAGIC_INFOS" using word [of 0] by simp
  show "load_u32 (a + 4) d = of_nat NUM_DEVICES" using word [of 4] by (simp add: NUM_DEVICES_def)
  show "d_entry_offset (load_desc (desc_addr a MMC_DEVICE) d) = 116" "d_entry_size (load_desc (desc_addr a MMC_DEVICE) d) = 32"
    "d_data_offset (load_desc (desc_addr a MMC_DEVICE) d) = 4096" "d_data_size (load_desc (desc_addr a MMC_DEVICE) d) = 4096"
    using word [of 28] word [of 32] word [of 36] word [of 40]
    by (simp_all add: load_desc_def desc_addr_def MMC_DEVICE_def add.assoc)
  assume "k < NUM_DEVICES"
  then consider "k = MMC_DEVICE" | "k = ENET_DEVICE" | "k = SPI_DEVICE"
    by (auto simp: shdev_devices less_Suc_eq numeral_3_eq_3 numeral_2_eq_2)
  then show "load_u32 (desc_addr a k) d = SHDEV_DEVICE_TO_ID k"
    using word [of 8] word [of 44] word [of 80]
    by cases (simp_all add: desc_addr_def shdev_devices shdev_sizes add.assoc)
qed

text \<open>
  C34. A configured monitor has laid its memory out as the secure world expects: magic number, number of devices and
  identifiers are in place, the entry of the eMMC follows the structures within the first page, its data buffer is the
  second page, everything lies in the memory of the session, no byte outside the structures has changed, and the
  secure world is told that the monitor is ready.
\<close>

theorem monitor_layout:
  assumes "calm e" "drv_inv d" "configured d i" "s_mem (sess d i) = Some p" "heap d p = Some blk"
    and "2 \<le> unat (blk_nr_pages blk)"
  shows "\<exists>d' infos. configure_memory e i d = Some (0, d') \<and> shdev_infos_ptr d' = infos \<and> shdev_shm_addr d' = infos \<and>
    mem_index infos d' = unat (blk_offset blk) * PAGE_SIZE \<and>
    load_u32 infos d' = SHDEV_MAGIC_INFOS \<and> load_u32 (infos + 4) d' = of_nat NUM_DEVICES \<and>
    (\<forall>k < NUM_DEVICES. load_u32 (desc_addr infos k) d' = SHDEV_DEVICE_TO_ID k) \<and>
    (\<exists>desc. desc = load_desc (desc_addr infos MMC_DEVICE) d' \<and>
      sizeof_shdev_infos \<le> unat (d_entry_offset desc) \<and> unat (d_entry_size desc) = sizeof_shdev_mmc_entry \<and>
      unat (d_entry_offset desc) + unat (d_entry_size desc) \<le> PAGE_SIZE \<and> unat (d_data_offset desc) = PAGE_SIZE \<and>
      unat (d_data_offset desc) + unat (d_data_size desc) \<le> unat (blk_nr_pages blk) * PAGE_SIZE) \<and>
    (\<forall>k. k < mem_index infos d' \<or> mem_index infos d' + sizeof_shdev_infos \<le> k \<longrightarrow> memory d' k = memory d k) \<and>
    signals_ns_to_s (shm d') ! i = signals_ns_to_s (shm d) ! i OR SHDEV_SIGNAL SIGNAL_READY"
proof -
  let ?a = "shm_base d + ucast (blk_offset blk) * of_nat PAGE_SIZE"
  let ?d1 = "d\<lparr>shdev_shm_addr := ?a, shdev_infos_ptr := ?a\<rparr>"
  let ?d2 = "fold (\<lambda>(k, v). store_u32 (?a + k) v) layout_words ?d1"
  note place = session_mem_place(1,2) [where d = d and blk = blk] session_mem_place(3) [where blk = blk]
  have place1: "mem_index ?a ?d1 = unat (blk_offset blk) * PAGE_SIZE" "mem_index ?a ?d1 < 2 ^ 63"
    using place(1,2) by (simp_all add: mem_index_def)
  obtain m where m: "?d2 = ?d1\<lparr>memory := m\<rparr>" using fold_words_memory by blast
  have "configured ?d1 i = configured d i" by (simp add: configured_def pnc_shm_ready_def sess_def)
  then have d2: "drv_inv ?d2" "configured ?d2 i" using assms(2,3) m by simp_all
  obtain d' where d': "pnc_session_send_signal e i (SHDEV_SIGNAL SIGNAL_READY) ?d2 = Some (0, d')"
    "memory d' = m" "shm_base d' = shm_base d" "drv.more d' = drv.more ?d2"
    "signals_ns_to_s (shm d') = (signals_ns_to_s (shm d))[i := signals_ns_to_s (shm d) ! i OR SHDEV_SIGNAL SIGNAL_READY]"
    using send_signal_calm [OF assms(1) d2, of "SHDEV_SIGNAL SIGNAL_READY"] m by auto
  have ptrs: "shdev_infos_ptr d' = ?a" "shdev_shm_addr d' = ?a" using more_fields(4,5) [OF d'(4)] m by simp_all
  have base: "shm_base d \<noteq> 0" using assms(2) by (simp add: drv_inv_def)
  have run: "configure_memory e i d = Some (0, d')"
    using assms(4,5) base write_layout_words [OF place1(2)] place(3) [OF assms(6)] d'(1)
    by (simp add: configure_memory_def pnc_session_get_mem_def pnc_session_get_mem_offset_def pnc_shm_base_def
        SHDEV_PAGES_def PAGE_SIZE_def Let_def)
  have mem: "mem_index x d' = mem_index x d" "load_u32 x d' = load_u32 x ?d2" for x
    using d'(2,3) m by (simp_all add: mem_index_def load_u32_def load_def)
  have "load_u32 (?a + k) d' = v" if "(k, v) \<in> set layout_words" for k v
    using fold_words [OF place1(2) layout_words_spaced(1) that] mem(2) by simp
  note words = layout_meaning [of ?a d', OF this]
  have "same_outside {mem_index ?a ?d1 ..< mem_index ?a ?d1 + sizeof_shdev_infos} ?d1 ?d2"
    by (rule fold_words_outside [OF place1(2) layout_words_spaced(2)]) (simp add: shdev_sizes)
  then have outside: "k < mem_index ?a d' \<or> mem_index ?a d' + sizeof_shdev_infos \<le> k \<longrightarrow> memory d' k = memory d k" for k
    using d'(2) m mem(1) by (auto simp: same_outside_def mem_index_def)
  have "i < length (signals_ns_to_s (shm d))" using assms(2,3) by (simp add: drv_inv_def configured_def)
  then show ?thesis
    using run ptrs words outside d'(5) place(1) mem(1) assms(6)
    by (intro exI [of _ d'] exI [of _ ?a] conjI exI [of _ "load_desc (desc_addr ?a MMC_DEVICE) d'"] allI impI)
      (auto simp: shdev_sizes PAGE_SIZE_def)
qed

end
