(* ===== verification/PncShdev_Serve.thy ===== *)
theory PncShdev_Serve
  imports PncShdev_Props PncWorker
begin

text \<open>
  The way of a request through the parts of the driver: the worker that sees the signal of the secure world, the thread of
  the monitor that waits for it, and the work that runs the operation and answers; then what a work does for each request.
\<close>

lemma upd_sess_more [simp]:
  "shdev_session (upd_sess i f d) = shdev_session d" "shdev_infos_ptr (upd_sess i f d) = shdev_infos_ptr d"
  "shdev_devices (upd_sess i f d) = shdev_devices d" "shdev_work (upd_sess i f d) = shdev_work d"
  "thread_should_stop (upd_sess i f d) = thread_should_stop d" "memory (upd_sess i f d) = memory d"
  "shm_base (upd_sess i f d) = shm_base d"
  by (simp_all add: upd_sess_def)

lemma get_signal_calm:
  assumes "calm e" "drv_inv d" "configured d i"
  shows "pnc_session_get_signal e i True d = Some (0, Some (signals_s_to_ns (shm d) ! i),
    (upd_sess i (clear_event EVENT_PENDING_SIGNAL) d)\<lparr>tick := Suc (Suc (tick d)),
      shm := (shm d)\<lparr>signals_s_to_ns := (signals_s_to_ns (shm d))[i := 0]\<rparr>\<rparr>)"
proof -
  let ?d = "d\<lparr>tick := Suc (tick d)\<rparr>"
  have i: "i < REE_MAX_SESSIONS" "0 < s_sem (sess d i)" using assms(3) by (simp_all add: configured_def)
  have idx: "unat (s_index (sess d i)) = i"
    using drv_inv_sess [OF assms(2) i(1)] i(1) by (simp add: session_ok_def proto_consts)
  have len: "i < length (sessions d)" using assms(2) i(1) by (simp add: drv_inv_def)
  have upd: "up_session i (upd_sess i (clear_event EVENT_PENDING_SIGNAL) (upd_sem i (\<lambda>n. n - Suc 0) d)) =
      upd_sess i (clear_event EVENT_PENDING_SIGNAL) d"
    by (rule locked_upd [OF i(2)]) (simp add: clear_event_def)
  have ix: "unat (s_index (sess (upd_sess i (clear_event EVENT_PENDING_SIGNAL) d) i)) = i"
    using idx len by (simp add: clear_event_def)
  show ?thesis
    using check_calm [OF assms] assms(1) i(2) ix
    by (simp add: pnc_session_get_signal_def down_calm take_s_to_ns_signals_def upd Let_def)
qed

lemma schedule_work_queues: "snd (schedule_work w d) = d\<lparr>shdev_work := (shdev_work d)[w := True]\<rparr>"
proof -
  have "shdev_work d ! w \<Longrightarrow> (shdev_work d)[w := True] = shdev_work d" by (metis (full_types) list_update_id)
  then show ?thesis by (simp add: schedule_work_def)
qed

text \<open>The works that the signals of the register ask for.\<close>

definition queued :: "u32 \<Rightarrow> bool list \<Rightarrow> bool list" where
  "queued signals works =
     (let works = (if signals AND SHDEV_SIGNAL SIGNAL_MMC_MESSAGE \<noteq> 0 then works[MMC_DEVICE := True] else works);
          works = (if signals AND SHDEV_SIGNAL SIGNAL_ENET_MESSAGE \<noteq> 0 then works[ENET_DEVICE := True] else works)
      in if signals AND SHDEV_SIGNAL SIGNAL_SPI_MESSAGE \<noteq> 0 then works[SPI_DEVICE := True] else works)"

lemmas shdev_signals = SIGNAL_MMC_MESSAGE_def SIGNAL_ENET_MESSAGE_def SIGNAL_SPI_MESSAGE_def

lemma signal_bit: "n < 32 \<Longrightarrow> signals AND SHDEV_SIGNAL n \<noteq> 0 \<longleftrightarrow> bit signals n"
  unfolding SHDEV_SIGNAL_def by (rule test_single_bit)

lemma queued_bit:
  assumes "length works = NUM_DEVICES" "w < NUM_DEVICES" "bit signals (Suc w)"
  shows "queued signals works ! w" "length (queued signals works) = NUM_DEVICES"
proof -
  consider "w = MMC_DEVICE" | "w = ENET_DEVICE" | "w = SPI_DEVICE"
    using assms(2) by (auto simp: shdev_devices less_Suc_eq numeral_3_eq_3 numeral_2_eq_2)
  then show "queued signals works ! w"
    using assms(1,3)
    by cases (auto simp: queued_def Let_def signal_bit shdev_signals shdev_devices numeral_2_eq_2 numeral_3_eq_3)
  show "length (queued signals works) = NUM_DEVICES" using assms(1) by (simp add: queued_def Let_def)
qed

lemma handle_signal_calm:
  assumes "calm e" "drv_inv d" "configured d i" "shdev_session d = Some i"
  shows "handle_signal e d = Some ((upd_sess i (clear_event EVENT_PENDING_SIGNAL) d)\<lparr>tick := Suc (Suc (tick d)),
    shm := (shm d)\<lparr>signals_s_to_ns := (signals_s_to_ns (shm d))[i := 0]\<rparr>,
    shdev_work := queued (signals_s_to_ns (shm d) ! i) (shdev_work d)\<rparr>)"
  using assms(4)
  by (simp add: handle_signal_def get_signal_calm [OF assms(1-3)] schedule_work_queues queued_def upd_sess_def Let_def)

lemma thread_handles_signal:
  assumes "calm e" "drv_inv d" "configured d i" "shdev_session d = Some i" "\<not> thread_should_stop d"
    and "s_event_pending (sess d i) AND EVENT_PENDING_SIGNAL \<noteq> 0"
  shows "\<exists>d'. thread_step e Monitor_loop d = Some (Monitor_loop, d') \<and> drv_inv d' \<and> configured d' i \<and>
    shdev_session d' = Some i \<and> memory d' = memory d \<and> shm_base d' = shm_base d \<and> shdev_infos_ptr d' = shdev_infos_ptr d \<and>
    shdev_devices d' = shdev_devices d \<and> shdev_work d' = queued (signals_s_to_ns (shm d) ! i) (shdev_work d) \<and>
    signals_ns_to_s (shm d') = signals_ns_to_s (shm d) \<and> signals_s_to_ns (shm d') ! i = 0"
proof -
  have i: "i < REE_MAX_SESSIONS" using assms(3) by (simp add: configured_def)
  have len: "i < length (sessions d)" "i < length (signals_s_to_ns (shm d))" using assms(2) i by (simp_all add: drv_inv_def)
  let ?d0 = "d\<lparr>tick := Suc (tick d)\<rparr>"
  let ?m = "s_event_pending (sess d i) AND NO_TIMEOUT_EVENTS"
  let ?d1 = "(upd_sess i (clear_event NO_TIMEOUT_EVENTS) d)\<lparr>tick := Suc (Suc (Suc (tick d)))\<rparr>"
  have mask: "NO_TIMEOUT_EVENTS AND EVENT_PENDING_ALL = NO_TIMEOUT_EVENTS" "?m AND EVENT_PENDING_SIGNAL \<noteq> 0" "?m \<noteq> 0"
  proof -
    have "NO_TIMEOUT_EVENTS AND EVENT_PENDING_SIGNAL = EVENT_PENDING_SIGNAL"
      by (simp add: NO_TIMEOUT_EVENTS_def proto_consts)
    then show "?m AND EVENT_PENDING_SIGNAL \<noteq> 0" using assms(6) by (simp add: and.assoc)
    then show "?m \<noteq> 0" by auto
    show "NO_TIMEOUT_EVENTS AND EVENT_PENDING_ALL = NO_TIMEOUT_EVENTS"
      by (simp add: NO_TIMEOUT_EVENTS_def proto_consts)
  qed
  have wait: "pnc_session_wait_event e i True NO_TIMEOUT_EVENTS NO_TIMEOUT ?d0 = Some (0, Some ?m, ?d1)"
    using check_calm [of e ?d0 i] wait_event_calm [of e "?d0\<lparr>tick := Suc (tick ?d0)\<rparr>" i NO_TIMEOUT_EVENTS] assms(1-3) len mask
    by (simp add: pnc_session_wait_event_def NO_TIMEOUT_def)
  have d1: "drv_inv ?d1" "configured ?d1 i" "shdev_session ?d1 = Some i"
  proof -
    show "drv_inv ?d1" using assms(2) by simp
    show "configured ?d1 i" using assms(3) len configured_cong [of ?d1 d i] by (simp add: clear_event_def)
    show "shdev_session ?d1 = Some i" using assms(4) by (simp add: upd_sess_def)
  qed
  let ?d2 = "(upd_sess i (clear_event EVENT_PENDING_SIGNAL) ?d1)\<lparr>tick := Suc (Suc (tick ?d1)),
    shm := (shm d)\<lparr>signals_s_to_ns := (signals_s_to_ns (shm d))[i := 0]\<rparr>,
    shdev_work := queued (signals_s_to_ns (shm d) ! i) (shdev_work d)\<rparr>"
  have "handle_signal e ?d1 = Some ?d2"
    using handle_signal_calm [OF assms(1) d1] by simp
  then have "thread_step e Monitor_loop d = Some (Monitor_loop, ?d2)"
    using assms(1,4,5) wait mask(2) by (simp add: yield_calm)
  moreover have "drv_inv ?d2" "configured ?d2 i"
  proof -
    have "drv_inv (upd_sess i (clear_event EVENT_PENDING_SIGNAL) ?d1)" by (rule drv_inv_set_global_simps(8) [OF d1(1)])
    then show "drv_inv ?d2" by (simp add: drv_inv_def)
    have "sess ?d2 i = clear_event EVENT_PENDING_SIGNAL (sess ?d1 i)" using len by (simp add: sess_def upd_sess_def)
    then show "configured ?d2 i" using d1(2) configured_cong [of ?d2 ?d1 i] by (simp add: clear_event_def)
  qed
  ultimately show ?thesis using len assms(4) by simp
qed


text \<open>The table of the devices is in the order of their numbers, and so are their signals.\<close>

lemma device_table:
  assumes "shdev_init e d = (0, d')" "w < NUM_DEVICES"
  shows "sd_id (shdev_devices d' ! w) = SHDEV_DEVICE_TO_ID w" "sd_signal_msg (shdev_devices d' ! w) = SHDEV_SIGNAL (Suc w)"
    "sd_ops (shdev_devices d' ! w) = [Mmcblk_ops, Enetdev_ops, Spidev_ops] ! w"
proof -
  consider "w = MMC_DEVICE" | "w = ENET_DEVICE" | "w = SPI_DEVICE"
    using assms(2) by (auto simp: shdev_devices less_Suc_eq numeral_3_eq_3 numeral_2_eq_2)
  then show "sd_id (shdev_devices d' ! w) = SHDEV_DEVICE_TO_ID w" "sd_signal_msg (shdev_devices d' ! w) = SHDEV_SIGNAL (Suc w)"
    "sd_ops (shdev_devices d' ! w) = [Mmcblk_ops, Enetdev_ops, Spidev_ops] ! w"
    using assms(1) by (cases; auto simp: shdev_init_def Let_def shdev_signals shdev_devices numeral_3_eq_3 numeral_2_eq_2 split: if_splits)+
qed

text \<open>
  C18. From the secure world's signal to the answer. The signals of the monitor's session are pending in shared
  memory with the bit of device \<open>w\<close> set, and the descriptor of \<open>w\<close> holds a request. The worker's handler posts the event, the
  next turn of the monitor's thread takes the signals and queues the work, and the work runs the operation, writes
  the status and the result into the slot of the answer, and signals the secure world with the bit of \<open>w\<close>. The
  work returns unless the operation accesses memory outside the shared area.
\<close>

theorem shared_device_served:
  assumes "calm e" "drv_inv d" "configured d i" "shdev_session d = Some i" "\<not> thread_should_stop d"
    and "shdev_init e0 d0 = (0, d0')" "shdev_devices d = shdev_devices d0'" "length (shdev_work d) = NUM_DEVICES"
    and "w < NUM_DEVICES" "bit (signals_s_to_ns (shm d) ! i) (Suc w)"
    and "desc = load_desc (desc_addr (shdev_infos_ptr d) w) d" "d_id desc = SHDEV_DEVICE_TO_ID w"
    and "reply = desc_addr (shdev_infos_ptr d) w + 4" "mem_index reply d + 8 < 2 ^ 64"
  shows "\<exists>d1 d2. handle_s_signal e i d = Some d1 \<and>
    thread_step e Monitor_loop d1 = Some (Monitor_loop, d2) \<and> signals_s_to_ns (shm d2) ! i = 0 \<and>
    (case device_operation e (sd_ops (shdev_devices d ! w)) desc (d2\<lparr>shdev_work := (shdev_work d2)[w := False]\<rparr>) of
       None \<Rightarrow> flush_work e w d2 = None
     | Some (ret, _) \<Rightarrow> \<exists>d3. flush_work e w d2 = Some d3 \<and>
         load_message reply d3 = (d_s_to_ns desc)\<lparr>m_status := 1, m_value := of_int \<bar>ret\<bar>\<rparr> \<and>
         signals_ns_to_s (shm d3) ! i = signals_ns_to_s (shm d) ! i OR SHDEV_SIGNAL (Suc w))"
proof -
  have i: "i < REE_MAX_SESSIONS" "0 < s_sem (sess d i)" "i < length (sessions d)"
    using assms(2,3) by (auto simp: configured_def drv_inv_def)
  let ?d1 = "(upd_sess i (post_event EVENT_PENDING_SIGNAL) d)\<lparr>tick := Suc (tick d)\<rparr>"
  have d1: "drv_inv ?d1" "configured ?d1 i" "s_event_pending (sess ?d1 i) AND EVENT_PENDING_SIGNAL \<noteq> 0"
  proof -
    have "drv_inv (upd_sess i (post_event EVENT_PENDING_SIGNAL) d)" using assms(2) by simp
    then show "drv_inv ?d1" by simp
    show "configured ?d1 i" using assms(3) i(3) configured_cong [of ?d1 d i] by (simp add: post_event_def)
    show "s_event_pending (sess ?d1 i) AND EVENT_PENDING_SIGNAL \<noteq> 0"
      using i(3) by (simp add: post_event_def proto_consts bit.conj_disj_distrib2 or_eq_0_iff)
  qed
  obtain d2 where d2: "thread_step e Monitor_loop ?d1 = Some (Monitor_loop, d2)" "drv_inv d2" "configured d2 i"
    "shdev_session d2 = Some i" "memory d2 = memory d" "shm_base d2 = shm_base d" "shdev_infos_ptr d2 = shdev_infos_ptr d"
    "shdev_devices d2 = shdev_devices d" "shdev_work d2 = queued (signals_s_to_ns (shm d) ! i) (shdev_work d)"
    "signals_ns_to_s (shm d2) = signals_ns_to_s (shm d)" "signals_s_to_ns (shm d2) ! i = 0"
    using thread_handles_signal [OF assms(1) d1(1,2) _ _ d1(3)] assms(4,5) by auto
  let ?d2 = "d2\<lparr>shdev_work := (shdev_work d2)[w := False]\<rparr>"
  have same: "load_u16 a ?d2 = load_u16 a d" "load_u32 a ?d2 = load_u32 a d" "mem_index a ?d2 = mem_index a d" for a
    using d2(5,6) by (simp_all add: load_u16_def load_u32_def load_def mem_index_def)
  have ids: "sd_id (shdev_devices d ! w) = SHDEV_DEVICE_TO_ID w" "sd_signal_msg (shdev_devices d ! w) = SHDEV_SIGNAL (Suc w)"
    using device_table [OF assms(6,9)] assms(7) by simp_all
  have desc: "desc = load_desc (desc_addr (shdev_infos_ptr d) w) ?d2"
    using assms(11) same by (simp add: load_desc_def load_message_def)
  have inv: "drv_inv ?d2" "configured ?d2 i" "shdev_session ?d2 = Some i"
    using d2(2-4) by (simp_all add: configured_def pnc_shm_ready_def sess_def split: if_splits)
  have pending: "flush_work e w d2 = device_work_func e w ?d2"
    using d2(9) queued_bit(1) [OF assms(8,9,10)] by (simp add: flush_work_def)
  have served: "case device_operation e (sd_ops (shdev_devices d ! w)) desc ?d2 of
       None \<Rightarrow> flush_work e w d2 = None
     | Some (ret, _) \<Rightarrow> \<exists>d3. flush_work e w d2 = Some d3 \<and>
         load_message reply d3 = (d_s_to_ns desc)\<lparr>m_status := 1, m_value := of_int \<bar>ret\<bar>\<rparr> \<and>
         signals_ns_to_s (shm d3) ! i = signals_ns_to_s (shm d) ! i OR SHDEV_SIGNAL (Suc w)"
  proof (cases "device_operation e (sd_ops (shdev_devices d ! w)) desc ?d2")
    case None
    then show ?thesis
      using pending d2(7,8) desc ids assms(9,12) by (simp add: device_work_func_def device_id_roundtrip Let_def)
  next
    case (Some x)
    then obtain ret d' where run: "device_operation e (sd_ops (shdev_devices d ! w)) desc ?d2 = Some (ret, d')" by (cases x) simp
    obtain d3 where d3: "device_work_func e w ?d2 = Some d3"
      "load_message reply d3 = (d_s_to_ns desc)\<lparr>m_status := 1, m_value := of_int \<bar>ret\<bar>\<rparr>"
      "signals_ns_to_s (shm d3) ! i = signals_ns_to_s (shm ?d2) ! i OR SHDEV_SIGNAL (Suc w)"
      using device_work_reply [OF assms(1) inv refl refl, of w desc ret d' reply] assms(9,12-14) run d2(7,8) desc same(3) ids
      by (auto simp: device_id_roundtrip)
    then show ?thesis using run pending d2(10) by simp
  qed
  show ?thesis
    using signal_posted [OF assms(1) i(2)] d2(1,11) served by (intro exI [of _ ?d1] exI [of _ d2]) simp
qed

subsection \<open>What a work does\<close>

text \<open>Suspend and resume of devices that are known, and the requests that no device but the eMMC serves.\<close>

lemma operation_calm:
  assumes "calm e" "shdev_mmc_bdev d \<noteq> 0" "shared_enet_device d \<noteq> 0" "shared_spi_device d \<noteq> 0" "w < NUM_DEVICES"
    and "ops = [Mmcblk_ops, Enetdev_ops, Spidev_ops] ! w" "operation = m_operation (d_s_to_ns desc)"
    and "w = 0 \<longrightarrow> operation \<notin> {2, 3, 4, 5}"
    and "call = (if operation = 0
      then [Blkdev_ioctl (shdev_mmc_bdev d) MMC_IOCTL_SUSPEND, Enet_ioctl (shared_enet_device d) True,
        Spi_master_suspend (shared_spi_device d)] ! w
      else [Blkdev_ioctl (shdev_mmc_bdev d) MMC_IOCTL_RESUME, Enet_ioctl (shared_enet_device d) False,
        Spi_master_resume (shared_spi_device d)] ! w)"
  shows "\<exists>d1. device_operation e ops desc d = Some (if operation \<in> {0, 1} then hw_code (hw_answers e (length (hw_log d)) call)
      else if operation \<in> {2, 3, 4, 5} then 0 else - 38, d1) \<and>
    hw_log d1 = hw_log d @ (if operation \<in> {0, 1} then [call] else []) \<and> memory d1 = memory d"
proof -
  have host: "hw_log (mmcblk_pm_runtime_disable e x) = hw_log x" "memory (mmcblk_pm_runtime_disable e x) = memory x"
    "hw_log (mmcblk_pm_runtime_enable e x) = hw_log x" "memory (mmcblk_pm_runtime_enable e x) = memory x" for x :: "'a shdev_state_scheme"
    by (simp_all add: mmcblk_pm_runtime_disable_def mmcblk_pm_runtime_enable_def Let_def)
  consider "w = 0" | "w = 1" | "w = 2" using assms(5) by (auto simp: shdev_devices less_Suc_eq numeral_3_eq_3 numeral_2_eq_2)
  then show ?thesis
    using assms(2-4,7-9) unfolding assms(6)
    by cases (auto simp: device_operation_def ops_suspend_def ops_resume_def ops_transfer_def mmcblk_suspend_def mmcblk_resume_def
        mmcblk_get_def enetdev_suspend_def enetdev_resume_def enetdev_get_def spidev_suspend_def spidev_resume_def spidev_get_def
        hw_calm [OF assms(1)] host shdev_operations errno Let_def)
qed

text \<open>
  C31. What a work does, when its devices are known and nobody else changes the state. It looks at the descriptor of its device only, and does nothing when the identifier there is not that
  of the device. Otherwise request 0 suspends this device and request 1 resumes it, with one call of its
  driver; requests 2 to 5 do nothing and succeed on a device other than the eMMC, and any other request is refused with
  \<open>ENOSYS\<close> (38). The request is copied to the slot of the answer with its status set and the absolute value of the
  result, no other byte changes, and the bit of the device is raised for the secure world.
\<close>

theorem device_work_dispatch:
  assumes "calm e" "drv_inv d" "configured d i" "shdev_session d = Some i"
    and "shdev_init e0 d0 = (0, d0')" "shdev_devices d = shdev_devices d0'" "w < NUM_DEVICES"
    and "shdev_mmc_bdev d \<noteq> 0" "shared_enet_device d \<noteq> 0" "shared_spi_device d \<noteq> 0"
    and "desc = load_desc (desc_addr (shdev_infos_ptr d) w) d" "operation = m_operation (d_s_to_ns desc)"
    and "w = 0 \<longrightarrow> operation \<notin> {2, 3, 4, 5}"
    and "call = (if operation = 0
      then [Blkdev_ioctl (shdev_mmc_bdev d) MMC_IOCTL_SUSPEND, Enet_ioctl (shared_enet_device d) True,
        Spi_master_suspend (shared_spi_device d)] ! w
      else [Blkdev_ioctl (shdev_mmc_bdev d) MMC_IOCTL_RESUME, Enet_ioctl (shared_enet_device d) False,
        Spi_master_resume (shared_spi_device d)] ! w)"
    and "ret = (if operation \<in> {0, 1} then hw_code (hw_answers e (length (hw_log d)) call)
      else if operation \<in> {2, 3, 4, 5} then 0 else - 38)"
    and "reply = desc_addr (shdev_infos_ptr d) w + 4" "mem_index reply d + 8 < 2 ^ 64"
  shows "if d_id desc \<noteq> 0xabed0000 + of_nat w then device_work_func e w d = Some d
    else \<exists>d'. device_work_func e w d = Some d' \<and>
      hw_log d' = hw_log d @ (if operation \<in> {0, 1} then [call] else []) \<and>
      load_message reply d' = (d_s_to_ns desc)\<lparr>m_status := 1, m_value := of_int \<bar>ret\<bar>\<rparr> \<and>
      (\<forall>k. k < mem_index reply d \<or> mem_index reply d + 8 \<le> k \<longrightarrow> memory d' k = memory d k) \<and>
      signals_ns_to_s (shm d') ! i = signals_ns_to_s (shm d) ! i OR push_bit (Suc w) 1"
proof -
  note table = device_table [OF assms(5,7), folded assms(6)]
  have id: "SHDEV_DEVICE_TO_ID w = 0xabed0000 + of_nat w"
    using assms(7) by (auto simp: SHDEV_DEVICE_TO_ID_def SHDEV_DEVICE_PREFIX_def shdev_devices less_Suc_eq numeral_3_eq_3 numeral_2_eq_2)
  show ?thesis
  proof (cases "d_id desc = SHDEV_DEVICE_TO_ID w")
    case False
    then have "device_work_func e w d = Some d"
      using table assms(7,11) by (simp add: device_work_func_def device_id_roundtrip Let_def)
    then show ?thesis using False by (simp add: id)
  next
    case True
    obtain d1 where d1: "device_operation e (sd_ops (shdev_devices d ! w)) desc d = Some (ret, d1)"
      "hw_log d1 = hw_log d @ (if operation \<in> {0, 1} then [call] else [])" "memory d1 = memory d"
      using operation_calm [OF assms(1,8-10,7) table(3) assms(12,13,14)] unfolding assms(15) by blast
    have index: "SHDEV_ID_TO_DEVICE (sd_id (shdev_devices d ! w)) = w" using table(1) assms(7) by (simp add: device_id_roundtrip)
    obtain d' where d': "device_work_func e w d = Some d'"
      "load_message reply d' = (d_s_to_ns desc)\<lparr>m_status := 1, m_value := of_int \<bar>ret\<bar>\<rparr>"
      "\<forall>k. k < mem_index reply d \<or> mem_index reply d + 8 \<le> k \<longrightarrow> memory d' k = memory d1 k"
      "signals_ns_to_s (shm d') ! i = signals_ns_to_s (shm d) ! i OR SHDEV_SIGNAL (Suc w)" "drv.more d' = drv.more d1"
      using device_work_reply [OF assms(1-4) refl refl _ _ _ d1(1) _ assms(17)] table assms(7,11,16) True unfolding index by auto
    then show ?thesis
      using True d1(2,3) more_fields(1) [OF d'(5)] by (simp add: id SHDEV_SIGNAL_def)
  qed
qed

end
