(* ===== verification/PncShdev_Examples.thy ===== *)
theory PncShdev_Examples
  imports PncShdev_Serve
begin

text \<open>Concrete runs of the monitor and of its devices, on the driver of PncExamples.\<close>

theorem bus_device_resumed_witness:
  "\<exists>dev. hw_log (snd (enetdev_resume mmc_env (snd (enetdev_suspend mmc_env mmc_state)))) =
    [Enet_ioctl dev True, Enet_ioctl dev False]"
proof -
  have enet: "shared_enet_device mmc_state = 0" "enet_node mmc_env" "enet_platform_device mmc_env = 9"
    by (simp_all add: mmc_state_def mmc_env_def drv_env.defs drv.defs)
  then have "hw_log (snd (enetdev_suspend mmc_env mmc_state)) \<noteq> hw_log mmc_state"
    by (simp add: enetdev_suspend_def enetdev_get_def hw_calm)
  from bus_device_resumed [OF mmc_env_calm mmc_env_calm disjI1 [OF conjI [OF prod.collapse [symmetric] prod.collapse [symmetric]]] this]
  obtain dev where "hw_log (snd (enetdev_resume mmc_env (snd (enetdev_suspend mmc_env mmc_state)))) =
      [Enet_ioctl dev True, Enet_ioctl dev False] \<or>
    hw_log (snd (enetdev_resume mmc_env (snd (enetdev_suspend mmc_env mmc_state)))) =
      [Spi_master_suspend dev, Spi_master_resume dev]" by auto
  moreover have "Spi_master_suspend dev \<notin> set (hw_log (snd (enetdev_resume mmc_env (snd (enetdev_suspend mmc_env mmc_state)))))"
    by (simp add: enetdev_suspend_def enetdev_resume_def enetdev_get_def hw_calm Let_def enet)
  ultimately show ?thesis by auto
qed

lemma mmc_state_inv: "drv_inv mmc_state" "configured mmc_state 0" "heap mmc_state = heap shm_example"
  "sess mmc_state = sess drv_example" "tick mmc_state = 0" "session_ready mmc_state" "ree_version mmc_state = 0x302"
  "shm mmc_state = shm drv_example" "shm_sem mmc_state = 1" "blocks mmc_state = Some 1" "\<not> thread_should_stop mmc_state"
proof -
  have eq: "sessions mmc_state = sessions drv_example" "shm mmc_state = shm drv_example" "heap mmc_state = heap shm_example"
    "ns_to_s_ring mmc_state = ns_to_s_ring drv_example" "s_to_ns_ring mmc_state = s_to_ns_ring drv_example"
    "signal_session mmc_state = signal_session drv_example" "smc_wq mmc_state" "session_ready mmc_state"
    "tick mmc_state = 0" "ree_version mmc_state = 0x302" "shm_sem mmc_state = 1" "blocks mmc_state = Some 1"
    "\<not> thread_should_stop mmc_state"
    by (simp_all add: mmc_state_def drv.defs)
  show "sess mmc_state = sess drv_example" by (rule ext) (simp add: sess_def eq(1))
  show "heap mmc_state = heap shm_example" "tick mmc_state = 0" "session_ready mmc_state" "ree_version mmc_state = 0x302"
    "shm mmc_state = shm drv_example" "shm_sem mmc_state = 1" "blocks mmc_state = Some 1" "\<not> thread_should_stop mmc_state"
    using eq by simp_all
  show "drv_inv mmc_state" using drv_example_inv session_ok_example
    by (simp only: drv_inv_def sess_def eq) (simp add: mmc_state_def drv.defs)
  show "configured mmc_state 0"
    using drv_example_sessions(1) eq by (simp add: configured_def sess_def pnc_shm_ready_def)
qed

theorem monitor_layout_witness:
  "\<exists>d'. configure_memory mmc_env 0 mmc_state = Some (0, d') \<and> load_u32 (shdev_infos_ptr d') d' = SHDEV_MAGIC_INFOS"
proof -
  have "s_mem (sess mmc_state 0) = Some 1" by (simp add: mmc_state_inv) (simp add: example_session_def initial_session_def)
  moreover have "heap mmc_state 1 = Some \<lparr>blk_free = False, blk_offset = 3, blk_nr_pages = 4, blk_next = Some 2\<rparr>"
    by (simp add: mmc_state_inv shm_example_def)
  ultimately show ?thesis
    using monitor_layout [OF mmc_env_calm mmc_state_inv(1,2)] by fastforce
qed

text \<open>The memory of a session that is not configured is given back without a message.\<close>

lemma close_unconfigured:
  assumes "calm e" "drv_inv d" "i < REE_MAX_SESSIONS" "0 < s_sem (sess d i)" "s_global (sess d i) \<noteq> S_CONFIGURED"
    and "s_mem (sess d i) = Some p" "heap d p = Some blk" "0 < shm_sem d"
  shows "\<exists>d'. pnc_session_close e (Some i) d = Some d' \<and> session_ready d' = session_ready d \<and>
    pnc_shm_ready d' = pnc_shm_ready d \<and> s_sem (sess d' i) = s_sem (sess d i)"
proof -
  have len: "i < length (sessions d)" using assms(2,3) by (simp add: drv_inv_def)
  obtain r k where chk: "check_session_configured e i d = Some (r, d\<lparr>tick := k\<rparr>)" "r \<noteq> 0"
    using check_not_configured [OF assms(1-5)] by blast
  show ?thesis
    using assms len chk
    by (simp add: pnc_session_close_def down_calm pnc_shm_free_def down_shm_sem shm_free_locked_def Let_def
        lock_sessions_def yield_calm pnc_shm_ready_def upd_sess_def sess_def up_session_def upd_sem_def)
qed

lemma sess_monitor [simp]: "sess (d\<lparr>shdev_session := s\<rparr>) i = sess d i" "sess (d\<lparr>shm_sem := k\<rparr>) i = sess d i"
  by (simp_all add: sess_def)

lemma mmc_env_kmalloc: "kmalloc mmc_env n (\<lambda>a. heap shm_example a \<noteq> None) = Some 0"
  by (simp add: mmc_env_def drv_env.defs quiet_drv_env_def quiet_smc_env_def quiet_env_def smc_env.defs env.defs
      shm_example_def upt_rec)

lemma session_alloc_example:
  assumes "calm e" "\<And>n. kmalloc e n (\<lambda>a. heap shm_example a \<noteq> None) = Some 0"
    and "s_mem (sess d i) = None" "heap d = heap shm_example" "blocks d = Some 1" "shm_sem d = 1"
  shows "\<exists>h blk. pnc_session_alloc e i (2 * of_nat PAGE_SIZE) d =
    Some (0, upd_sess i (s_mem_update (\<lambda>_. Some 2)) (d\<lparr>tick := Suc (tick d), heap := h, shm_sem := 1\<rparr>)) \<and> h 2 = Some blk"
proof -
  let ?d = "d\<lparr>tick := Suc (tick d), shm_sem := 0\<rparr>"
  obtain blk where blk: "heap shm_example 2 = Some blk" by (simp add: shm_example_def)
  have "alloc_loop 2 (heap shm_example) (Some 1) = Some (Split 2, heap shm_example)"
    by (subst alloc_loop.simps, simp add: shm_example_def, subst alloc_loop.simps, simp)
  then have "shm_alloc_locked e 2 (Some 1) ?d =
      Some (0, Some 2, ?d\<lparr>heap := take_block 2 (split_block 2 2 0 (heap shm_example))\<rparr>)"
    using assms(2,4) by (simp add: shm_alloc_locked_def)
  then have "pnc_session_alloc e i (2 * of_nat PAGE_SIZE) d =
    Some (0, upd_sess i (s_mem_update (\<lambda>_. Some 2))
      (d\<lparr>tick := Suc (tick d), heap := take_block 2 (split_block 2 2 0 (heap shm_example)), shm_sem := 1\<rparr>))"
    using assms(1,3,5,6) by (simp add: pnc_session_alloc_def pnc_shm_alloc_def down_shm_sem yield_calm proto_consts Let_def)
  moreover have "\<exists>b. take_block 2 (split_block 2 2 0 (heap shm_example)) 2 = Some b"
    using blk by (simp add: take_block_def split_block_def)
  ultimately show ?thesis by blast
qed

theorem old_version_spins_witness:
  "\<exists>d'. thread_steps mmc_env 8 Monitor_restart mmc_state = Some (Monitor_loop, d') \<and> s_free (sess d' 4)"
proof -
  let ?open = "\<lambda>s. s\<lparr>s_free := False, s_event_pending := 0, s_client_message := zero_message, s_server_message := zero_message\<rparr>"
  let ?d1 = "upd_sess 4 ?open (mmc_state\<lparr>tick := 2\<rparr>)"
  have free: "find_free 0 (mmc_state\<lparr>tick := 2\<rparr>) = Some 4"
    by (simp add: find_free.simps [of _ "mmc_state\<lparr>tick := 2\<rparr>"] mmc_state_inv proto_consts)
      (simp add: example_session_def initial_session_def)
  have opened: "pnc_session_open mmc_env (yield mmc_env mmc_state) = Some (0, Some 4, ?d1)"
    using free by (simp add: pnc_session_open_def wait_event_def lock_sessions_def yield_calm mmc_state_inv numeral_2_eq_2 Let_def)
  have mem: "s_mem (sess ?d1 4) = None" "sess ?d1 4 = ?open (example_session 4)"
    using mmc_state_inv(1) by (simp_all add: drv_inv_def mmc_state_inv proto_consts) (simp add: example_session_def initial_session_def)
  obtain h blk where alloc: "pnc_session_alloc mmc_env 4 (2 * of_nat PAGE_SIZE) (?d1\<lparr>shdev_session := Some 4\<rparr>) =
      Some (0, upd_sess 4 (s_mem_update (\<lambda>_. Some 2)) (?d1\<lparr>shdev_session := Some 4, tick := 3, heap := h, shm_sem := 1\<rparr>))" "h 2 = Some blk"
    using session_alloc_example [where e = mmc_env and i = 4 and d = "?d1\<lparr>shdev_session := Some 4\<rparr>", OF mmc_env_calm mmc_env_kmalloc] mem(1)
    by (auto simp: mmc_state_inv simp del: sess_tick)
  let ?d2 = "upd_sess 4 (s_mem_update (\<lambda>_. Some 2)) (?d1\<lparr>shdev_session := Some 4, tick := 3, heap := h, shm_sem := 1\<rparr>)"
  have len: "4 < length (sessions mmc_state)" using mmc_state_inv(1) by (simp add: drv_inv_def proto_consts)
  have d2: "drv_inv ?d2" "sess ?d2 4 = (?open (example_session 4))\<lparr>s_mem := Some 2\<rparr>"
    using mmc_state_inv(1) mem(2) len by simp_all
  obtain d3 where d3: "pnc_session_close mmc_env (Some 4) ?d2 = Some d3" "session_ready d3" "pnc_shm_ready d3" "0 < s_sem (sess d3 4)"
    using close_unconfigured [of mmc_env ?d2 4 2 blk] d2 alloc(2) mmc_state_inv(2)
    by (auto simp: example_session_def initial_session_def proto_consts configured_def pnc_shm_ready_def mmc_state_inv)
  show ?thesis
    using old_version_spins [OF mmc_env_calm mmc_state_inv(1,11) opened alloc(1) _ d3, of 7] mmc_state_inv(7) by auto
qed

text \<open>The Ethernet device is to be suspended: its identifier is in its descriptor, the operation is 0.\<close>

definition suspend_state :: shdev_state where
  "suspend_state = snd (shdev_init mmc_env (store_u32 (shm_base drv_example + 44) (SHDEV_DEVICE_TO_ID ENET_DEVICE)
     (mmc_state\<lparr>shdev_session := Some 0, shdev_infos_ptr := shm_base drv_example\<rparr>)))"

lemma suspend_state:
  "drv_inv suspend_state" "configured suspend_state 0" "shdev_session suspend_state = Some 0"
  "shdev_infos_ptr suspend_state = shm_base drv_example" "shm_base suspend_state = shm_base drv_example"
  "shdev_devices suspend_state ! ENET_DEVICE = \<lparr>sd_id = SHDEV_DEVICE_TO_ID ENET_DEVICE, sd_signal_msg = SHDEV_SIGNAL SIGNAL_ENET_MESSAGE, sd_ops = Enetdev_ops\<rparr>"
  "load_u32 (shm_base drv_example + 44) suspend_state = SHDEV_DEVICE_TO_ID ENET_DEVICE"
proof -
  have k: "kthread_create mmc_env = 0" by (simp add: mmc_env_def drv_env.defs)
  show "drv_inv suspend_state" "shdev_session suspend_state = Some 0"
    "shdev_infos_ptr suspend_state = shm_base drv_example" "shm_base suspend_state = shm_base drv_example"
    "shdev_devices suspend_state ! ENET_DEVICE = \<lparr>sd_id = SHDEV_DEVICE_TO_ID ENET_DEVICE, sd_signal_msg = SHDEV_SIGNAL SIGNAL_ENET_MESSAGE, sd_ops = Enetdev_ops\<rparr>"
    using mmc_state_inv(1) by (simp_all add: suspend_state_def shdev_init_def store_u32_def store_def k Let_def shdev_devices)
  show "configured suspend_state 0"
    using mmc_state_inv(2) by (simp add: suspend_state_def shdev_init_def k store_u32_def store_def Let_def configured_def sess_def pnc_shm_ready_def)
  have "load_u32 a (d\<lparr>thread_started := t, shdev_devices := ds, shdev_work := w\<rparr>) = load_u32 a d" for a t ds w and d :: shdev_state
    by (simp add: load_u32_def load_def mem_index_def)
  then show "load_u32 (shm_base drv_example + 44) suspend_state = SHDEV_DEVICE_TO_ID ENET_DEVICE"
    using load_store_u32_same [of "shm_base drv_example + 44" "SHDEV_DEVICE_TO_ID ENET_DEVICE"
      "mmc_state\<lparr>shdev_session := Some 0, shdev_infos_ptr := shm_base drv_example\<rparr>"]
    by (simp add: suspend_state_def shdev_init_def k Let_def load_u32_def load_def mem_index_def)
qed

text \<open>The same, with the bus devices known.\<close>

definition bound_state :: shdev_state where
  "bound_state = suspend_state\<lparr>shared_enet_device := 9, shared_spi_device := 10\<rparr>"

theorem device_work_dispatch_witness:
  "\<exists>d'. device_work_func mmc_env ENET_DEVICE bound_state = Some d' \<and> hw_log d' = [Enet_ioctl 9 True] \<and>
    m_status (load_message 4144 d') = 1"
proof -
  obtain d0 :: shdev_state where d0: "shdev_init mmc_env d0 = (0, snd (shdev_init mmc_env d0))"
      "shdev_devices bound_state = shdev_devices (snd (shdev_init mmc_env d0))"
    by (simp add: bound_state_def suspend_state_def shdev_init_def mmc_env_def drv_env.defs Let_def)
  have ok: "drv_inv bound_state" "configured bound_state 0" "shdev_session bound_state = Some 0" "hw_log bound_state = []"
    "shdev_mmc_bdev bound_state \<noteq> 0" "shared_enet_device bound_state = 9" "shared_spi_device bound_state = 10"
    "shdev_infos_ptr bound_state = shm_base drv_example" "shm_base bound_state = shm_base drv_example"
    using suspend_state(1-5) by (simp_all add: bound_state_def configured_def sess_def pnc_shm_ready_def split: if_splits)
      (simp_all add: suspend_state_def shdev_init_def store_u32_def store_def Let_def)
  have loads: "load n a bound_state = load n a suspend_state" for n a
    by (simp add: bound_state_def load_def mem_index_def)
  have "memory suspend_state k = 0" if "k < 44 \<or> 48 \<le> k" for k
    using that by (simp add: suspend_state_def shdev_init_def store_u32_def store_def mem_index_def write_bytes_outside Let_def)
  then have operation: "m_operation (d_s_to_ns (load_desc 4140 bound_state)) = 0"
    using suspend_state(5) by (simp add: load_desc_def load_message_def load_u16_def loads) (simp add: load_def mem_index_def upt_rec)
  have id: "d_id (load_desc 4140 bound_state) = 0xabed0001"
    using suspend_state(7)
    by (simp add: load_desc_def load_u32_def loads SHDEV_DEVICE_TO_ID_def SHDEV_DEVICE_PREFIX_def shdev_devices)
  have addr: "desc_addr 4096 ENET_DEVICE = 4140" "ENET_DEVICE < NUM_DEVICES" "(of_nat ENET_DEVICE :: u32) = 1" "ENET_DEVICE \<noteq> 0"
    "\<And>xs. xs ! ENET_DEVICE = xs ! 1"
    by (simp_all add: desc_addr_def shdev_devices shdev_sizes)
  show ?thesis
    using device_work_dispatch [OF mmc_env_calm ok(1-3) d0 addr(2) ok(5) _ _ refl refl _ refl refl refl]
    by (auto simp: ok addr operation id mem_index_def)
qed

text \<open>The same, with the signal of the Ethernet device pending.\<close>

definition signalled_state :: shdev_state where
  "signalled_state = suspend_state\<lparr>shm := (shm suspend_state)\<lparr>signals_s_to_ns :=
     (signals_s_to_ns (shm suspend_state))[0 := SHDEV_SIGNAL (Suc ENET_DEVICE)]\<rparr>\<rparr>"

lemma signalled_state:
  "drv_inv signalled_state" "configured signalled_state 0" "shdev_session signalled_state = Some 0"
  "shdev_infos_ptr signalled_state = shm_base drv_example" "shm_base signalled_state = shm_base drv_example"
  "\<not> thread_should_stop signalled_state" "shdev_devices signalled_state = shdev_devices suspend_state"
  "length (shdev_work signalled_state) = NUM_DEVICES" "bit (signals_s_to_ns (shm signalled_state) ! 0) (Suc ENET_DEVICE)"
  "d_id (load_desc 4140 signalled_state) = SHDEV_DEVICE_TO_ID ENET_DEVICE"
proof -
  show "drv_inv signalled_state" using suspend_state(1) by (simp add: signalled_state_def drv_inv_def sess_def)
  show "configured signalled_state 0"
    using suspend_state(2) by (simp add: signalled_state_def configured_def sess_def pnc_shm_ready_def split: if_splits)
  show "shdev_session signalled_state = Some 0" "shdev_infos_ptr signalled_state = shm_base drv_example"
    "shm_base signalled_state = shm_base drv_example" "shdev_devices signalled_state = shdev_devices suspend_state"
    using suspend_state by (simp_all add: signalled_state_def)
  show "\<not> thread_should_stop signalled_state" "length (shdev_work signalled_state) = NUM_DEVICES"
    using mmc_state_inv(11) by (simp_all add: signalled_state_def suspend_state_def shdev_init_def mmc_env_def drv_env.defs Let_def
        store_u32_def store_def)
  have "0 < length (signals_s_to_ns (shm suspend_state))" using suspend_state(1) by (simp add: drv_inv_def proto_consts)
  then show "bit (signals_s_to_ns (shm signalled_state) ! 0) (Suc ENET_DEVICE)"
    by (simp add: signalled_state_def SHDEV_SIGNAL_def shdev_devices)
  have "load_u32 a signalled_state = load_u32 a suspend_state" for a
    by (simp add: signalled_state_def load_u32_def load_def mem_index_def)
  then show "d_id (load_desc 4140 signalled_state) = SHDEV_DEVICE_TO_ID ENET_DEVICE"
    using suspend_state(7) by (simp add: load_desc_def)
qed

theorem shared_device_served_witness:
  "\<exists>d1 d2 d3. handle_s_signal mmc_env 0 signalled_state = Some d1 \<and>
    thread_step mmc_env Monitor_loop d1 = Some (Monitor_loop, d2) \<and> flush_work mmc_env ENET_DEVICE d2 = Some d3 \<and>
    m_status (load_message (shm_base drv_example + 48) d3) = 1"
proof -
  have enet: "ENET_DEVICE < NUM_DEVICES" by (simp add: shdev_devices)
  have addr: "desc_addr 4096 ENET_DEVICE = 4140" by (simp add: desc_addr_def shdev_devices shdev_sizes)
  obtain d0 :: shdev_state where d0: "shdev_init mmc_env d0 = (0, snd (shdev_init mmc_env d0))" "shdev_devices suspend_state = shdev_devices (snd (shdev_init mmc_env d0))"
    using mmc_env_calm by (simp add: suspend_state_def shdev_init_def mmc_env_def drv_env.defs Let_def)
  have "sd_ops (shdev_devices suspend_state ! ENET_DEVICE) = Enetdev_ops" using suspend_state(6) by simp
  then have "\<exists>x. device_operation mmc_env (sd_ops (shdev_devices suspend_state ! ENET_DEVICE)) desc d = Some x" for desc and d :: shdev_state
    by (simp add: device_operation_def ops_transfer_def Let_def)
  note runs = this [unfolded d0(2)]
  obtain d1 d2 where d2: "handle_s_signal mmc_env 0 signalled_state = Some d1" "thread_step mmc_env Monitor_loop d1 = Some (Monitor_loop, d2)"
    and work: "case device_operation mmc_env (sd_ops (shdev_devices (snd (shdev_init mmc_env d0)) ! ENET_DEVICE)) (load_desc 4140 signalled_state)
        (d2\<lparr>shdev_work := (shdev_work d2)[ENET_DEVICE := False]\<rparr>) of
      None \<Rightarrow> flush_work mmc_env ENET_DEVICE d2 = None
    | Some (ret, _) \<Rightarrow> \<exists>d3. flush_work mmc_env ENET_DEVICE d2 = Some d3 \<and> m_status (load_message 4144 d3) = 1"
    using shared_device_served [OF mmc_env_calm signalled_state(1-3,6) d0(1) _ signalled_state(8) enet signalled_state(9) refl _ refl]
    by (fastforce simp: signalled_state(4,5,7,10) d0(2) addr mem_index_def simp del: thread_step.simps split: option.splits)
  obtain ret d' where "device_operation mmc_env (sd_ops (shdev_devices (snd (shdev_init mmc_env d0)) ! ENET_DEVICE)) (load_desc 4140 signalled_state)
      (d2\<lparr>shdev_work := (shdev_work d2)[ENET_DEVICE := False]\<rparr>) = Some (ret, d')" using runs by (metis surj_pair)
  then show ?thesis using d2 work by auto
qed

end
