(* ===== verification/Spec2Isabelle.thy ===== *)
theory Spec2Isabelle
  imports PncRing_Weak_Fifo PncRingBi_Fifo PncHistory_Examples PncDevice_Props PncModule_Props PncShdev_Examples
begin

text \<open>
  The ProvenCore driver: the Linux side of a trusted execution environment. The secure world (ProvenCore, behind the
  secure monitor) and the driver share some pages of memory; each side notifies the other with an interrupt or a
  monitor call. On top of two ring buffers in these pages the driver offers sessions with services of the secure
  world, to kernel users and, through a character device, to processes. A second module is such a kernel user: it
  lends the eMMC, Ethernet and SPI devices to the secure world.

  \<^bold>\<open>Parts, sources, theories\<close>

  \<^item> \<open>include/misc/provencore/pnr_ring.h\<close>, unidirectional ring: PncRing has the operations of producer and consumer,
    with \<open>u32\<close> indices that wrap; PncRing_Fifo their correctness. The macro parameter for the type of a message is a
    type variable. PncRing_Weak splits the operations for single messages into their accesses to memory, on processors
    that delay stores; PncRing_Weak_Fifo refines that ring to the first one. Bidirectional ring: PncRingBi and
    PncRingBi_Fifo.
  \<^item> \<open>drivers/provencore/ree/ree.h\<close> and the constants of \<open>include/misc/provencore/ree_session.h\<close>: PncProto (messages,
    actions, session states, the layout of the reserved pages).
  \<^item> \<open>drivers/provencore/ree/smc.c\<close>, \<open>smc.h\<close>: PncSmc. The answer of the monitor is an input; the calls are a log.
  \<^item> \<open>drivers/provencore/ree/shm.c\<close>, \<open>shm.h\<close>: PncShm (the page allocator over an explicit heap of blocks, the header),
    PncShm_Alloc (its correctness) and PncShm_Tiled (no block outside the list).
  \<^item> \<open>drivers/provencore/ree/session.c\<close>: PncSession (state, notification, waiting, close), PncHandlers (interrupt,
    worker, one handler per message, start and end), PncApi (the functions exported to users). PncInv is the invariant
    and a rule per operation, PncDriver the framework as a state machine, PncCalls what the calls do, PncRequests the
    server's side and the cancellation, PncWorker a run of the notification worker. Over whole histories: PncKept what
    all calls keep, PncChannel the ring to the secure world, PncExclusive the memory of the sessions, PncIsolation what
    belongs to one session. PncSemaphores has the semaphores on every path of every call, PncReturns that a thread with a
    pending signal returns. PncExamples and PncHistory_Examples are concrete runs.
  \<^item> \<open>drivers/provencore/ree/main.c\<close>: PncDevice and PncDevice_Props (the character device), PncModule and
    PncModule_Props (\<open>pnc_init\<close> and \<open>pnc_exit\<close>).
  \<^item> \<open>drivers/provencore/shdev/\<close>: PncShdevMem (\<open>shdev.h\<close>, structures in shared memory), PncMmc and PncMmc_Props
    (\<open>mmcblk.c\<close>), PncNetSpi (\<open>enetdev.c\<close>, \<open>spidev.c\<close>), PncShdev, PncShdev_Inv and PncShdev_Props (\<open>shdev.c\<close>),
    PncShdev_Serve (the way of a request through worker, thread and work), PncShdev_Examples.
  \<^item> PncPrelude has what all parts share: C integer types, error numbers, the rules of \<open>wlp\<close>, arithmetic of indices.
    PncKernel has what the driver uses of Linux: semaphores, the points where a thread sleeps, \<open>kmalloc\<close>.

  \<^bold>\<open>State and effects\<close>

  The globals of the files are one record, extended from part to part: \<open>kstate\<close>, \<open>smc_state\<close>, \<open>shm_state\<close>, \<open>drv\<close>, and
  then \<open>module_state\<close> for the module or \<open>shdev_state\<close> for the monitor of the shared devices. An operation takes the
  state and returns it. Its inputs from outside (what the other threads and the secure world do, whether a signal
  interrupts a wait, memory that \<open>kmalloc\<close> returns, answers of monitor and devices, the configuration) are fields of a
  record of type \<open>env\<close> and its extensions. At each point where the code sleeps, takes a lock or calls another driver,
  \<open>yield\<close> lets the others change the state in any way the theorem at hand allows: \<open>env_keeps P\<close> says that they keep
  \<open>P\<close>, \<open>calm\<close> that they do nothing. Fields of the shared memory that a function reads twice are read twice.

  A result is an \<open>option\<close>: \<open>None\<close> is an execution that does not go on, a wait that no event ends or an access through
  a pointer that is not valid. Such a pointer is a null pointer, a block that is not in the heap, or, in the eMMC code, an
  address outside the shared area computed from an offset that the secure world has written (\<open>in_area\<close>, PncShdevMem). The
  descriptors of the shared devices are at the address that the framework returned for the memory of the session. A theorem that gives \<open>Some\<close> states that the code returns. Error numbers are negative
  integers as in the source. A pointer to a session is the index of its slot, a pointer to a block an address of the
  heap, the shared pages of the sessions are bytes at their distance from the base of the area. Loops that stop by
  their data are recursive functions with a measure; the loops of the allocator, of the search for the reserved
  memory, of the configuration by name and of the thread are \<open>partial_function (option)\<close>, and where the code
  always leaves them this is a theorem (\<open>shm_alloc_complete\<close>, \<open>find_reserved_mem_total\<close>). No definition has fuel.

  \<^bold>\<open>Interfaces\<close>

  \<open>fifo_machine\<close> (PncFifo) is the contract of a channel between two actors; it is interpreted on the unidirectional
  ring, on that ring with delayed stores, and three times on the bidirectional one (requests, responses, and requests
  that are not answered yet).
  \<open>page_allocator\<close> (PncShm_Alloc) is the contract of the allocator over histories of its operations. \<open>kept_device\<close>
  and \<open>paired_device\<close> (PncNetSpi) are the contract of a lookup that is kept and of suspend and resume on it.
  \<open>kept_by_calls\<close> (PncKept) says which primitive operations must keep a property of the state so that every call
  of the framework on the sessions that may be touched keeps it; it is interpreted on the ring to the secure world with
  the allocator, on the blocks that the sessions have, and on the slot, pages and signals of one session.

  \<^bold>\<open>What is shown\<close>

  \<^item> Rings: over all interleavings messages arrive in order, unchanged and at most as many as fit; the operations
    refine those of a queue; a peer that writes anything to the shared fields cannot
    make an actor leave the array; copies in two parts are loops over slots. Where stores are delayed, what the code
    orders (release stores of the indices, a fence between a store and the next load) is enough for order, and outside a
    commit an actor that waits for a notification has missed nothing.
  \<^item> Allocator: the list of blocks tiles the memory, allocation and release change exactly one range, allocation
    succeeds exactly when a run of adjacent free blocks that the code merges is large enough.
  \<^item> Sessions: every history of calls and messages keeps the table well formed, whatever the secure world sends; the
    handlers refine the automaton of the protocol; a message touches only its session; the worker delivers every
    signal and handles every message once, in order; requests, responses and signals reach the other side, in both
    directions; a cancellation that races with its response resolves; closing returns and releases. Over
    every history the secure world receives what the driver sent, in order, and only messages of the protocol; no page
    belongs to two sessions, as long as no session is closed by another thread under a call on it (and otherwise one
    may); calls on the other sessions leave the slot, the bytes and the signals of a session alone. Every call gives
    back the semaphores it takes, whatever the others take and give of them (\<open>others_held\<close> is their account), but for a
    configuration whose name is refused; and a thread with a pending signal
    returns from every call on its session.
  \<^item> Character device: an ioctl writes only to the parameters the process named, a mapping has only pages of the
    session's own memory.
  \<^item> Module: the start acquires everything or nothing and announces the memory, the end releases.
  \<^item> Shared devices: the monitor keeps the invariant of the framework and its layout inside the memory of its
    session; a request goes from its signal to its answer, a work does what its descriptor asks for and nothing else, and
    each RPMB request has exactly its commands; transfers stay in the buffers of their descriptor when these lie in the
    area, the length is below 4 GB and nobody changes it during the operation.
  \<^item> Where the code does something else than it means to, a theorem shows it: \<open>config_by_name_leaks_semaphore\<close>,
    \<open>terminated_slot_given_twice\<close>, \<open>close_releases_foreign_block\<close>, \<open>request_hidden_by_event\<close>,
    \<open>request_lost_when_full\<close>, \<open>timeout_wraps\<close>, \<open>ioctl_fault_loses_response\<close>, \<open>ioctl_leaks_stack\<close>, \<open>init_hides_failure\<close>, \<open>exit_waits_for_secure_world\<close>,
    \<open>room_request_ignored\<close>, \<open>mmc_length_truncated\<close>, \<open>old_version_spins\<close>.

  A theorem whose name ends in \<open>_witness\<close> applies the theorem of that name to a concrete state, so that its hypotheses
  are known to hold together.

  \<^bold>\<open>Configuration and bounds\<close>

  The model is the 64-bit little endian build with \<open>CONFIG_SMP\<close>, interrupt domains, and all three shared devices with
  remote host and RPMB; both sources of the shared memory (device tree and page allocation) are modelled. Pages have
  4096 bytes, there are 28 sessions and rings of 256 messages, as the headers define; the theorems on rings hold for
  every capacity that is a power of two below \<open>2 ^ 32\<close>.

  \<^bold>\<open>Not modelled\<close>

  Memory ordering beyond the unidirectional ring: in the rest of the model an operation on a ring is one step, and
  two reads of a shared field are separated only where the code reads it twice. In PncRing_Weak loads take place in
  program order and only stores are delayed; the batch operations are not split. Spin locks: what they protect is one step. The
  messages of \<open>pr_err\<close> and its like. The reserved pages (header, registers, rings) and the pages of the sessions are
  separate parts of the state. The reference counts of device tree nodes. The parts of \<open>pnr_ring.h\<close> that select a
  compiler, padding to cache lines, and the user space build of the headers. The variants that other
  configurations select: no \<open>CONFIG_SMP\<close>, eMMC devices found by number or through their parents, a fixed geometry of
  the RPMB partition.
\<close>

end
